(* ===== verification/Prelude.thy ===== *)
theory Prelude
  imports Main "HOL-Library.Word" "HOL-Library.Stream"
begin

text \<open>
  What every component of the development shares: the names of the C integer types, the C
  strings, the heap as a stream of answers (any allocation may fail), decimal printing as
  \<^verbatim>\<open>printf\<close> does it, and the lemmas that move word arithmetic to natural numbers.
  \<^item> \<open>u8\<close>, \<open>u16\<close>, \<open>u32\<close>, \<open>u64\<close> are the unsigned integers of \<^verbatim>\<open>stdint.h\<close>;
    \<open>size_t\<close> is 64 bits wide (LP64).
  \<^item> A \<^verbatim>\<open>const char *\<close> that is never NULL is a \<open>string\<close> without its terminator; one that
    may be NULL is a \<open>string option\<close>.
\<close>

unbundle bit_operations_syntax

type_synonym u8 = "8 word"
type_synonym u16 = "16 word"
type_synonym u32 = "32 word"
type_synonym u64 = "64 word"
type_synonym size_t = "64 word"

named_theorems word_nat "facts that turn word operations into operations on natural numbers"
named_theorems invar_intros "introduction rules for the components' invariants"

subsection \<open>Words as natural numbers\<close>

lemma unat_drop_bit_6 [word_nat]: "unat (drop_bit 6 (w :: u64)) = unat w div 64"
  by (simp add: drop_bit_eq_div unat_div)

lemma unat_and_63 [word_nat]: "unat ((w :: u64) AND 63) = unat w mod 64"
proof -
  have "(63 :: u64) = mask 6" by (simp add: mask_eq_exp_minus_1)
  then have "w AND 63 = take_bit 6 w" by (simp add: take_bit_eq_mask)
  then show ?thesis by (simp add: take_bit_eq_mod unat_mod)
qed

lemma unat_increment [word_nat]: "w < n \<Longrightarrow> unat (w + 1) = Suc (unat w)" for w n :: "'a :: len word"
proof -
  assume less: "w < n"
  have "w + 1 \<noteq> 0"
  proof
    assume zero: "w + 1 = 0"
    have "w = w + 1 - 1" by simp
    with zero have "w = - 1" by simp
    with less show False by simp
  qed
  then have "1 + w \<noteq> 0" by (simp add: add.commute)
  then have "unat (1 + w) = Suc (unat w)" by (rule unatSuc)
  then show ?thesis by (simp add: add.commute)
qed

lemma unat_of_nat_small: "n < 2 ^ LENGTH('a) \<Longrightarrow> unat (of_nat n :: 'a :: len word) = n"
  by (simp add: unat_of_nat take_bit_eq_mod)

lemma unat_u64_less: "unat (w :: u64) < 2 ^ 64"
  using unsigned_less [of w] by simp

lemma unat_u32_less: "unat (w :: u32) < 2 ^ 32"
  using unsigned_less [of w] by simp

lemma unat_u16_less: "unat (w :: u16) < 2 ^ 16"
  using unsigned_less [of w] by simp

lemma unat_u32_less_num: "unat (w :: u32) < 18446744073709551616"
  using unat_u32_less [of w] by simp

lemma unat_ucast_u32_u64 [word_nat]: "unat (ucast (w :: u32) :: u64) = unat w"
  by (simp add: unsigned_ucast_eq take_bit_eq_mod unat_u32_less_num)

lemma unat_ucast_u64_u32: "unat (w :: u64) < 2 ^ 32 \<Longrightarrow> unat (ucast w :: u32) = unat w"
  by (simp add: unsigned_ucast_eq take_bit_eq_mod)

lemma unat_add_small: "unat a + unat b < 2 ^ LENGTH('a) \<Longrightarrow> unat (a + b) = unat a + unat b"
  for a b :: "'a :: len word"
  by (simp add: unat_word_ariths)

lemma unat_mult_small: "unat a * unat b < 2 ^ LENGTH('a) \<Longrightarrow> unat (a * b) = unat a * unat b"
  for a b :: "'a :: len word"
  by (simp add: unat_word_ariths)

subsection \<open>Single bits of a 64-bit word\<close>

text \<open>\<^verbatim>\<open>UINT64_C(1) << n\<close>\<close>

definition bit_mask :: "size_t \<Rightarrow> u64" where
  "bit_mask n = push_bit (unat n) 1"

lemma and_bit_mask_iff: "w AND bit_mask n \<noteq> 0 \<longleftrightarrow> bit w (unat n)"
  by (simp add: bit_mask_def bit_iff_and_push_bit_not_eq_0)

lemma bit_or_bit_mask: "unat n < 64 \<Longrightarrow> bit (w OR bit_mask n) i \<longleftrightarrow> bit w i \<or> i = unat n"
  by (auto simp: bit_mask_def bit_simps)

lemma bit_u64_less: "bit (w :: u64) n \<Longrightarrow> n < 64"
  using bit_imp_le_length [of w n] by simp

lemma u64_eq_0_iff: "(w :: u64) = 0 \<longleftrightarrow> (\<forall>n < 64. \<not> bit w n)"
  by (auto simp: bit_eq_iff dest: bit_u64_less)

subsection \<open>The heap\<close>

text \<open>
  An allocation of the C library may fail at any time. The heap is the stream of the answers it
  will give, one per call of \<^verbatim>\<open>malloc\<close>, \<^verbatim>\<open>calloc\<close> or \<^verbatim>\<open>realloc\<close>; \<open>plenty\<close> is
  the heap where every allocation succeeds.
\<close>

type_synonym heap = "bool stream"

definition heap_alloc :: "heap \<Rightarrow> bool \<times> heap" where
  "heap_alloc h = (shd h, stl h)"

text \<open>\<^verbatim>\<open>calloc (n, size)\<close>: NULL when the product overflows or the heap refuses.\<close>

definition heap_calloc :: "size_t \<Rightarrow> nat \<Rightarrow> 'a \<Rightarrow> heap \<Rightarrow> 'a list option \<times> heap" where
  "heap_calloc n sz zero h =
     (if unat n * sz < 2 ^ 64 \<and> shd h then Some (replicate (unat n) zero) else None, stl h)"

definition plenty :: heap where
  "plenty = sconst True"

lemma plenty_simps [simp]: "shd plenty = True" "stl plenty = plenty"
  by (simp_all add: plenty_def)

lemma heap_alloc_plenty [simp]: "heap_alloc plenty = (True, plenty)"
  by (simp add: heap_alloc_def)

subsection \<open>Decimal output\<close>

text \<open>The digits that \<^verbatim>\<open>printf\<close> writes for \<^verbatim>\<open>%u\<close>, \<^verbatim>\<open>%zu\<close> and \<^verbatim>\<open>%d\<close>.\<close>

definition digit_char :: "nat \<Rightarrow> char" where
  "digit_char d = char_of (48 + d)"

fun show_nat :: "nat \<Rightarrow> string" where
  "show_nat n = (if n < 10 then [digit_char n] else show_nat (n div 10) @ [digit_char (n mod 10)])"

declare show_nat.simps [simp del]

definition show_u :: "'a :: len word \<Rightarrow> string" where
  "show_u w = show_nat (unat w)"

definition show_d :: "'a :: len word \<Rightarrow> string" where
  "show_d w = (if sint w < 0 then ''-'' @ show_nat (nat (- sint w)) else show_nat (nat (sint w)))"

lemma of_char_digit_char: "d < 10 \<Longrightarrow> of_char (digit_char d) = 48 + d" for d :: nat
  by (simp add: digit_char_def)

lemma show_nat_not_Nil [simp]: "show_nat n \<noteq> []"
  by (subst show_nat.simps) simp

lemma show_nat_digits: "c \<in> set (show_nat n) \<Longrightarrow> \<exists>d < 10. c = digit_char d"
proof (induction n rule: show_nat.induct)
  case (1 n)
  show ?case
  proof (cases "n < 10")
    case True
    with 1 show ?thesis by (auto simp: show_nat.simps [of n])
  next
    case False
    with "1.prems" consider "c \<in> set (show_nat (n div 10))" | "c = digit_char (n mod 10)"
      by (auto simp: show_nat.simps [of n])
    then show ?thesis
      using 1 False by cases (auto intro!: exI [of _ "n mod 10"])
  qed
qed

subsection \<open>Ranks of acyclic relations\<close>

text \<open>Along a relation without cycles a rank decreases; it is bounded by the number of sources.\<close>

lemma acyclic_rank:
  assumes "acyclic r" and fin: "finite S" and src: "Domain r \<subseteq> S"
  obtains rank where "\<And>x y. (x, y) \<in> r \<Longrightarrow> rank y < rank x" "\<And>x. rank x \<le> card S"
proof
  fix x y
  assume edge: "(x, y) \<in> r"
  have "(y, x) \<notin> r\<^sup>*" using edge assms(1) by (meson acyclic_def rtrancl_into_trancl2)
  moreover have "(y, z) \<in> r\<^sup>* \<Longrightarrow> (x, z) \<in> r\<^sup>*" for z
    using edge by (rule converse_rtrancl_into_rtrancl)
  ultimately have "{z \<in> S. (y, z) \<in> r\<^sup>*} \<subset> {z \<in> S. (x, z) \<in> r\<^sup>*}" using src edge by (auto simp: Domain_iff)
  then show "card {z \<in> S. (y, z) \<in> r\<^sup>*} < card {z \<in> S. (x, z) \<in> r\<^sup>*}"
    using fin by (simp add: psubset_card_mono)
qed (use fin in \<open>simp add: card_mono\<close>)

end
