(* ===== verification/Id_Set.thy ===== *)
theory Id_Set
  imports Prelude
begin

text \<open>
  The interface of a set of type ids below a capacity, as the seed extraction, the requirements,
  the closure and the emitter use it: a membership test, an insertion that reports whether
  the id is new, and (in the extended interface) a cursor that walks the members upwards.
  The clients' lemmas are proved here once; \<open>Type_Set\<close> and \<open>Requirements\<close> interpret the
  interface on the bit sets of the code.
\<close>

locale id_set =
  fixes isin :: "'s \<Rightarrow> size_t \<Rightarrow> bool"
    and add :: "'s \<Rightarrow> size_t \<Rightarrow> bool \<times> 's"
    and elems :: "'s \<Rightarrow> nat set"
    and capacity :: "'s \<Rightarrow> nat"
    and invar :: "'s \<Rightarrow> bool"
  assumes elems_below: "invar s \<Longrightarrow> elems s \<subseteq> {..< capacity s}"
    and isin_iff: "invar s \<Longrightarrow> isin s i \<longleftrightarrow> unat i \<in> elems s"
    and add_invar: "invar s \<Longrightarrow> invar (snd (add s i))"
    and add_capacity: "invar s \<Longrightarrow> capacity (snd (add s i)) = capacity s"
    and add_elems: "invar s \<Longrightarrow>
      elems (snd (add s i)) = (if unat i < capacity s then insert (unat i) (elems s) else elems s)"
    and add_fresh: "invar s \<Longrightarrow> fst (add s i) \<longleftrightarrow> unat i < capacity s \<and> unat i \<notin> elems s"
begin

lemma finite_elems: "invar s \<Longrightarrow> finite (elems s)"
  using elems_below finite_subset by blast

lemma card_elems: "invar s \<Longrightarrow> card (elems s) \<le> capacity s"
  using card_mono [OF _ elems_below] by fastforce

lemma isin_after_add:
  assumes "invar s"
  shows "isin (snd (add s i)) j \<longleftrightarrow> isin s j \<or> (j = i \<and> unat i < capacity s)"
  using assms by (auto simp: isin_iff add_invar add_elems word_unat_eq_iff)

lemma add_stale: "invar s \<Longrightarrow> \<not> fst (add s i) \<Longrightarrow> elems (snd (add s i)) = elems s"
  by (auto simp: add_elems add_fresh)

lemma card_add:
  assumes "invar s"
  shows "card (elems (snd (add s i))) = card (elems s) + (if fst (add s i) then 1 else 0)"
  using assms finite_elems [OF assms] by (auto simp: add_elems add_fresh insert_absorb)

lemma add_twice: "invar s \<Longrightarrow> \<not> fst (add (snd (add s i)) i)"
  by (auto simp: add_fresh add_invar add_elems add_capacity)

lemma elems_mono_add: "invar s \<Longrightarrow> elems s \<subseteq> elems (snd (add s i))"
  by (auto simp: add_elems)

text \<open>Inserting a list of ids, one after the other, as every client loop does.\<close>

lemma fold_add:
  assumes "invar s" and "\<forall>i \<in> set is. unat i < capacity s"
  shows "invar (fold (\<lambda>i s. snd (add s i)) is s)
    \<and> capacity (fold (\<lambda>i s. snd (add s i)) is s) = capacity s
    \<and> elems (fold (\<lambda>i s. snd (add s i)) is s) = elems s \<union> unat ` set is"
  using assms
proof (induction "is" arbitrary: s)
  case Nil
  then show ?case by simp
next
  case (Cons i "is")
  have s': "invar (snd (add s i))" "capacity (snd (add s i)) = capacity s"
    using Cons.prems by (auto simp: add_invar add_capacity)
  with Cons.prems have "\<forall>j \<in> set is. unat j < capacity (snd (add s i))" by simp
  from Cons.IH [OF s'(1) this] s'(2) Cons.prems show ?case by (simp add: add_elems)
qed

end

text \<open>The cursor: \<open>next s c\<close> is the least member from \<open>c\<close> on, with the cursor moved behind it.\<close>

locale id_set_cursor = id_set +
  fixes nxt :: "'s \<Rightarrow> size_t \<Rightarrow> size_t option \<times> size_t"
  assumes next_Some: "invar s \<Longrightarrow> nxt s c = (Some i, c') \<Longrightarrow>
      unat i \<in> elems s \<and> unat c \<le> unat i \<and> unat c' = Suc (unat i)
      \<and> (\<forall>j. unat c \<le> j \<and> j < unat i \<longrightarrow> j \<notin> elems s)"
    and next_None: "invar s \<Longrightarrow> nxt s c = (None, c') \<Longrightarrow> \<forall>j \<in> elems s. j < unat c"
begin

text \<open>
  \<open>drains s c xs\<close>: a \<^verbatim>\<open>while (next (set, &cursor, &id))\<close> loop that starts at cursor
  \<open>c\<close> visits exactly the ids \<open>xs\<close>, in this order.
\<close>

inductive drains :: "'s \<Rightarrow> size_t \<Rightarrow> size_t list \<Rightarrow> bool" for s where
  drain_end: "nxt s c = (None, c') \<Longrightarrow> drains s c []"
| drain_step: "nxt s c = (Some i, c') \<Longrightarrow> drains s c' xs \<Longrightarrow> drains s c (i # xs)"

lemma drains_sorted_list:
  assumes "invar s" and "drains s c xs"
  shows "map unat xs = sorted_list_of_set {j \<in> elems s. unat c \<le> j}"
  using assms(2)
proof (induction rule: drains.induct)
  case (drain_end c c')
  then have "{j \<in> elems s. unat c \<le> j} = {}"
    using next_None [OF assms(1)] by fastforce
  then show ?case by (simp del: Collect_empty_eq)
next
  case (drain_step c i c' xs)
  note i = next_Some [OF assms(1) drain_step.hyps(1)]
  let ?rest = "{j \<in> elems s. unat c' \<le> j}"
  have "{j \<in> elems s. unat c \<le> j} = insert (unat i) ?rest"
    using i by (auto simp: Suc_le_eq)
  moreover have "finite ?rest"
    using finite_elems [OF assms(1)] by simp
  moreover have "\<forall>j \<in> ?rest. unat i < j" using i by auto
  ultimately have "sorted_list_of_set {j \<in> elems s. unat c \<le> j}
      = unat i # sorted_list_of_set ?rest"
    using sorted_list_of_set_insert_remove [of ?rest "unat i"]
    by (auto simp: insort_is_Cons less_imp_le Diff_insert_absorb [of "unat i" ?rest, symmetric]
        intro!: arg_cong [of _ _ sorted_list_of_set])
  with drain_step.IH show ?case by simp
qed

lemma drains_exists:
  assumes "invar s"
  shows "\<exists>xs. drains s c xs"
proof (induction "card {j \<in> elems s. unat c \<le> j}" arbitrary: c rule: less_induct)
  case less
  obtain r c' where nxt: "nxt s c = (r, c')" by fastforce
  show ?case
  proof (cases r)
    case None
    with nxt show ?thesis by (auto intro: drains.intros)
  next
    case (Some i)
    note i = next_Some [OF assms nxt [unfolded Some]]
    have "{j \<in> elems s. unat c' \<le> j} \<subset> {j \<in> elems s. unat c \<le> j}"
    proof
      show "{j \<in> elems s. unat c' \<le> j} \<subseteq> {j \<in> elems s. unat c \<le> j}" using i by auto
      have "unat i \<in> {j \<in> elems s. unat c \<le> j} - {j \<in> elems s. unat c' \<le> j}" using i by simp
      then show "{j \<in> elems s. unat c' \<le> j} \<noteq> {j \<in> elems s. unat c \<le> j}" by blast
    qed
    then have "card {j \<in> elems s. unat c' \<le> j} < card {j \<in> elems s. unat c \<le> j}"
      using finite_elems [OF assms] by (simp add: psubset_card_mono)
    from less.hyps [OF this] obtain xs where "drains s c' xs" by blast
    with nxt Some show ?thesis by (auto intro: drains.intros)
  qed
qed

end

end
