(* ===== verification/Type_Set.thy ===== *)
theory Type_Set
  imports Id_Set "HOL-Library.While_Combinator"
begin

text \<open>
  \<^verbatim>\<open>src/type_set.c\<close>: a set of BTF type ids as an array of 64-bit words. The model keeps
  the array, the sizes and the counter of the struct; \<open>None\<close> is the NULL pointer in
  \<open>ts_words\<close>. The abstraction \<open>ts_elems\<close> is the set of ids whose bit is set, \<open>ts_invar\<close> the
  invariant of an initialised set. The theory ends with the interpretation of the set
  interface of \<open>Id_Set\<close>.
\<close>

subsection \<open>The code\<close>

record mch_type_set =
  ts_words :: "u64 list option"
  ts_count :: size_t
  ts_word_count :: size_t
  ts_selected :: size_t

definition word_count_for_bits :: "size_t \<Rightarrow> size_t" where
  "word_count_for_bits n = (if n = 0 then 1 else (n + 63) div 64)"

definition mch_type_set_init :: "size_t \<Rightarrow> heap \<Rightarrow> int \<times> mch_type_set \<times> heap" where
  "mch_type_set_init n h =
     (let wc = word_count_for_bits n; (ws, h') = heap_calloc wc 8 0 h
      in case ws of
           None \<Rightarrow> (-1, \<lparr>ts_words = None, ts_count = 0, ts_word_count = 0, ts_selected = 0\<rparr>, h')
         | Some w \<Rightarrow> (0, \<lparr>ts_words = Some w, ts_count = n, ts_word_count = wc, ts_selected = 0\<rparr>, h'))"

definition mch_type_set_destroy :: "mch_type_set \<Rightarrow> mch_type_set" where
  "mch_type_set_destroy s =
     s\<lparr>ts_words := None, ts_count := 0, ts_word_count := 0, ts_selected := 0\<rparr>"

definition mch_type_set_contains :: "mch_type_set \<Rightarrow> size_t \<Rightarrow> bool" where
  "mch_type_set_contains s i =
     (if i \<ge> ts_count s then False
      else (the (ts_words s) ! unat (drop_bit 6 i)) AND bit_mask (i AND 63) \<noteq> 0)"

definition mch_type_set_add :: "mch_type_set \<Rightarrow> size_t \<Rightarrow> bool \<times> mch_type_set" where
  "mch_type_set_add s i =
     (if i \<ge> ts_count s then (False, s)
      else let ws = the (ts_words s); wd = unat (drop_bit 6 i); m = bit_mask (i AND 63)
           in if (ws ! wd) AND m \<noteq> 0 then (False, s)
              else (True, s\<lparr>ts_words := Some (ws[wd := (ws ! wd) OR m]),
                            ts_selected := ts_selected s + 1\<rparr>))"

text \<open>
  The portable branch of \<^verbatim>\<open>bit_index\<close>; like \<^verbatim>\<open>__builtin_ctzll\<close> it is only called
  on a word with a bit set.
\<close>

definition bit_index :: "u64 \<Rightarrow> size_t" where
  "bit_index w = snd (while (\<lambda>(w, b). w AND 1 = 0) (\<lambda>(w, b). (drop_bit 1 w, b + 1)) (w, 0))"

text \<open>The \<^verbatim>\<open>while\<close> loop of \<^verbatim>\<open>mch_type_set_next\<close>, from word \<open>wi\<close> with contents \<open>w\<close>.\<close>

function type_set_next_loop ::
    "mch_type_set \<Rightarrow> size_t \<Rightarrow> size_t \<Rightarrow> u64 \<Rightarrow> size_t option \<times> size_t" where
  "type_set_next_loop s cursor wi w =
     (if wi < ts_word_count s then
        if w \<noteq> 0 then
          (let found = wi * 64 + bit_index w
           in if found \<ge> ts_count s then (None, cursor) else (Some found, found + 1))
        else if wi + 1 \<ge> ts_word_count s then (None, ts_count s)
        else type_set_next_loop s cursor (wi + 1) (the (ts_words s) ! unat (wi + 1))
      else (None, ts_count s))"
  by pat_completeness auto
termination
  by (relation "measure (\<lambda>(s, c, wi, w). unat (ts_word_count s) - unat wi)")
    (auto simp: unat_increment word_less_nat_alt intro!: diff_less_mono2)

definition mch_type_set_next :: "mch_type_set \<Rightarrow> size_t \<Rightarrow> size_t option \<times> size_t" where
  "mch_type_set_next s cursor =
     (if ts_words s = None \<or> cursor \<ge> ts_count s then (None, cursor)
      else let wi = drop_bit 6 cursor; off = unat (cursor AND 63)
           in type_set_next_loop s cursor wi
                ((the (ts_words s) ! unat wi) AND push_bit off (NOT 0)))"

declare type_set_next_loop.simps [simp del]

subsection \<open>Abstraction and invariant\<close>

definition word_bits :: "u64 list \<Rightarrow> nat set" where
  "word_bits ws = {n. n < 64 * length ws \<and> bit (ws ! (n div 64)) (n mod 64)}"

definition ts_elems :: "mch_type_set \<Rightarrow> nat set" where
  "ts_elems s = {n \<in> word_bits (the (ts_words s)). n < unat (ts_count s)}"

definition ts_invar :: "mch_type_set \<Rightarrow> bool" where
  "ts_invar s \<longleftrightarrow> ts_words s \<noteq> None
     \<and> length (the (ts_words s)) = unat (ts_word_count s)
     \<and> unat (ts_count s) \<le> 64 * unat (ts_word_count s)
     \<and> 64 * unat (ts_word_count s) < 2 ^ 64
     \<and> unat (ts_selected s) = card (ts_elems s)"

lemma word_bits_update:
  assumes "n < 64 * length ws" and k: "unat k = n mod 64"
  shows "word_bits (ws[n div 64 := (ws ! (n div 64)) OR bit_mask k]) = insert n (word_bits ws)"
proof -
  have len: "n div 64 < length ws" using assms(1) by (simp add: less_mult_imp_div_less)
  have k64: "unat k < 64" using k by simp
  have "bit (ws[n div 64 := (ws ! (n div 64)) OR bit_mask k] ! (m div 64)) (m mod 64)
      \<longleftrightarrow> bit (ws ! (m div 64)) (m mod 64) \<or> m = n" for m
  proof (cases "m div 64 = n div 64")
    case True
    then have "m mod 64 = n mod 64 \<longleftrightarrow> m = n" by (metis div_mult_mod_eq)
    with True len show ?thesis by (simp add: bit_or_bit_mask [OF k64] k)
  next
    case False
    then show ?thesis by auto
  qed
  then show ?thesis using assms(1) by (auto simp only: word_bits_def length_list_update)
qed

lemma word_count_for_bits_exact:
  assumes "unat n \<le> 2 ^ 64 - 64"
  shows "unat (word_count_for_bits n) = (if n = 0 then 1 else (unat n + 63) div 64)"
proof -
  have "unat n + unat (63 :: size_t) < 2 ^ 64" using assms by simp
  then have "unat (n + 63) = unat n + 63" using unat_add_small [of n 63] by simp
  then show ?thesis by (simp add: word_count_for_bits_def unat_div)
qed


subsection \<open>Initialisation, membership and insertion\<close>

lemma ts_elems_subset: "ts_elems s \<subseteq> {..< unat (ts_count s)}"
  by (auto simp: ts_elems_def)

lemma card_ts_elems: "card (ts_elems s) \<le> unat (ts_count s)"
  using card_mono [OF _ ts_elems_subset] by fastforce

lemma word_bits_zeros [simp]: "word_bits (replicate n 0) = {}"
  by (auto simp: word_bits_def less_mult_imp_div_less)

lemma mch_type_set_init_ok:
  assumes "unat n \<le> 2 ^ 64 - 64" and "mch_type_set_init n h = (0, s, h')"
  shows "ts_invar s" "ts_elems s = {}" "ts_count s = n"
proof -
  have wc: "unat (word_count_for_bits n) = (if n = 0 then 1 else (unat n + 63) div 64)"
    using assms(1) by (rule word_count_for_bits_exact)
  have "unat n \<le> 64 * unat (word_count_for_bits n)"
    and "64 * unat (word_count_for_bits n) < 2 ^ 64"
    using assms(1) by (auto simp: wc)
  then show "ts_invar s" "ts_elems s = {}" "ts_count s = n"
    using assms(2)
    by (auto simp: mch_type_set_init_def heap_calloc_def ts_invar_def ts_elems_def Let_def
        split: if_splits)
qed

lemma in_word_bits:
  assumes "ts_invar s" and "i < ts_count s"
  shows "unat i < 64 * length (the (ts_words s))"
  using assms by (auto simp: ts_invar_def word_less_nat_alt)

lemma stored_bit_iff:
  assumes "ts_invar s" and "i < ts_count s"
  shows "(the (ts_words s) ! unat (drop_bit 6 i)) AND bit_mask (i AND 63) \<noteq> 0
    \<longleftrightarrow> unat i \<in> ts_elems s"
  using assms in_word_bits [OF assms]
  by (simp add: and_bit_mask_iff word_nat ts_elems_def word_bits_def word_less_nat_alt)

lemma mch_type_set_contains_iff:
  assumes "ts_invar s"
  shows "mch_type_set_contains s i \<longleftrightarrow> unat i \<in> ts_elems s"
proof (cases "i \<ge> ts_count s")
  case True
  then show ?thesis
    using ts_elems_subset by (fastforce simp: mch_type_set_contains_def word_le_nat_alt)
next
  case False
  then show ?thesis
    using stored_bit_iff [OF assms, of i] by (simp add: mch_type_set_contains_def)
qed

lemma mch_type_set_add_fst:
  assumes "ts_invar s"
  shows "fst (mch_type_set_add s i) \<longleftrightarrow> unat i < unat (ts_count s) \<and> unat i \<notin> ts_elems s"
proof (cases "i < ts_count s")
  case True
  then show ?thesis
    using stored_bit_iff [OF assms True] leD [of "ts_count s" i]
    by (auto simp add: mch_type_set_add_def Let_def word_less_nat_alt [symmetric])
next
  case False
  then have "ts_count s \<le> i" by simp
  with False show ?thesis by (simp add: mch_type_set_add_def word_less_nat_alt [symmetric])
qed

lemma mch_type_set_add_stale: "\<not> fst (mch_type_set_add s i) \<Longrightarrow> snd (mch_type_set_add s i) = s"
  by (auto simp: mch_type_set_add_def Let_def)

lemma mch_type_set_add_count [simp]: "ts_count (snd (mch_type_set_add s i)) = ts_count s"
  by (simp add: mch_type_set_add_def Let_def)

lemma mch_type_set_add_elems:
  assumes "ts_invar s"
  shows "ts_elems (snd (mch_type_set_add s i))
    = (if unat i < unat (ts_count s) then insert (unat i) (ts_elems s) else ts_elems s)"
proof (cases "fst (mch_type_set_add s i)")
  case True
  then have fresh: "unat i < unat (ts_count s)" "unat i \<notin> ts_elems s"
    using assms by (auto simp: mch_type_set_add_fst)
  then have "ts_elems (snd (mch_type_set_add s i))
      = {n \<in> word_bits ((the (ts_words s))[unat i div 64 :=
          (the (ts_words s) ! (unat i div 64)) OR bit_mask (i AND 63)]). n < unat (ts_count s)}"
    using True by (auto simp: mch_type_set_add_def ts_elems_def Let_def word_nat split: if_splits)
  also have "\<dots> = {n \<in> insert (unat i) (word_bits (the (ts_words s))). n < unat (ts_count s)}"
    using in_word_bits [OF assms, of i] fresh(1)
    by (subst word_bits_update) (auto simp: word_nat word_less_nat_alt)
  finally show ?thesis using fresh(1) by (auto simp: ts_elems_def)
next
  case False
  then have "snd (mch_type_set_add s i) = s" by (rule mch_type_set_add_stale)
  then show ?thesis using False assms by (auto simp: mch_type_set_add_fst)
qed

lemma mch_type_set_add_invar [invar_intros]:
  assumes "ts_invar s"
  shows "ts_invar (snd (mch_type_set_add s i))"
proof (cases "fst (mch_type_set_add s i)")
  case True
  let ?s = "snd (mch_type_set_add s i)"
  have fresh: "unat i < unat (ts_count s)" "unat i \<notin> ts_elems s"
    using assms True by (auto simp: mch_type_set_add_fst)
  have fin: "finite (ts_elems s)" using ts_elems_subset finite_subset by blast
  have elems: "ts_elems ?s = insert (unat i) (ts_elems s)"
    using mch_type_set_add_elems [OF assms] fresh by simp
  have "card (ts_elems ?s) \<le> unat (ts_count s)" using card_ts_elems [of ?s] by simp
  then have "Suc (card (ts_elems s)) \<le> unat (ts_count s)" using elems fresh fin by simp
  then have "ts_selected s < ts_count s" using assms by (simp add: ts_invar_def word_less_nat_alt)
  then have "unat (ts_selected s + 1) = card (ts_elems ?s)"
    using assms elems fresh fin by (simp add: unat_increment ts_invar_def)
  then show ?thesis
    using assms True by (auto simp: mch_type_set_add_def ts_invar_def Let_def split: if_splits)
next
  case False
  with assms show ?thesis by (simp add: mch_type_set_add_stale)
qed


subsection \<open>The cursor\<close>

lemma unat_drop_bit_1_less: "(w :: u64) \<noteq> 0 \<Longrightarrow> unat (drop_bit 1 w) < unat w"
  by (simp add: drop_bit_eq_div unat_div unat_gt_0)

lemma and_1_eq_0_iff: "(w :: u64) AND 1 = 0 \<longleftrightarrow> \<not> bit w 0"
  by (simp add: and_one_eq bit_0 mod_2_eq_odd)

lemma bit_index_least:
  assumes "w \<noteq> 0"
  shows "bit w (unat (bit_index w)) \<and> (\<forall>j < unat (bit_index w). \<not> bit w j)"
proof -
  let ?P = "\<lambda>(v, b :: size_t). v = drop_bit (unat b) w \<and> v \<noteq> 0 \<and> (\<forall>j < unat b. \<not> bit w j)"
  let ?Q = "\<lambda>(v, b). bit w (unat (b :: size_t)) \<and> (\<forall>j < unat b. \<not> bit w j)"
  have step: "?P (drop_bit 1 v, b + 1)" if "?P (v, b)" and "v AND 1 = 0" for v and b :: size_t
  proof -
    from that have v: "v = drop_bit (unat b) w" "v \<noteq> 0" and low: "\<forall>j < unat b. \<not> bit w j"
      and clear: "\<not> bit w (unat b)"
      by (auto simp: and_1_eq_0_iff bit_drop_bit_eq)
    from v obtain n where "bit v n" by (auto simp: bit_eq_iff)
    with v have "bit w (unat b + n)" by (simp add: bit_drop_bit_eq)
    then have "unat b < 64" by (auto dest: bit_u64_less)
    then have b: "unat (b + 1) = Suc (unat b)"
      using unat_increment [of b "64 :: size_t"] by (simp add: word_less_nat_alt)
    from \<open>bit v n\<close> v clear have "n \<noteq> 0" by (auto simp: bit_drop_bit_eq intro: Nat.gr0I)
    with \<open>bit v n\<close> have "bit (drop_bit 1 v) (n - 1)" by (simp add: bit_drop_bit_eq)
    then have "drop_bit 1 v \<noteq> 0" by auto
    with v low clear b show ?thesis by (auto simp: less_Suc_eq)
  qed
  have "?Q (while (\<lambda>(v, b). v AND 1 = 0) (\<lambda>(v, b). (drop_bit 1 v, b + 1)) (w, 0))"
  proof (rule while_rule [where P = ?P and r = "measure (\<lambda>(v, b). unat v)"])
    show "?P (w, 0)" using assms by simp
    show "?P (case s of (v, b) \<Rightarrow> (drop_bit 1 v, b + 1))"
      if "?P s" and "case s of (v, b) \<Rightarrow> v AND 1 = 0" for s
      using step [of "fst s" "snd s"] that by (cases s) auto
    show "?Q s" if "?P s" and "\<not> (case s of (v, b) \<Rightarrow> v AND 1 = 0)" for s
      using that by (cases s) (auto simp: and_1_eq_0_iff bit_drop_bit_eq)
    show "((case s of (v, b) \<Rightarrow> (drop_bit 1 v, b + 1)), s) \<in> measure (\<lambda>(v, b). unat v)"
      if "?P s" and "case s of (v, b) \<Rightarrow> v AND 1 = 0" for s
      using that unat_drop_bit_1_less [of "fst s"] by (cases s) auto
  qed simp
  then show ?thesis by (simp add: bit_index_def case_prod_unfold)
qed

lemma bit_index_less_64: "w \<noteq> 0 \<Longrightarrow> unat (bit_index w) < 64"
  using bit_index_least by (blast dest: bit_u64_less)


text \<open>
  The loop, entered at word \<open>wi\<close> whose contents \<open>w\<close> are the bits of that word from
  offset \<open>k\<close> on, finds the least set bit at or above \<open>64 * wi + k\<close>.
\<close>

lemma word_bits_div_mod: "n \<in> word_bits ws \<longleftrightarrow> n < 64 * length ws \<and> bit (ws ! (n div 64)) (n mod 64)"
  by (simp add: word_bits_def)

lemma type_set_next_loop_spec:
  assumes "ts_invar s" and "wi < ts_word_count s" and "k \<le> 64"
    and "\<forall>n < 64. bit w n \<longleftrightarrow> k \<le> n \<and> bit (the (ts_words s) ! unat wi) n"
  shows "case type_set_next_loop s c wi w of
      (Some i, c') \<Rightarrow> unat i \<in> ts_elems s \<and> 64 * unat wi + k \<le> unat i
        \<and> unat c' = Suc (unat i)
        \<and> (\<forall>j. 64 * unat wi + k \<le> j \<and> j < unat i \<longrightarrow> j \<notin> ts_elems s)
    | (None, _) \<Rightarrow> \<forall>j \<in> ts_elems s. j < 64 * unat wi + k"
  using assms
proof (induction s c wi w arbitrary: k rule: type_set_next_loop.induct)
  case (1 s c wi w)
  let ?ws = "the (ts_words s)"
  have len: "length ?ws = unat (ts_word_count s)" and big: "64 * unat (ts_word_count s) < 2 ^ 64"
    and wi: "unat wi < unat (ts_word_count s)"
    using "1.prems" by (auto simp: ts_invar_def word_less_nat_alt)
  show ?case
  proof (cases "w = 0")
    case False
    let ?b = "unat (bit_index w)"
    let ?found = "wi * 64 + bit_index w"
    have b: "?b < 64" "bit w ?b" "\<forall>j < ?b. \<not> bit w j"
      using bit_index_least [OF False] bit_index_less_64 [OF False] by auto
    with "1.prems"(4) have "k \<le> ?b" and stored: "bit (?ws ! unat wi) ?b" by auto
    have below: "j \<notin> word_bits ?ws" if "64 * unat wi + k \<le> j" "j < 64 * unat wi + ?b" for j
    proof -
      from that b(1) have j: "j div 64 = unat wi" by (intro div_nat_eqI) auto
      then have "j mod 64 = j - 64 * unat wi" by (simp add: modulo_nat_def mult.commute)
      moreover have "\<not> bit w (j - 64 * unat wi)" using b(3) that by simp
      moreover have "j - 64 * unat wi < 64" "k \<le> j - 64 * unat wi" using that b(1) by auto
      ultimately show ?thesis using "1.prems"(4) j by (auto simp: word_bits_div_mod)
    qed
    have mult: "unat (wi * 64) = unat wi * 64"
      using wi big unat_mult_small [of wi 64] by simp
    have found: "unat ?found = 64 * unat wi + ?b"
      using wi big b(1) mult by (subst unat_add_small) auto
    show ?thesis
    proof (cases "?found \<ge> ts_count s")
      case True
      have "\<forall>j \<in> ts_elems s. j < 64 * unat wi + k"
      proof
        fix j assume "j \<in> ts_elems s"
        then have "j \<in> word_bits ?ws" "j < unat ?found"
          using True by (auto simp: ts_elems_def word_le_nat_alt)
        with below [of j] found show "j < 64 * unat wi + k" by (metis not_le)
      qed
      with True False "1.prems"(2) show ?thesis by (simp add: type_set_next_loop.simps Let_def)
    next
      case in_range: False
      then have "unat ?found < unat (ts_count s)" by (simp add: word_le_nat_alt)
      moreover have "unat ?found \<in> word_bits ?ws"
        using stored b(1) wi len by (auto simp: found word_bits_div_mod)
      ultimately have "unat ?found \<in> ts_elems s" by (simp add: ts_elems_def)
      moreover have "unat (?found + 1) = Suc (unat ?found)"
        using in_range unat_increment [of ?found "ts_count s"] by (simp add: not_le)
      ultimately show ?thesis
        using in_range False "1.prems"(2) below found \<open>k \<le> ?b\<close>
        by (simp add: type_set_next_loop.simps Let_def) (auto simp: ts_elems_def)
    qed
  next
    case True
    have none: "j \<notin> word_bits ?ws" if "64 * unat wi + k \<le> j" "j < 64 * (unat wi + 1)" for j
    proof -
      from that have j: "j div 64 = unat wi" by (intro div_nat_eqI) auto
      then have "j mod 64 = j - 64 * unat wi" by (simp add: modulo_nat_def mult.commute)
      with j that True "1.prems"(4) show ?thesis by (auto simp: word_bits_div_mod)
    qed
    have suc: "unat (wi + 1) = Suc (unat wi)"
      using "1.prems"(2) by (rule unat_increment)
    show ?thesis
    proof (cases "wi + 1 \<ge> ts_word_count s")
      case end_: True
      then have "length ?ws = unat wi + 1" using suc wi len by (simp add: word_le_nat_alt)
      then have "\<forall>j \<in> ts_elems s. j < 64 * unat wi + k"
        using none by (auto simp: ts_elems_def word_bits_div_mod) (meson not_le)
      with True end_ "1.prems"(2) show ?thesis by (simp add: type_set_next_loop.simps)
    next
      case False
      have "type_set_next_loop s c wi w
          = type_set_next_loop s c (wi + 1) (?ws ! unat (wi + 1))"
        using True False "1.prems"(2) by (simp add: type_set_next_loop.simps [of s c wi])
      moreover note "1.IH" [of 0]
      ultimately show ?thesis
        using "1.prems" True False none suc
        by (force simp: not_le ts_elems_def split: prod.splits option.splits)
    qed
  qed
qed


lemma mch_type_set_next_spec:
  assumes "ts_invar s"
  shows "case mch_type_set_next s c of
      (Some i, c') \<Rightarrow> unat i \<in> ts_elems s \<and> unat c \<le> unat i \<and> unat c' = Suc (unat i)
        \<and> (\<forall>j. unat c \<le> j \<and> j < unat i \<longrightarrow> j \<notin> ts_elems s)
    | (None, _) \<Rightarrow> \<forall>j \<in> ts_elems s. j < unat c"
proof (cases "c < ts_count s")
  case False
  then have "ts_count s \<le> c" by simp
  then show ?thesis
    using ts_elems_subset [of s] by (fastforce simp: mch_type_set_next_def word_le_nat_alt)
next
  case True
  let ?wi = "drop_bit 6 c" and ?k = "unat (c AND 63)"
  have pos: "64 * unat ?wi + ?k = unat c" and k: "?k < 64" by (simp_all add: word_nat)
  have "unat ?wi < unat (ts_word_count s)"
    using True assms by (auto simp: ts_invar_def word_less_nat_alt word_nat less_mult_imp_div_less)
  then have wi: "?wi < ts_word_count s" by (simp add: word_less_nat_alt)
  have bits: "\<forall>n < 64. bit ((the (ts_words s) ! unat ?wi) AND push_bit ?k (NOT 0)) n
      \<longleftrightarrow> ?k \<le> n \<and> bit (the (ts_words s) ! unat ?wi) n"
    by (auto simp: bit_simps)
  have "ts_words s \<noteq> None" using assms by (simp add: ts_invar_def)
  moreover have "\<not> ts_count s \<le> c" using True by simp
  ultimately have "mch_type_set_next s c = type_set_next_loop s c ?wi
      ((the (ts_words s) ! unat ?wi) AND push_bit ?k (NOT 0))"
    by (simp only: mch_type_set_next_def Let_def if_False simp_thms)
  then show ?thesis
    using type_set_next_loop_spec [OF assms wi less_imp_le [OF k] bits, of c]
    by (simp only: pos)
qed

interpretation ts: id_set_cursor mch_type_set_contains mch_type_set_add ts_elems
  "\<lambda>s. unat (ts_count s)" ts_invar mch_type_set_next
proof
  fix s i c c'
  assume s: "ts_invar s"
  show "ts_elems s \<subseteq> {..< unat (ts_count s)}" by (rule ts_elems_subset)
  show "mch_type_set_contains s i \<longleftrightarrow> unat i \<in> ts_elems s"
    using s by (rule mch_type_set_contains_iff)
  show "ts_invar (snd (mch_type_set_add s i))" using s by (rule mch_type_set_add_invar)
  show "ts_elems (snd (mch_type_set_add s i))
      = (if unat i < unat (ts_count s) then insert (unat i) (ts_elems s) else ts_elems s)"
    using s by (rule mch_type_set_add_elems)
  show "fst (mch_type_set_add s i) \<longleftrightarrow> unat i < unat (ts_count s) \<and> unat i \<notin> ts_elems s"
    using s by (rule mch_type_set_add_fst)
  show "unat i \<in> ts_elems s \<and> unat c \<le> unat i \<and> unat c' = Suc (unat i)
      \<and> (\<forall>j. unat c \<le> j \<and> j < unat i \<longrightarrow> j \<notin> ts_elems s)"
    if "mch_type_set_next s c = (Some i, c')"
    using mch_type_set_next_spec [OF s, of c] that by simp
  show "\<forall>j \<in> ts_elems s. j < unat c" if "mch_type_set_next s c = (None, c')"
    using mch_type_set_next_spec [OF s, of c] that by simp
qed simp

end
