(* ===== verification/Error.thy ===== *)
theory Error
  imports Prelude
begin

text \<open>
  \<^verbatim>\<open>src/error.c\<close>: the diagnostics record with its five fixed-size buffers. A setter formats
  into a buffer with \<^verbatim>\<open>vsnprintf\<close>, which keeps the part that fits; the formatted text is
  the setter's argument. A fallible operation of the development returns the record on the left of a sum.
\<close>

record mch_error =
  message :: string
  context_of :: string
  file_of :: string
  detail_of :: string
  hint :: string

text \<open>\<^verbatim>\<open>snprintf (buf, size, ...)\<close>: what the buffer holds afterwards.\<close>

definition c_snprintf :: "nat \<Rightarrow> string \<Rightarrow> string" where
  "c_snprintf n s = take (n - 1) s"

definition mch_error_clear :: mch_error where
  "mch_error_clear =
     \<lparr>message = [], context_of = [], file_of = [], detail_of = [], hint = []\<rparr>"

definition mch_error_set :: "string \<Rightarrow> mch_error \<Rightarrow> mch_error" where
  "mch_error_set s err = err\<lparr>message := c_snprintf 256 s\<rparr>"

definition mch_error_set_context :: "string \<Rightarrow> mch_error \<Rightarrow> mch_error" where
  "mch_error_set_context s err = err\<lparr>context_of := c_snprintf 512 s\<rparr>"

definition mch_error_set_file :: "string option \<Rightarrow> mch_error \<Rightarrow> mch_error" where
  "mch_error_set_file f err =
     (case f of None \<Rightarrow> err | Some s \<Rightarrow> err\<lparr>file_of := c_snprintf 512 s\<rparr>)"

definition mch_error_set_detail :: "string \<Rightarrow> mch_error \<Rightarrow> mch_error" where
  "mch_error_set_detail s err = err\<lparr>detail_of := c_snprintf 512 s\<rparr>"

definition mch_error_set_hint :: "string option \<Rightarrow> mch_error \<Rightarrow> mch_error" where
  "mch_error_set_hint h err =
     (case h of None \<Rightarrow> err | Some s \<Rightarrow> err\<lparr>hint := c_snprintf 256 s\<rparr>)"

definition newline :: string where
  "newline = [CHR 0x0A]"

text \<open>The text \<^verbatim>\<open>mch_error_print\<close> writes.\<close>

definition mch_error_print :: "mch_error \<Rightarrow> string" where
  "mch_error_print err =
     (if message err = [] then []
      else ''error: '' @ message err @ newline
        @ (if context_of err \<noteq> [] then ''in:    '' @ context_of err @ newline else [])
        @ (if file_of err \<noteq> [] then ''file:  '' @ file_of err @ newline else [])
        @ (if detail_of err \<noteq> [] then ''detail: '' @ detail_of err @ newline else [])
        @ (if hint err \<noteq> [] then ''hint:  '' @ hint err @ newline else []))"

subsection \<open>The buffers never overflow\<close>

definition error_invar :: "mch_error \<Rightarrow> bool" where
  "error_invar err \<longleftrightarrow> length (message err) < 256 \<and> length (context_of err) < 512
     \<and> length (file_of err) < 512 \<and> length (detail_of err) < 512 \<and> length (hint err) < 256"

lemma length_c_snprintf: "0 < n \<Longrightarrow> length (c_snprintf n s) < n"
  by (simp add: c_snprintf_def)

lemma c_snprintf_fits [simp]: "length s < n \<Longrightarrow> c_snprintf n s = s"
  by (simp add: c_snprintf_def)

lemma error_setters_invar [invar_intros]:
  "error_invar mch_error_clear"
  "error_invar err \<Longrightarrow> error_invar (mch_error_set s err)"
  "error_invar err \<Longrightarrow> error_invar (mch_error_set_context s err)"
  "error_invar err \<Longrightarrow> error_invar (mch_error_set_file f err)"
  "error_invar err \<Longrightarrow> error_invar (mch_error_set_detail s err)"
  "error_invar err \<Longrightarrow> error_invar (mch_error_set_hint h err)"
  by (auto simp: error_invar_def mch_error_clear_def mch_error_set_def mch_error_set_context_def
      mch_error_set_file_def mch_error_set_detail_def mch_error_set_hint_def length_c_snprintf
      split: option.splits)

lemma message_after_setters [simp]:
  "message (mch_error_set s err) = c_snprintf 256 s"
  "message (mch_error_set_context s err) = message err"
  "message (mch_error_set_file f err) = message err"
  "message (mch_error_set_detail s err) = message err"
  "message (mch_error_set_hint h err) = message err"
  by (simp_all add: mch_error_set_def mch_error_set_context_def mch_error_set_file_def
      mch_error_set_detail_def mch_error_set_hint_def split: option.splits)

lemma mch_error_print_Nil_iff: "mch_error_print err = [] \<longleftrightarrow> message err = []"
  by (simp add: mch_error_print_def)


subsection \<open>Results\<close>

text \<open>
  The result of an operation that may fail: \<open>Inl\<close> the diagnostics or \<open>Inr\<close> the value. Where a
  loop follows links that only an invariant keeps from forming a cycle, the result is an option,
  and \<open>None\<close> says that the operation does not return.
\<close>

type_synonym 'a result = "mch_error + 'a"
type_synonym 'a outcome = "'a result option"

definition bind_result :: "'a result \<Rightarrow> ('a \<Rightarrow> 'b result) \<Rightarrow> 'b result" where
  "bind_result m f = (case m of Inl e \<Rightarrow> Inl e | Inr x \<Rightarrow> f x)"

definition bind_outcome :: "'a outcome \<Rightarrow> ('a \<Rightarrow> 'b outcome) \<Rightarrow> 'b outcome" where
  "bind_outcome m f = Option.bind m (\<lambda>r. case r of Inl e \<Rightarrow> Some (Inl e) | Inr x \<Rightarrow> f x)"

lemma bind_result_simps [simp]:
  "bind_result (Inl e) f = Inl e" "bind_result (Inr x) f = f x"
  by (simp_all add: bind_result_def)

lemma bind_outcome_simps [simp]:
  "bind_outcome None f = None" "bind_outcome (Some (Inl e)) f = Some (Inl e)"
  "bind_outcome (Some (Inr x)) f = f x"
  by (simp_all add: bind_outcome_def)

lemma bind_result_Inr: "bind_result m f = Inr y \<longleftrightarrow> (\<exists>x. m = Inr x \<and> f x = Inr y)"
  by (cases m) auto

lemma bind_outcome_Inr:
  "bind_outcome m f = Some (Inr y) \<longleftrightarrow> (\<exists>x. m = Some (Inr x) \<and> f x = Some (Inr y))"
  by (cases m) (auto simp: bind_outcome_def split: sum.splits)

lemma bind_outcome_mono [partial_function_mono]:
  assumes "mono_option B" and "\<And>x. mono_option (\<lambda>f. C x f)"
  shows "mono_option (\<lambda>f. bind_outcome (B f) (\<lambda>x. C x f))"
proof -
  have "mono_option (\<lambda>f. case r of Inl e \<Rightarrow> Some (Inl e) | Inr x \<Rightarrow> C x f)" for r
    using assms(2) by (cases r) (auto intro: partial_function_mono)
  with assms(1) show ?thesis
    unfolding bind_outcome_def by (intro bind_mono)
qed

end
