(* ===== verification/Btf.thy ===== *)
theory Btf
  imports Error
begin

text \<open>
  What the program reads of BTF, and \<^verbatim>\<open>src/btf_loader.c\<close>. libbpf and the UAPI header
  \<^verbatim>\<open>linux/btf.h\<close> are not part of the repository: a \<open>btf\<close> value is a parameter of
  every definition that uses it and holds the answers of libbpf's accessors
  (\<^verbatim>\<open>btf__type_cnt\<close>, \<^verbatim>\<open>btf__type_by_id\<close>, \<^verbatim>\<open>btf__name_by_offset\<close>,
  \<^verbatim>\<open>btf__str_by_offset\<close>); a \<open>btf_type\<close> holds what the header's accessors
  (\<^verbatim>\<open>btf_kind\<close>, \<^verbatim>\<open>btf_vlen\<close>, \<^verbatim>\<open>btf_kflag\<close>, \<^verbatim>\<open>btf_members\<close> and its
  like) read from a type record. The trailing arrays are functions of the index, as the code
  reads them through a pointer. \<open>btf_complete\<close> is libbpf's documented behaviour that every id
  below the type count has a type.
\<close>

datatype btf_kind =
    BTF_KIND_UNKN | BTF_KIND_INT | BTF_KIND_PTR | BTF_KIND_ARRAY | BTF_KIND_STRUCT
  | BTF_KIND_UNION | BTF_KIND_ENUM | BTF_KIND_FWD | BTF_KIND_TYPEDEF | BTF_KIND_VOLATILE
  | BTF_KIND_CONST | BTF_KIND_RESTRICT | BTF_KIND_FUNC | BTF_KIND_FUNC_PROTO | BTF_KIND_VAR
  | BTF_KIND_DATASEC | BTF_KIND_FLOAT | BTF_KIND_DECL_TAG | BTF_KIND_TYPE_TAG | BTF_KIND_ENUM64
  | BTF_KIND_RESERVED

text \<open>
  The numbers of the kinds in the BTF format. The numbers from 20 on are reserved; the code treats
  them alike, so they are one constructor.
\<close>

fun kind_number :: "btf_kind \<Rightarrow> nat" where
  "kind_number BTF_KIND_UNKN = 0"
| "kind_number BTF_KIND_INT = 1"
| "kind_number BTF_KIND_PTR = 2"
| "kind_number BTF_KIND_ARRAY = 3"
| "kind_number BTF_KIND_STRUCT = 4"
| "kind_number BTF_KIND_UNION = 5"
| "kind_number BTF_KIND_ENUM = 6"
| "kind_number BTF_KIND_FWD = 7"
| "kind_number BTF_KIND_TYPEDEF = 8"
| "kind_number BTF_KIND_VOLATILE = 9"
| "kind_number BTF_KIND_CONST = 10"
| "kind_number BTF_KIND_RESTRICT = 11"
| "kind_number BTF_KIND_FUNC = 12"
| "kind_number BTF_KIND_FUNC_PROTO = 13"
| "kind_number BTF_KIND_VAR = 14"
| "kind_number BTF_KIND_DATASEC = 15"
| "kind_number BTF_KIND_FLOAT = 16"
| "kind_number BTF_KIND_DECL_TAG = 17"
| "kind_number BTF_KIND_TYPE_TAG = 18"
| "kind_number BTF_KIND_ENUM64 = 19"
| "kind_number BTF_KIND_RESERVED = 20"

lemma kind_number_inject: "kind_number k = kind_number l \<Longrightarrow> k = l"
  by (cases k; cases l) simp_all

instantiation btf_kind :: linorder
begin

definition less_eq_btf_kind :: "btf_kind \<Rightarrow> btf_kind \<Rightarrow> bool" where
  "less_eq_btf_kind k l \<longleftrightarrow> kind_number k \<le> kind_number l"

definition less_btf_kind :: "btf_kind \<Rightarrow> btf_kind \<Rightarrow> bool" where
  "less_btf_kind k l \<longleftrightarrow> kind_number k < kind_number l"

instance
  by standard (auto simp: less_eq_btf_kind_def less_btf_kind_def intro: kind_number_inject)

end

record btf_member =
  m_name_off :: u32
  m_type :: u32
  m_offset :: u32

record btf_param =
  p_name_off :: u32
  p_type :: u32

record btf_array =
  a_type :: u32
  a_index_type :: u32
  a_nelems :: u32

record btf_enum =
  e_name_off :: u32
  e_val :: u32

record btf_enum64 =
  e64_name_off :: u32
  e64_val_lo32 :: u32
  e64_val_hi32 :: u32

record btf_var_secinfo =
  s_type :: u32
  s_offset :: u32
  s_size :: u32

text \<open>\<open>size_or_type\<close> is the union of \<^verbatim>\<open>size\<close> and \<^verbatim>\<open>type\<close>.\<close>

record btf_type =
  name_off :: u32
  kind :: btf_kind
  vlen :: u16
  kflag :: bool
  size_or_type :: u32
  int_info :: u32
  array_of :: btf_array
  member :: "nat \<Rightarrow> btf_member"
  param :: "nat \<Rightarrow> btf_param"
  enum_value :: "nat \<Rightarrow> btf_enum"
  enum64_value :: "nat \<Rightarrow> btf_enum64"
  secinfo :: "nat \<Rightarrow> btf_var_secinfo"

record btf =
  type_cnt :: u32
  type_by_id :: "u32 \<Rightarrow> btf_type option"
  name_by_offset :: "u32 \<Rightarrow> string option"
  str_by_offset :: "u32 \<Rightarrow> string option"

abbreviation is_record_kind :: "btf_kind \<Rightarrow> bool" where
  "is_record_kind k \<equiv> k = BTF_KIND_STRUCT \<or> k = BTF_KIND_UNION"

abbreviation nvlen :: "btf_type \<Rightarrow> nat" where
  "nvlen t \<equiv> unat (vlen t)"

text \<open>The ids that a loop \<^verbatim>\<open>for (__u32 id = 1; id < btf__type_cnt (btf); id++)\<close> visits.\<close>

definition type_ids :: "btf \<Rightarrow> u32 list" where
  "type_ids b = map of_nat [1..<unat (type_cnt b)]"

definition btf_complete :: "btf \<Rightarrow> bool" where
  "btf_complete b \<longleftrightarrow> (\<forall>i < type_cnt b. type_by_id b i \<noteq> None)"

subsection \<open>Names\<close>

fun mch_btf_kind_name :: "btf_kind \<Rightarrow> string" where
  "mch_btf_kind_name BTF_KIND_UNKN = ''UNKNOWN''"
| "mch_btf_kind_name BTF_KIND_INT = ''INT''"
| "mch_btf_kind_name BTF_KIND_PTR = ''PTR''"
| "mch_btf_kind_name BTF_KIND_ARRAY = ''ARRAY''"
| "mch_btf_kind_name BTF_KIND_STRUCT = ''STRUCT''"
| "mch_btf_kind_name BTF_KIND_UNION = ''UNION''"
| "mch_btf_kind_name BTF_KIND_ENUM = ''ENUM''"
| "mch_btf_kind_name BTF_KIND_FWD = ''FWD''"
| "mch_btf_kind_name BTF_KIND_TYPEDEF = ''TYPEDEF''"
| "mch_btf_kind_name BTF_KIND_VOLATILE = ''VOLATILE''"
| "mch_btf_kind_name BTF_KIND_CONST = ''CONST''"
| "mch_btf_kind_name BTF_KIND_RESTRICT = ''RESTRICT''"
| "mch_btf_kind_name BTF_KIND_FUNC = ''FUNC''"
| "mch_btf_kind_name BTF_KIND_FUNC_PROTO = ''FUNC_PROTO''"
| "mch_btf_kind_name BTF_KIND_VAR = ''VAR''"
| "mch_btf_kind_name BTF_KIND_DATASEC = ''DATASEC''"
| "mch_btf_kind_name BTF_KIND_FLOAT = ''FLOAT''"
| "mch_btf_kind_name BTF_KIND_DECL_TAG = ''DECL_TAG''"
| "mch_btf_kind_name BTF_KIND_TYPE_TAG = ''TYPE_TAG''"
| "mch_btf_kind_name BTF_KIND_ENUM64 = ''ENUM64''"
| "mch_btf_kind_name _ = ''UNKNOWN''"

definition mch_btf_type_name :: "btf \<Rightarrow> btf_type \<Rightarrow> string" where
  "mch_btf_type_name b t =
     (if name_off t = 0 then []
      else case name_by_offset b (name_off t) of None \<Rightarrow> [] | Some s \<Rightarrow> s)"

text \<open>\<^verbatim>\<open>name != NULL && name[0] != 0\<close>\<close>

definition has_name :: "string option \<Rightarrow> bool" where
  "has_name name \<longleftrightarrow> name \<noteq> None \<and> name \<noteq> Some []"

subsection \<open>Loading\<close>

text \<open>
  \<open>parse path\<close> is what libbpf answers for a file: the BTF (or NULL), the code of
  \<^verbatim>\<open>libbpf_get_error\<close> and \<^verbatim>\<open>errno\<close>; for an object also the contents of its
  \<^verbatim>\<open>.BTF.ext\<close> section, of a type the parameter chooses.
\<close>

record 'e mch_btf_doc =
  doc_btf :: "btf option"
  doc_ext :: "'e option"
  doc_path :: "string option"

definition mch_btf_doc_init :: "'e mch_btf_doc" where
  "mch_btf_doc_init = \<lparr>doc_btf = None, doc_ext = None, doc_path = None\<rparr>"

definition mch_btf_doc_destroy :: "'e mch_btf_doc \<Rightarrow> 'e mch_btf_doc" where
  "mch_btf_doc_destroy doc = mch_btf_doc_init"

definition mch_load_base_btf ::
    "(string \<Rightarrow> btf option \<times> int \<times> int) \<Rightarrow> (int \<Rightarrow> string) \<Rightarrow> string \<Rightarrow> mch_error
      \<Rightarrow> mch_error + 'e mch_btf_doc" where
  "mch_load_base_btf parse strerror path err =
     (let (b, libbpf_err, errno) = parse path
      in if b = None \<or> libbpf_err \<noteq> 0 then
           (let error_code = (if libbpf_err \<noteq> 0 then - libbpf_err else errno);
                e1 = mch_error_set (''failed to parse base BTF: '' @ strerror error_code) err;
                e2 = mch_error_set_file (Some path) e1
            in Inl (mch_error_set_hint (Some ''verify that --btf points to a readable BTF file'') e2))
         else Inr (mch_btf_doc_init\<lparr>doc_btf := b, doc_path := Some path\<rparr>))"

definition mch_load_object_btf ::
    "(string \<Rightarrow> btf option \<times> 'e option \<times> int \<times> int) \<Rightarrow> (int \<Rightarrow> string) \<Rightarrow> string \<Rightarrow> mch_error
      \<Rightarrow> mch_error + 'e mch_btf_doc" where
  "mch_load_object_btf parse strerror path err =
     (let (b, ext, libbpf_err, errno) = parse path
      in if b = None \<or> libbpf_err \<noteq> 0 then
           (let error_code = (if libbpf_err \<noteq> 0 then - libbpf_err else errno);
                e1 = mch_error_set (''failed to parse object BTF: '' @ strerror error_code) err;
                e2 = mch_error_set_file (Some path) e1
            in Inl (mch_error_set_hint (Some ''compile BPF objects with clang -target bpf -g -O2'') e2))
         else Inr (mch_btf_doc_init\<lparr>doc_btf := b, doc_ext := ext, doc_path := Some path\<rparr>))"

subsection \<open>Facts on ids\<close>

lemma set_type_ids: "i \<in> set (type_ids b) \<longleftrightarrow> 0 < i \<and> i < type_cnt b"
proof
  assume "i \<in> set (type_ids b)"
  then obtain n where n: "1 \<le> n" "n < unat (type_cnt b)" "i = of_nat n"
    by (auto simp: type_ids_def)
  moreover have "unat i = n"
    using n unat_u32_less [of "type_cnt b"] by (simp add: unat_of_nat_small)
  ultimately show "0 < i \<and> i < type_cnt b" by (simp add: word_less_nat_alt)
next
  assume "0 < i \<and> i < type_cnt b"
  then have "unat i \<in> set [1..<unat (type_cnt b)]" by (auto simp: word_less_nat_alt)
  then show "i \<in> set (type_ids b)" by (force simp: type_ids_def)
qed

lemma distinct_type_ids: "distinct (type_ids b)"
proof -
  have "inj_on (of_nat :: nat \<Rightarrow> u32) {1..<unat (type_cnt b)}"
  proof (rule inj_onI)
    fix m n
    assume "m \<in> {1..<unat (type_cnt b)}" "n \<in> {1..<unat (type_cnt b)}"
      and eq: "(of_nat m :: u32) = of_nat n"
    then have "m < 2 ^ 32" "n < 2 ^ 32" using unat_u32_less [of "type_cnt b"] by auto
    then have "unat (of_nat m :: u32) = m" "unat (of_nat n :: u32) = n"
      by (simp_all add: unat_of_nat_small)
    with eq show "m = n" by metis
  qed
  then show ?thesis by (simp add: type_ids_def distinct_map)
qed

lemma length_type_ids: "length (type_ids b) = unat (type_cnt b) - 1"
  by (simp add: type_ids_def)

lemma btf_completeD: "btf_complete b \<Longrightarrow> i < type_cnt b \<Longrightarrow> \<exists>t. type_by_id b i = Some t"
  by (auto simp: btf_complete_def)

end
