(* ===== verification/Requirements.thy ===== *)
theory Requirements
  imports Type_Set Btf
begin

text \<open>
  \<^verbatim>\<open>src/requirements.c\<close>: the requirements derived from the objects (type roots and record
  members, kept as bit sets) and the list of traces that explains them. A requirements pointer
  may be NULL, so the operations take an option. The list \<open>req_traces\<close> holds the first
  \<^verbatim>\<open>trace_count\<close> slots of the array; the slots behind are never read.
  \<open>req_invar\<close> ties the bit sets, the counters and the traces together.
\<close>

subsection \<open>The code\<close>

datatype mch_requirement_source =
    MCH_REQUIREMENT_SOURCE_UNKNOWN
  | MCH_REQUIREMENT_SOURCE_OBJECT_BTF
  | MCH_REQUIREMENT_SOURCE_CORE_RELO

datatype mch_requirement_trace_kind =
    MCH_REQUIREMENT_TRACE_TYPE_ROOT
  | MCH_REQUIREMENT_TRACE_RECORD_MEMBER

record mch_requirement_origin =
  o_source :: mch_requirement_source
  o_object_path :: "string option"
  o_detail :: "string option"
  o_access :: "string option"
  o_location :: "string option"

record mch_requirement_stats =
  stat_type_roots :: size_t
  stat_record_members :: size_t
  stat_traces :: size_t

record mch_requirement_trace =
  trace_kind :: mch_requirement_trace_kind
  trace_source :: mch_requirement_source
  trace_type_id :: u32
  trace_member_index :: u32
  trace_object_path :: "string option"
  trace_detail :: "string option"
  trace_access :: "string option"
  trace_location :: "string option"

record mch_requirements =
  type_root_words :: "u64 list option"
  record_member_words :: "u64 list option list option"
  record_member_counts :: "size_t list option"
  req_traces :: "mch_requirement_trace list"
  type_count :: size_t
  type_root_words_count :: size_t
  trace_count :: size_t
  trace_capacity :: size_t
  type_roots :: size_t
  record_members :: size_t

definition bitset_contains :: "u64 list option \<Rightarrow> size_t \<Rightarrow> size_t \<Rightarrow> bool" where
  "bitset_contains ws n i =
     (if ws = None \<or> i \<ge> n then False
      else (the ws ! unat (drop_bit 6 i)) AND bit_mask (i AND 63) \<noteq> 0)"

definition bitset_add :: "u64 list option \<Rightarrow> size_t \<Rightarrow> size_t \<Rightarrow> bool \<times> u64 list option" where
  "bitset_add ws n i =
     (if ws = None \<or> i \<ge> n then (False, ws)
      else let wd = unat (drop_bit 6 i); m = bit_mask (i AND 63)
           in if (the ws ! wd) AND m \<noteq> 0 then (False, ws)
              else (True, Some ((the ws)[wd := (the ws ! wd) OR m])))"

definition dup_optional :: "string option \<Rightarrow> mch_error \<Rightarrow> heap \<Rightarrow> string option \<times> mch_error \<times> heap" where
  "dup_optional value err h =
     (if value = None \<or> value = Some [] then (None, err, h)
      else let (ok, h') = heap_alloc h
           in if ok then (value, err, h')
              else (None, mch_error_set ''out of memory while recording requirement trace'' err, h'))"

text \<open>The array of traces grows by doubling; a trace is 48 bytes.\<close>

definition ensure_trace_capacity ::
    "mch_requirements \<Rightarrow> mch_error \<Rightarrow> heap \<Rightarrow> (mch_requirements \<times> heap) result" where
  "ensure_trace_capacity r err h =
     (if trace_count r < trace_capacity r then Inr (r, h)
      else let next_capacity = (if trace_capacity r = 0 then 16 else trace_capacity r * 2)
           in if next_capacity < trace_capacity r \<or> next_capacity > 0xFFFFFFFFFFFFFFFF div 48
              then Inl (mch_error_set ''requirement trace list is too large'' err)
              else let (ok, h') = heap_alloc h
                   in if ok then Inr (r\<lparr>trace_capacity := next_capacity\<rparr>, h')
                      else Inl (mch_error_set ''out of memory while growing requirement trace list'' err))"

text \<open>One of the four copies of \<^verbatim>\<open>append_trace\<close>, with the test that follows it.\<close>

definition dup_field :: "string option \<Rightarrow> mch_error \<Rightarrow> heap \<Rightarrow> (string option \<times> heap) result" where
  "dup_field value err h =
     (let (copy, err', h') = dup_optional value err h
      in if value \<noteq> None \<and> value \<noteq> Some [] \<and> copy = None then Inl err' else Inr (copy, h'))"

text \<open>The trace that \<^verbatim>\<open>append_trace\<close> fills in before it stores it.\<close>

definition origin_trace ::
    "mch_requirement_trace_kind \<Rightarrow> size_t \<Rightarrow> size_t \<Rightarrow> mch_requirement_origin option \<Rightarrow> mch_error
      \<Rightarrow> heap \<Rightarrow> (mch_requirement_trace \<times> heap) result" where
  "origin_trace k type_id member_index origin err h =
     (let trace = \<lparr>trace_kind = k,
            trace_source = (case origin of None \<Rightarrow> MCH_REQUIREMENT_SOURCE_UNKNOWN
                              | Some og \<Rightarrow> o_source og),
            trace_type_id = ucast type_id, trace_member_index = ucast member_index,
            trace_object_path = None, trace_detail = None,
            trace_access = None, trace_location = None\<rparr>
      in case origin of
           None \<Rightarrow> Inr (trace, h)
         | Some og \<Rightarrow>
             bind_result (dup_field (o_object_path og) err h) (\<lambda>(path, h1).
             bind_result (dup_field (o_detail og) err h1) (\<lambda>(detail, h2).
             bind_result (dup_field (o_access og) err h2) (\<lambda>(access, h3).
             bind_result (dup_field (o_location og) err h3) (\<lambda>(location, h4).
               Inr (trace\<lparr>trace_object_path := path, trace_detail := detail,
                          trace_access := access, trace_location := location\<rparr>, h4))))))"

definition append_trace ::
    "mch_requirements \<Rightarrow> mch_requirement_trace_kind \<Rightarrow> size_t \<Rightarrow> size_t
      \<Rightarrow> mch_requirement_origin option \<Rightarrow> mch_error \<Rightarrow> heap \<Rightarrow> (mch_requirements \<times> heap) result" where
  "append_trace r k type_id member_index origin err h =
     (if type_id > 0xFFFFFFFF \<or> member_index > 0xFFFFFFFF
      then Inl (mch_error_set ''requirement trace references an unsupported type or member id'' err)
      else bind_result (origin_trace k type_id member_index origin err h) (\<lambda>(trace, h').
           bind_result (ensure_trace_capacity r err h') (\<lambda>(r', h'').
             Inr (r'\<lparr>req_traces := req_traces r' @ [trace],
                     trace_count := trace_count r' + 1\<rparr>, h''))))"

definition source_name :: "mch_requirement_source \<Rightarrow> string" where
  "source_name s =
     (case s of MCH_REQUIREMENT_SOURCE_OBJECT_BTF \<Rightarrow> ''object BTF''
      | MCH_REQUIREMENT_SOURCE_CORE_RELO \<Rightarrow> ''CO-RE relocation''
      | MCH_REQUIREMENT_SOURCE_UNKNOWN \<Rightarrow> ''unknown'')"

definition type_name_or_anonymous :: "btf \<Rightarrow> btf_type \<Rightarrow> string" where
  "type_name_or_anonymous b t =
     (if mch_btf_type_name b t = [] then ''<anonymous>'' else mch_btf_type_name b t)"

definition member_name_or_anonymous :: "btf \<Rightarrow> btf_member \<Rightarrow> string" where
  "member_name_or_anonymous b m =
     (case name_by_offset b (m_name_off m) of
        None \<Rightarrow> ''<anonymous>''
      | Some s \<Rightarrow> if s = [] then ''<anonymous>'' else s)"

definition empty_requirements :: mch_requirements where
  "empty_requirements =
     \<lparr>type_root_words = None, record_member_words = None, record_member_counts = None,
      req_traces = [], type_count = 0, type_root_words_count = 0, trace_count = 0,
      trace_capacity = 0, type_roots = 0, record_members = 0\<rparr>"

definition mch_requirements_init :: "size_t \<Rightarrow> heap \<Rightarrow> int \<times> mch_requirements \<times> heap" where
  "mch_requirements_init n h =
     (let wc = word_count_for_bits n; slots = (if n = 0 then 1 else n);
          (roots, h1) = heap_calloc wc 8 0 h;
          (mwords, h2) = heap_calloc slots 8 None h1;
          (mcounts, h3) = heap_calloc slots 8 0 h2
      in if roots = None \<or> mwords = None \<or> mcounts = None
         then (-1, empty_requirements, h3)
         else (0, empty_requirements\<lparr>type_root_words := roots, record_member_words := mwords,
                record_member_counts := mcounts, type_root_words_count := wc, type_count := n\<rparr>, h3))"

definition mch_requirements_destroy :: "mch_requirements \<Rightarrow> mch_requirements" where
  "mch_requirements_destroy r = empty_requirements"

definition mch_requirements_contains_type_root :: "mch_requirements option \<Rightarrow> size_t \<Rightarrow> bool" where
  "mch_requirements_contains_type_root rq type_id =
     (case rq of None \<Rightarrow> False | Some r \<Rightarrow> bitset_contains (type_root_words r) (type_count r) type_id)"

definition mch_requirements_add_type_root ::
    "mch_requirements option \<Rightarrow> size_t \<Rightarrow> mch_requirement_origin option \<Rightarrow> mch_error \<Rightarrow> heap
      \<Rightarrow> (mch_requirements option \<times> heap) result" where
  "mch_requirements_add_type_root rq type_id origin err h =
     (case rq of
        None \<Rightarrow> Inr (None, h)
      | Some r \<Rightarrow>
          if type_root_words r = None \<or> type_id \<ge> type_count r
          then Inl (mch_error_set (''requirements reference invalid type id '' @ show_u type_id) err)
          else if bitset_contains (type_root_words r) (type_count r) type_id then Inr (rq, h)
          else bind_result
                 (append_trace r MCH_REQUIREMENT_TRACE_TYPE_ROOT type_id 0 origin err h)
                 (\<lambda>(r', h').
                    Inr (Some (r'\<lparr>type_root_words :=
                                    snd (bitset_add (type_root_words r') (type_count r') type_id),
                                  type_roots := type_roots r' + 1\<rparr>), h')))"

definition mch_requirements_has_record_members :: "mch_requirements option \<Rightarrow> size_t \<Rightarrow> bool" where
  "mch_requirements_has_record_members rq type_id =
     (case rq of None \<Rightarrow> False
      | Some r \<Rightarrow> record_member_words r \<noteq> None \<and> type_id < type_count r
                  \<and> the (record_member_words r) ! unat type_id \<noteq> None)"

definition mch_requirements_contains_record_member ::
    "mch_requirements option \<Rightarrow> size_t \<Rightarrow> size_t \<Rightarrow> bool" where
  "mch_requirements_contains_record_member rq type_id member_index =
     (if \<not> mch_requirements_has_record_members rq type_id then False
      else bitset_contains (the (record_member_words (the rq)) ! unat type_id)
             (the (record_member_counts (the rq)) ! unat type_id) member_index)"

text \<open>
  The first step of \<^verbatim>\<open>mch_requirements_add_record_member\<close>: allocate the words of the
  record when it has none.
\<close>

definition with_member_words ::
    "mch_requirements \<Rightarrow> nat \<Rightarrow> size_t \<Rightarrow> mch_error \<Rightarrow> heap \<Rightarrow> (mch_requirements \<times> heap) result" where
  "with_member_words r i member_count err h =
     (let mw = the (record_member_words r)
      in if mw ! i = None then
           (case heap_calloc (word_count_for_bits member_count) 8 0 h of
              (None, h1) \<Rightarrow> Inl (mch_error_set
                ''out of memory while recording required record members'' err)
            | (Some w, h1) \<Rightarrow>
                Inr (r\<lparr>record_member_words := Some (mw[i := Some w]),
                       record_member_counts :=
                         Some ((the (record_member_counts r))[i := member_count])\<rparr>, h1))
         else Inr (r, h))"

definition mch_requirements_add_record_member ::
    "btf \<Rightarrow> mch_requirements option \<Rightarrow> size_t \<Rightarrow> size_t \<Rightarrow> mch_requirement_origin option \<Rightarrow> mch_error
      \<Rightarrow> heap \<Rightarrow> (mch_requirements option \<times> heap) result" where
  "mch_requirements_add_record_member b rq type_id member_index origin err h =
     (case rq of
        None \<Rightarrow> Inr (None, h)
      | Some r \<Rightarrow>
          if record_member_words r = None \<or> record_member_counts r = None \<or> type_id \<ge> type_count r
          then Inl (mch_error_set (''requirements reference invalid type id '' @ show_u type_id) err)
          else
            (case type_by_id b (ucast type_id) of
               None \<Rightarrow> Inl (mch_error_set
                         (''requirements reference non-record type id '' @ show_u type_id) err)
             | Some t \<Rightarrow>
                 if \<not> is_record_kind (kind t)
                 then Inl (mch_error_set
                        (''requirements reference non-record type id '' @ show_u type_id) err)
                 else
                   let member_count = (ucast (vlen t) :: size_t); i = unat type_id
                   in if member_index \<ge> member_count
                      then Inl (mch_error_set (''requirements reference invalid member ''
                             @ show_u member_index @ '' on type id '' @ show_u type_id) err)
                      else
                        bind_result
                          (with_member_words r i member_count err h)
                          (\<lambda>(r1, h1).
                             let ws = the (record_member_words r1) ! i;
                                 mc = the (record_member_counts r1) ! i
                             in if bitset_contains ws mc member_index then Inr (Some r1, h1)
                                else bind_result
                                  (append_trace r1 MCH_REQUIREMENT_TRACE_RECORD_MEMBER
                                     type_id member_index origin err h1)
                                  (\<lambda>(r2, h2).
                                     Inr (Some (r2\<lparr>record_member_words :=
                                             Some ((the (record_member_words r2))
                                               [i := snd (bitset_add ws mc member_index)]),
                                           record_members := record_members r2 + 1\<rparr>), h2)))))"

definition mch_requirements_stats :: "mch_requirements option \<Rightarrow> mch_requirement_stats" where
  "mch_requirements_stats rq =
     (case rq of
        None \<Rightarrow> \<lparr>stat_type_roots = 0, stat_record_members = 0, stat_traces = 0\<rparr>
      | Some r \<Rightarrow> \<lparr>stat_type_roots = type_roots r, stat_record_members = record_members r,
                   stat_traces = trace_count r\<rparr>)"

text \<open>
  The witness text. \<open>explain_trace\<close> is one line of the loop, \<open>None\<close> in the error part when
  the line was written; \<open>io_error\<close> is what \<^verbatim>\<open>ferror (out)\<close> says at the end.
\<close>

definition opt_field :: "string \<Rightarrow> string option \<Rightarrow> string" where
  "opt_field label value = (case value of None \<Rightarrow> [] | Some s \<Rightarrow> label @ s)"

definition explain_trace :: "btf \<Rightarrow> mch_requirement_trace \<Rightarrow> mch_error \<Rightarrow> string result" where
  "explain_trace b tr err =
     (case type_by_id b (trace_type_id tr) of
        None \<Rightarrow> Inl (mch_error_set (''requirement trace references missing type id ''
                       @ show_u (trace_type_id tr)) err)
      | Some t \<Rightarrow>
          bind_result
            (if trace_kind tr = MCH_REQUIREMENT_TRACE_RECORD_MEMBER then
               if unat (trace_member_index tr) \<ge> nvlen t
               then Inl (mch_error_set (''requirement trace references missing member ''
                      @ show_u (trace_member_index tr) @ '' on type id ''
                      @ show_u (trace_type_id tr)) err)
               else Inr (''  - member: ''
                      @ (if kind t = BTF_KIND_UNION then ''union'' else ''struct'') @ '' ''
                      @ type_name_or_anonymous b t @ ''.''
                      @ member_name_or_anonymous b (member t (unat (trace_member_index tr))))
             else Inr (''  - root: '' @ mch_btf_kind_name (kind t) @ '' ''
                    @ type_name_or_anonymous b t))
            (\<lambda>head. Inr (head @ ''; source: '' @ source_name (trace_source tr)
               @ opt_field '' '' (trace_detail tr)
               @ opt_field ''; access: '' (trace_access tr)
               @ opt_field ''; location: '' (trace_location tr)
               @ opt_field ''; file: '' (trace_object_path tr) @ newline)))"

fun explain_traces :: "btf \<Rightarrow> mch_requirement_trace list \<Rightarrow> mch_error \<Rightarrow> string \<times> mch_error option" where
  "explain_traces b [] err = ([], None)"
| "explain_traces b (tr # trs) err =
     (case explain_trace b tr err of
        Inl e \<Rightarrow> ([], Some e)
      | Inr line \<Rightarrow> (let (out, e) = explain_traces b trs err in (line @ out, e)))"

definition mch_requirements_write_explanation ::
    "bool \<Rightarrow> btf \<Rightarrow> mch_requirements \<Rightarrow> mch_error \<Rightarrow> string \<times> mch_error option" where
  "mch_requirements_write_explanation io_error b r err =
     (let write_failed = mch_error_set ''failed to write requirement witness'' err;
          head = ''requirements:'' @ newline
      in if trace_count r = 0
         then (head @ ''  direct requirements: 0'' @ newline, if io_error then Some write_failed else None)
         else let (out, e) = explain_traces b (req_traces r) err
              in (head @ out, case e of Some e' \<Rightarrow> Some e'
                    | None \<Rightarrow> if io_error then Some write_failed else None))"


subsection \<open>The bit sets\<close>

definition bitset_elems :: "u64 list option \<Rightarrow> size_t \<Rightarrow> nat set" where
  "bitset_elems ws n = {k \<in> word_bits (the ws). k < unat n}"

definition bitset_invar :: "u64 list option \<Rightarrow> size_t \<Rightarrow> bool" where
  "bitset_invar ws n \<longleftrightarrow> ws \<noteq> None \<and> unat n \<le> 64 * length (the ws)"

lemma bitset_stored_iff:
  assumes "bitset_invar ws n" and "i < n"
  shows "(the ws ! unat (drop_bit 6 i)) AND bit_mask (i AND 63) \<noteq> 0 \<longleftrightarrow> unat i \<in> bitset_elems ws n"
  using assms
  by (auto simp: bitset_invar_def bitset_elems_def word_bits_def and_bit_mask_iff word_nat word_less_nat_alt)

lemma bitset_contains_iff:
  assumes "bitset_invar ws n"
  shows "bitset_contains ws n i \<longleftrightarrow> unat i \<in> bitset_elems ws n"
proof (cases "i < n")
  case True
  then have "\<not> n \<le> i" by simp
  then show ?thesis
    using bitset_stored_iff [OF assms True] assms by (auto simp: bitset_contains_def bitset_invar_def)
next
  case False
  then have "n \<le> i" by simp
  then show ?thesis by (auto simp: bitset_contains_def bitset_elems_def word_le_nat_alt)
qed

lemma bitset_add_spec:
  assumes "bitset_invar ws n"
  shows "bitset_invar (snd (bitset_add ws n i)) n"
    and "fst (bitset_add ws n i) \<longleftrightarrow> unat i < unat n \<and> unat i \<notin> bitset_elems ws n"
    and "bitset_elems (snd (bitset_add ws n i)) n
      = (if unat i < unat n then insert (unat i) (bitset_elems ws n) else bitset_elems ws n)"
proof -
  have some: "ws \<noteq> None" and len: "unat n \<le> 64 * length (the ws)" using assms by (auto simp: bitset_invar_def)
  show "bitset_invar (snd (bitset_add ws n i)) n"
    using assms by (auto simp: bitset_add_def bitset_invar_def Let_def)
  show "fst (bitset_add ws n i) \<longleftrightarrow> unat i < unat n \<and> unat i \<notin> bitset_elems ws n"
  proof (cases "i < n")
    case True
    then have "\<not> n \<le> i" by simp
    then show ?thesis
      using bitset_stored_iff [OF assms True] True some
      by (auto simp: bitset_add_def Let_def word_less_nat_alt [symmetric])
  next
    case False
    then have "n \<le> i" by simp
    with False show ?thesis by (simp add: bitset_add_def word_less_nat_alt [symmetric])
  qed
  show "bitset_elems (snd (bitset_add ws n i)) n
      = (if unat i < unat n then insert (unat i) (bitset_elems ws n) else bitset_elems ws n)"
  proof (cases "i < n")
    case True
    then have ni: "\<not> n \<le> i" by simp
    from True have lt: "unat i < unat n" by (simp add: word_less_nat_alt)
    have "word_bits ((the ws)[unat (drop_bit 6 i) := (the ws ! unat (drop_bit 6 i)) OR bit_mask (i AND 63)])
        = insert (unat i) (word_bits (the ws))"
      unfolding word_nat by (rule word_bits_update) (use lt len in \<open>auto simp: word_nat\<close>)
    then show ?thesis
      using bitset_stored_iff [OF assms True] some lt ni
      by (auto simp: bitset_add_def bitset_elems_def Let_def)
  next
    case False
    then have "n \<le> i" by simp
    then show ?thesis by (auto simp: bitset_add_def word_le_nat_alt)
  qed
qed

interpretation bs: id_set "\<lambda>(ws, n) i. bitset_contains ws n i"
  "\<lambda>(ws, n) i. (fst (bitset_add ws n i), (snd (bitset_add ws n i), n))"
  "\<lambda>(ws, n). bitset_elems ws n" "\<lambda>(ws, n). unat n" "\<lambda>(ws, n). bitset_invar ws n"
proof
  fix s :: "u64 list option \<times> size_t" and i
  obtain ws n where s: "s = (ws, n)" by fastforce
  assume "case s of (ws, n) \<Rightarrow> bitset_invar ws n"
  then have inv: "bitset_invar ws n" by (simp add: s)
  show "(case s of (ws, n) \<Rightarrow> bitset_elems ws n) \<subseteq> {..< case s of (ws, n) \<Rightarrow> unat n}"
    by (auto simp: s bitset_elems_def)
qed (auto simp: bitset_contains_iff bitset_add_spec)

text \<open>
  The two bit sets of the program are one: on the words of a type set, \<^verbatim>\<open>bitset_add\<close>
  does what \<^verbatim>\<open>mch_type_set_add\<close> does.
\<close>

lemma bitset_add_as_type_set:
  assumes "ts_words s \<noteq> None"
  shows "bitset_add (ts_words s) (ts_count s) i
    = (fst (mch_type_set_add s i), ts_words (snd (mch_type_set_add s i)))"
  using assms by (auto simp: bitset_add_def mch_type_set_add_def Let_def)

subsection \<open>Traces\<close>

lemma dup_field_Inr:
  assumes "dup_field v err h = Inr (c, h')"
  shows "c = (if v = Some [] then None else v)"
  using assms by (auto simp: dup_field_def dup_optional_def heap_alloc_def split: if_splits)

lemma dup_field_plenty [simp]: "dup_field v err plenty = Inr (if v = Some [] then None else v, plenty)"
  by (auto simp: dup_field_def dup_optional_def)

lemma ensure_trace_capacity_Inr:
  assumes "ensure_trace_capacity r err h = Inr (r', h')" and "trace_count r \<le> trace_capacity r"
  shows "r' = r\<lparr>trace_capacity := trace_capacity r'\<rparr>" "trace_count r < trace_capacity r'"
    "trace_capacity r' = trace_capacity r \<or> unat (trace_capacity r') \<le> max 16 (2 * unat (trace_count r))"
proof -
  have "trace_count r < trace_capacity r'"
  proof (cases "trace_count r < trace_capacity r")
    case True
    then show ?thesis using assms(1) by (simp add: ensure_trace_capacity_def)
  next
    case False
    then have eq: "trace_count r = trace_capacity r" using assms(2) by simp
    show ?thesis
    proof (cases "trace_capacity r = 0")
      case True
      then show ?thesis using assms(1) eq False
        by (auto simp: ensure_trace_capacity_def Let_def heap_alloc_def split: if_splits)
    next
      case nz: False
      have grown: "trace_capacity r' = trace_capacity r * 2" "\<not> trace_capacity r * 2 < trace_capacity r"
          "\<not> trace_capacity r * 2 > 0xFFFFFFFFFFFFFFFF div 48"
        using assms(1) eq False nz
        by (auto simp: ensure_trace_capacity_def Let_def heap_alloc_def split: if_splits)
      have "trace_capacity r * 2 \<noteq> trace_capacity r"
      proof
        assume "trace_capacity r * 2 = trace_capacity r"
        then have "trace_capacity r + trace_capacity r = trace_capacity r" by (simp only: mult_2_right)
        then show False using nz by simp
      qed
      then show ?thesis using grown(1,2) eq by (simp add: not_less order.not_eq_order_implies_strict)
    qed
  qed
  moreover have "r' = r\<lparr>trace_capacity := trace_capacity r'\<rparr>"
    using assms(1) by (auto simp: ensure_trace_capacity_def Let_def heap_alloc_def split: if_splits)
  moreover have "trace_capacity r' = trace_capacity r \<or> unat (trace_capacity r') \<le> max 16 (2 * unat (trace_count r))"
  proof (cases "trace_count r < trace_capacity r")
    case True
    then show ?thesis using assms(1) by (simp add: ensure_trace_capacity_def)
  next
    case False
    then have "trace_count r = trace_capacity r" using assms(2) by simp
    moreover have "unat (trace_capacity r * 2) \<le> unat (trace_capacity r) * 2"
      by (simp add: unat_word_ariths)
    ultimately show ?thesis using assms(1) False
      by (auto simp: ensure_trace_capacity_def Let_def heap_alloc_def split: if_splits)
  qed
  ultimately show "r' = r\<lparr>trace_capacity := trace_capacity r'\<rparr>" "trace_count r < trace_capacity r'"
    "trace_capacity r' = trace_capacity r \<or> unat (trace_capacity r') \<le> max 16 (2 * unat (trace_count r))"
    by blast+
qed


subsection \<open>The invariant\<close>

definition req_roots :: "mch_requirements \<Rightarrow> nat set" where
  "req_roots r = bitset_elems (type_root_words r) (type_count r)"

definition members_of :: "mch_requirements \<Rightarrow> nat \<Rightarrow> nat set" where
  "members_of r i = (if i < unat (type_count r) \<and> the (record_member_words r) ! i \<noteq> None
     then bitset_elems (the (record_member_words r) ! i) (the (record_member_counts r) ! i) else {})"

definition req_members :: "mch_requirements \<Rightarrow> (nat \<times> nat) set" where
  "req_members r = (SIGMA i : {..< unat (type_count r)}. members_of r i)"

definition trace_key :: "mch_requirement_trace \<Rightarrow> mch_requirement_trace_kind \<times> nat \<times> nat" where
  "trace_key tr = (trace_kind tr, unat (trace_type_id tr), unat (trace_member_index tr))"

definition req_keys :: "nat set \<Rightarrow> (nat \<times> nat) set \<Rightarrow> (mch_requirement_trace_kind \<times> nat \<times> nat) set" where
  "req_keys R M = (\<lambda>i. (MCH_REQUIREMENT_TRACE_TYPE_ROOT, i, 0)) ` R
     \<union> (\<lambda>(i, m). (MCH_REQUIREMENT_TRACE_RECORD_MEMBER, i, m)) ` M"

text \<open>The traces are exactly the requirements \<open>K\<close>, each once, in an array with room for them.\<close>

definition trace_invar :: "mch_requirement_trace list \<Rightarrow> size_t \<Rightarrow> size_t
    \<Rightarrow> (mch_requirement_trace_kind \<times> nat \<times> nat) set \<Rightarrow> bool" where
  "trace_invar trs tc cap K \<longleftrightarrow> unat tc = length trs \<and> tc \<le> cap
     \<and> unat cap \<le> max 16 (2 * length trs)
     \<and> distinct (map trace_key trs) \<and> set (map trace_key trs) = K"

definition record_words_invar :: "btf \<Rightarrow> mch_requirements \<Rightarrow> nat \<Rightarrow> bool" where
  "record_words_invar b r i \<longleftrightarrow> the (record_member_words r) ! i = None
     \<or> bitset_invar (the (record_member_words r) ! i) (the (record_member_counts r) ! i)
       \<and> members_of r i \<noteq> {}
       \<and> (\<exists>t. type_by_id b (of_nat i) = Some t \<and> is_record_kind (kind t)
            \<and> the (record_member_counts r) ! i = ucast (vlen t))"

definition req_invar :: "btf \<Rightarrow> mch_requirements \<Rightarrow> bool" where
  "req_invar b r \<longleftrightarrow> bitset_invar (type_root_words r) (type_count r)
     \<and> unat (type_count r) \<le> 2 ^ 32
     \<and> record_member_words r \<noteq> None \<and> record_member_counts r \<noteq> None
     \<and> unat (type_count r) \<le> length (the (record_member_words r))
     \<and> unat (type_count r) \<le> length (the (record_member_counts r))
     \<and> (\<forall>i < unat (type_count r). record_words_invar b r i)
     \<and> trace_invar (req_traces r) (trace_count r) (trace_capacity r) (req_keys (req_roots r) (req_members r))
     \<and> unat (type_roots r) = card (req_roots r)
     \<and> unat (record_members r) = card (req_members r)"

lemma req_roots_below: "req_roots r \<subseteq> {..< unat (type_count r)}"
  by (auto simp: req_roots_def bitset_elems_def)

lemma members_of_below:
  assumes "req_invar b r" and "i < unat (type_count r)"
  shows "members_of r i \<subseteq> {..< 2 ^ 16}"
proof
  fix m assume m: "m \<in> members_of r i"
  then have "the (record_member_words r) ! i \<noteq> None"
    and elem: "m \<in> bitset_elems (the (record_member_words r) ! i) (the (record_member_counts r) ! i)"
    by (auto simp: members_of_def split: if_splits)
  moreover have "record_words_invar b r i" using assms by (simp add: req_invar_def)
  ultimately obtain t :: btf_type where "the (record_member_counts r) ! i = ucast (vlen t)"
    unfolding record_words_invar_def by metis
  with elem have "m < unat (ucast (vlen t) :: size_t)" by (simp add: bitset_elems_def)
  also have "\<dots> = unat (vlen t)"
    using unat_u16_less [of "vlen t"] by (simp add: unsigned_ucast_eq take_bit_eq_mod)
  finally show "m \<in> {..< 2 ^ 16}" using unat_u16_less [of "vlen t"] by simp
qed

lemma req_members_below:
  assumes "req_invar b r"
  shows "req_members r \<subseteq> {..< 2 ^ 32} \<times> {..< 2 ^ 16}"
  using members_of_below [OF assms] assms by (force simp: req_members_def req_invar_def)

lemma finite_requirements:
  assumes "req_invar b r"
  shows "finite (req_roots r)" "finite (req_members r)"
  using finite_subset [OF req_roots_below] finite_subset [OF req_members_below [OF assms]] by auto

lemma card_req_keys:
  assumes "finite R" and "finite M"
  shows "card (req_keys R M) = card R + card M"
proof -
  have "inj_on (\<lambda>i. (MCH_REQUIREMENT_TRACE_TYPE_ROOT, i, 0 :: nat)) R" by (auto simp: inj_on_def)
  moreover have "inj_on (\<lambda>(i, m). (MCH_REQUIREMENT_TRACE_RECORD_MEMBER, i, m)) M" by (auto simp: inj_on_def)
  ultimately show ?thesis
    using assms unfolding req_keys_def by (subst card_Un_disjoint) (auto simp: card_image)
qed

text \<open>One trace per requirement, and never more than 2^32 + 2^48 of them.\<close>

lemma length_traces:
  assumes "req_invar b r"
  shows "length (req_traces r) = card (req_roots r) + card (req_members r)"
proof -
  have "length (req_traces r) = card (set (map trace_key (req_traces r)))"
    using assms distinct_card [of "map trace_key (req_traces r)"]
    by (simp add: req_invar_def trace_invar_def)
  also have "\<dots> = card (req_keys (req_roots r) (req_members r))"
    using assms by (simp add: req_invar_def trace_invar_def)
  finally show ?thesis using finite_requirements [OF assms] by (simp add: card_req_keys)
qed

lemma traces_bound:
  assumes "req_invar b r"
  shows "length (req_traces r) \<le> 2 ^ 32 + 2 ^ 48"
proof -
  have "card (req_roots r) \<le> 2 ^ 32"
    using card_mono [OF _ req_roots_below [of r]] assms by (simp add: req_invar_def)
  moreover have "card (req_members r) \<le> 2 ^ 32 * 2 ^ 16"
    using card_mono [OF _ req_members_below [OF assms]] by (simp add: card_cartesian_product)
  ultimately show ?thesis using length_traces [OF assms] by simp
qed

lemma origin_trace_Inr:
  assumes "origin_trace k i m og err h = Inr (tr, h')"
  shows "trace_kind tr = k" "trace_type_id tr = ucast i" "trace_member_index tr = ucast m"
  using assms
  by (auto simp: origin_trace_def Let_def bind_result_Inr split: option.splits)

lemma trace_invar_append:
  assumes inv: "trace_invar trs tc cap K" and room: "tc < cap'" and new: "trace_key tr \<notin> K"
    and grown: "cap' = cap \<or> unat cap' \<le> max 16 (2 * unat tc)"
  shows "trace_invar (trs @ [tr]) (tc + 1) cap' (insert (trace_key tr) K)"
proof -
  have "unat (tc + 1) = Suc (unat tc)" using room by (rule unat_increment)
  moreover from this room have "tc + 1 \<le> cap'" by (simp add: word_le_nat_alt word_less_nat_alt)
  ultimately show ?thesis using inv new grown by (auto simp: trace_invar_def)
qed

lemma append_trace_Inr:
  assumes app: "append_trace r k i m og err h = Inr (r', h')"
    and inv: "trace_invar (req_traces r) (trace_count r) (trace_capacity r) K"
    and new: "(k, unat i, unat m) \<notin> K"
  obtains tr cap where "r' = r\<lparr>req_traces := req_traces r @ [tr], trace_count := trace_count r + 1,
      trace_capacity := cap\<rparr>"
    "trace_key tr = (k, unat i, unat m)" "trace_count r < cap"
    "trace_invar (req_traces r @ [tr]) (trace_count r + 1) cap (insert (k, unat i, unat m) K)"
proof -
  have small: "\<not> i > 0xFFFFFFFF" "\<not> m > 0xFFFFFFFF"
    using app by (auto simp: append_trace_def split: if_splits)
  with app obtain tr h1 r1 where tr: "origin_trace k i m og err h = Inr (tr, h1)"
    and ens: "ensure_trace_capacity r err h1 = Inr (r1, h')"
    and r': "r' = r1\<lparr>req_traces := req_traces r1 @ [tr], trace_count := trace_count r1 + 1\<rparr>"
    by (auto simp: append_trace_def bind_result_Inr)
  have le: "trace_count r \<le> trace_capacity r" using inv by (simp add: trace_invar_def)
  note r1 = ensure_trace_capacity_Inr [OF ens le]
  have "unat (ucast i :: u32) = unat i" "unat (ucast m :: u32) = unat m"
    using small by (auto intro!: unat_ucast_u64_u32 simp: word_less_nat_alt not_less)
  then have key: "trace_key tr = (k, unat i, unat m)"
    using origin_trace_Inr [OF tr] by (simp add: trace_key_def)
  show ?thesis
  proof (rule that)
    show "r' = r\<lparr>req_traces := req_traces r @ [tr], trace_count := trace_count r + 1,
        trace_capacity := trace_capacity r1\<rparr>"
      unfolding r' by (subst (1 2 3) r1(1)) simp
    show "trace_invar (req_traces r @ [tr]) (trace_count r + 1) (trace_capacity r1)
        (insert (k, unat i, unat m) K)"
      using trace_invar_append [OF inv r1(2) _ r1(3), of tr] new key by simp
  qed (use key r1(2) in auto)
qed

lemma req_keys_insert:
  "req_keys (insert i R) M = insert (MCH_REQUIREMENT_TRACE_TYPE_ROOT, i, 0) (req_keys R M)"
  "req_keys R (insert (i, m) M) = insert (MCH_REQUIREMENT_TRACE_RECORD_MEMBER, i, m) (req_keys R M)"
  by (auto simp: req_keys_def)

lemma in_req_keys [simp]:
  "(MCH_REQUIREMENT_TRACE_TYPE_ROOT, i, 0) \<in> req_keys R M \<longleftrightarrow> i \<in> R"
  "(MCH_REQUIREMENT_TRACE_RECORD_MEMBER, i, m) \<in> req_keys R M \<longleftrightarrow> (i, m) \<in> M"
  by (auto simp: req_keys_def)

subsection \<open>Adding a type root\<close>

lemma add_type_root_spec:
  assumes inv: "req_invar b r"
    and add: "mch_requirements_add_type_root (Some r) i og err h = Inr (rq', h')"
  obtains r' where "rq' = Some r'" "req_invar b r'" "i < type_count r"
    "req_roots r' = insert (unat i) (req_roots r)" "req_members r' = req_members r"
    "type_count r' = type_count r" "record_member_words r' = record_member_words r"
    "record_member_counts r' = record_member_counts r"
proof -
  have bs: "bitset_invar (type_root_words r) (type_count r)"
    and tr: "trace_invar (req_traces r) (trace_count r) (trace_capacity r) (req_keys (req_roots r) (req_members r))"
    using inv by (auto simp: req_invar_def)
  have i: "i < type_count r" using add by (auto simp: mch_requirements_add_type_root_def split: if_splits)
  show ?thesis
  proof (cases "bitset_contains (type_root_words r) (type_count r) i")
    case True
    then have "unat i \<in> req_roots r" by (simp add: bitset_contains_iff [OF bs] req_roots_def)
    moreover have "rq' = Some r"
      using add True by (auto simp: mch_requirements_add_type_root_def split: if_splits)
    ultimately show ?thesis using inv i by (intro that [of r]) auto
  next
    case False
    then have new: "unat i \<notin> req_roots r" by (simp add: bitset_contains_iff [OF bs] req_roots_def)
    obtain r1 where app: "append_trace r MCH_REQUIREMENT_TRACE_TYPE_ROOT i 0 og err h = Inr (r1, h')"
      and rq': "rq' = Some (r1\<lparr>type_root_words := snd (bitset_add (type_root_words r1) (type_count r1) i),
        type_roots := type_roots r1 + 1\<rparr>)"
      using add False by (auto simp: mch_requirements_add_type_root_def bind_result_Inr split: if_splits)
    have "(MCH_REQUIREMENT_TRACE_TYPE_ROOT, unat i, unat (0 :: size_t)) \<notin> req_keys (req_roots r) (req_members r)"
      using new by simp
    from append_trace_Inr [OF app tr this]
    obtain t cap where r1: "r1 = r\<lparr>req_traces := req_traces r @ [t], trace_count := trace_count r + 1,
        trace_capacity := cap\<rparr>" and room: "trace_count r < cap"
      and tr': "trace_invar (req_traces r @ [t]) (trace_count r + 1) cap
        (insert (MCH_REQUIREMENT_TRACE_TYPE_ROOT, unat i, 0) (req_keys (req_roots r) (req_members r)))"
      unfolding unat_0 by metis
    let ?r = "r1\<lparr>type_root_words := snd (bitset_add (type_root_words r1) (type_count r1) i),
        type_roots := type_roots r1 + 1\<rparr>"
    have roots: "req_roots ?r = insert (unat i) (req_roots r)"
      using bitset_add_spec(3) [OF bs, of i] i by (simp add: req_roots_def r1 word_less_nat_alt)
    have mems: "members_of ?r j = members_of r j" for j by (auto simp: members_of_def r1)
    then have "req_members ?r = req_members r" by (simp add: req_members_def r1)
    moreover have below: "type_roots r < cap"
      using inv length_traces [OF inv] room
      by (simp add: req_invar_def trace_invar_def word_less_nat_alt)
    have "unat (type_roots r + 1) = Suc (card (req_roots r))"
      using unat_increment [OF below] inv by (simp add: req_invar_def)
    ultimately have "req_invar b ?r"
      using inv new roots tr' mems bitset_add_spec(1) [OF bs, of i] finite_requirements [OF inv]
      by (simp add: req_invar_def r1 record_words_invar_def req_keys_insert)
    then show ?thesis using rq' roots i mems by (intro that [of ?r]) (simp_all add: r1 req_members_def)
  qed
qed


subsection \<open>Adding a record member\<close>

lemma fresh_member_words:
  fixes n :: size_t
  assumes "unat n < 2 ^ 16"
  shows "bitset_invar (Some (replicate (unat (word_count_for_bits n)) 0)) n"
    and "bitset_elems (Some (replicate (unat (word_count_for_bits n)) 0)) n = {}"
proof -
  have "unat (word_count_for_bits n) = (if n = 0 then 1 else (unat n + 63) div 64)"
    using assms by (intro word_count_for_bits_exact) simp
  then show "bitset_invar (Some (replicate (unat (word_count_for_bits n)) 0)) n"
    by (auto simp: bitset_invar_def)
  show "bitset_elems (Some (replicate (unat (word_count_for_bits n)) 0)) n = {}"
    by (simp add: bitset_elems_def)
qed

lemma unat_vlen_size [word_nat]: "unat (ucast (v :: u16) :: size_t) = unat v"
  using unat_u16_less [of v] by (simp add: unsigned_ucast_eq take_bit_eq_mod)


lemma with_member_words_spec:
  assumes inv: "req_invar b r" and i: "i < unat (type_count r)"
    and t: "type_by_id b (of_nat i) = Some t" "is_record_kind (kind t)"
    and ok: "with_member_words r i (ucast (vlen t)) err h = Inr (r1, h1)"
  obtains ws where "the (record_member_words r1) ! i = ws" "bitset_invar ws (ucast (vlen t))"
    "the (record_member_counts r1) ! i = ucast (vlen t)" "bitset_elems ws (ucast (vlen t)) = members_of r i"
    "r1 = r\<lparr>record_member_words := Some ((the (record_member_words r))[i := ws]),
      record_member_counts := Some ((the (record_member_counts r))[i := ucast (vlen t)])\<rparr>"
proof -
  have lens: "i < length (the (record_member_words r))" "i < length (the (record_member_counts r))"
    and some: "record_member_words r \<noteq> None" "record_member_counts r \<noteq> None"
    and rec: "record_words_invar b r i"
    using inv i by (auto simp: req_invar_def)
  show ?thesis
  proof (cases "the (record_member_words r) ! i")
    case None
    let ?n = "ucast (vlen t) :: size_t"
    let ?ws = "Some (replicate (unat (word_count_for_bits ?n)) (0 :: u64))"
    have n: "unat ?n < 2 ^ 16" using unat_u16_less [of "vlen t"] by (simp add: word_nat)
    have "r1 = r\<lparr>record_member_words := Some ((the (record_member_words r))[i := ?ws]),
        record_member_counts := Some ((the (record_member_counts r))[i := ?n])\<rparr>"
      using ok None by (auto simp: with_member_words_def heap_calloc_def Let_def split: if_splits)
    moreover have "members_of r i = {}" using None by (simp add: members_of_def)
    ultimately show ?thesis using fresh_member_words [OF n] lens by (intro that [of ?ws]) simp_all
  next
    case (Some w)
    then have r1: "r1 = r" using ok by (simp add: with_member_words_def Let_def)
    have counts: "the (record_member_counts r) ! i = ucast (vlen t)"
      and "bitset_invar (the (record_member_words r) ! i) (the (record_member_counts r) ! i)"
      using rec t Some by (auto simp: record_words_invar_def)
    moreover have "(the (record_member_words r))[i := Some w] = the (record_member_words r)"
      using Some by (metis list_update_id)
    moreover have "(the (record_member_counts r))[i := ucast (vlen t)] = the (record_member_counts r)"
      using counts by (metis list_update_id)
    ultimately show ?thesis
      using Some i some by (intro that [of "Some w"]) (simp_all add: r1 members_of_def)
  qed
qed

lemma add_record_member_Inr:
  assumes add: "mch_requirements_add_record_member b (Some r) i m og err h = Inr (rq', h')"
  obtains t where "i < type_count r" "type_by_id b (ucast i) = Some t" "is_record_kind (kind t)"
    "unat m < nvlen t"
proof -
  have i: "i < type_count r"
    using add by (auto simp: mch_requirements_add_record_member_def split: if_splits)
  from add i obtain t where t: "type_by_id b (ucast i) = Some t" "is_record_kind (kind t)"
    and m: "\<not> m \<ge> ucast (vlen t)"
    by (auto simp: mch_requirements_add_record_member_def Let_def split: option.splits if_splits)
  have "unat m < nvlen t" using m by (simp add: word_le_nat_alt word_nat)
  with i t show ?thesis by (rule that)
qed


lemma of_nat_unat_size [simp]: "(of_nat (unat (i :: size_t)) :: u32) = ucast i"
  by simp

lemma add_record_member_spec:
  assumes inv: "req_invar b r"
    and add: "mch_requirements_add_record_member b (Some r) i m og err h = Inr (rq', h')"
  obtains r' where "rq' = Some r'" "req_invar b r'"
    "req_roots r' = req_roots r" "req_members r' = insert (unat i, unat m) (req_members r)"
    "type_count r' = type_count r"
proof -
  obtain t where ilt: "i < type_count r" and t: "type_by_id b (ucast i) = Some t" "is_record_kind (kind t)"
    and mlt: "unat m < nvlen t"
    using add by (rule add_record_member_Inr)
  define n where "n = unat i"
  have n: "n < unat (type_count r)" using ilt by (simp add: n_def word_less_nat_alt)
  have tn: "type_by_id b (of_nat n) = Some t" using t(1) by (simp add: n_def)
  have some: "record_member_words r \<noteq> None" "record_member_counts r \<noteq> None"
    and lens: "n < length (the (record_member_words r))" "n < length (the (record_member_counts r))"
    and tr: "trace_invar (req_traces r) (trace_count r) (trace_capacity r) (req_keys (req_roots r) (req_members r))"
    using inv n by (auto simp: req_invar_def)
  have mle: "\<not> m \<ge> ucast (vlen t)" using mlt by (simp add: word_le_nat_alt word_nat)
  have ile: "\<not> i \<ge> type_count r" using ilt by simp
  obtain r1 h1 where words: "with_member_words r (unat i) (ucast (vlen t)) err h = Inr (r1, h1)"
    and rest: "(let ws = the (record_member_words r1) ! unat i; mc = the (record_member_counts r1) ! unat i
      in if bitset_contains ws mc m then Inr (Some r1, h1)
         else bind_result (append_trace r1 MCH_REQUIREMENT_TRACE_RECORD_MEMBER i m og err h1)
           (\<lambda>(r2, h2). Inr (Some (r2\<lparr>record_member_words :=
               Some ((the (record_member_words r2))[unat i := snd (bitset_add ws mc m)]),
             record_members := record_members r2 + 1\<rparr>), h2))) = Inr (rq', h')"
    using add t mle ile some
    by (auto simp: mch_requirements_add_record_member_def bind_result_Inr Let_def)
  note words = words [folded n_def] and rest = rest [folded n_def]
  obtain ws where ws: "the (record_member_words r1) ! n = ws" "bitset_invar ws (ucast (vlen t))"
    "the (record_member_counts r1) ! n = ucast (vlen t)" "bitset_elems ws (ucast (vlen t)) = members_of r n"
    and r1: "r1 = r\<lparr>record_member_words := Some ((the (record_member_words r))[n := ws]),
      record_member_counts := Some ((the (record_member_counts r))[n := ucast (vlen t)])\<rparr>"
    using with_member_words_spec [OF inv n tn t(2) words] by metis
  have mem: "(n, unat m) \<in> req_members r \<longleftrightarrow> bitset_contains ws (ucast (vlen t)) m"
    using n by (simp add: req_members_def bitset_contains_iff [OF ws(2)] ws(4))
  show ?thesis
  proof (cases "bitset_contains ws (ucast (vlen t)) m")
    case True
    then have "the (record_member_words r) ! n \<noteq> None"
      using mem by (auto simp: req_members_def members_of_def split: if_splits)
    then have "r1 = r" using words by (auto simp: with_member_words_def Let_def)
    then show ?thesis
      using rest ws True inv mem by (intro that [of r]) (auto simp: Let_def n_def)
  next
    case False
    then have new: "(MCH_REQUIREMENT_TRACE_RECORD_MEMBER, unat i, unat m)
        \<notin> req_keys (req_roots r) (req_members r)"
      using mem by (simp add: n_def)
    obtain r2 where app: "append_trace r1 MCH_REQUIREMENT_TRACE_RECORD_MEMBER i m og err h1 = Inr (r2, h')"
      and rq': "rq' = Some (r2\<lparr>record_member_words :=
          Some ((the (record_member_words r2))[n := snd (bitset_add ws (ucast (vlen t)) m)]),
        record_members := record_members r2 + 1\<rparr>)"
      using rest False by (auto simp: Let_def ws(1,3) bind_result_Inr)
    have tr1: "trace_invar (req_traces r1) (trace_count r1) (trace_capacity r1)
        (req_keys (req_roots r) (req_members r))" using tr by (simp add: r1)
    obtain tr cap where r2: "r2 = r1\<lparr>req_traces := req_traces r1 @ [tr],
        trace_count := trace_count r1 + 1, trace_capacity := cap\<rparr>" and room: "trace_count r1 < cap"
      and tr2: "trace_invar (req_traces r1 @ [tr]) (trace_count r1 + 1) cap
        (insert (MCH_REQUIREMENT_TRACE_RECORD_MEMBER, unat i, unat m) (req_keys (req_roots r) (req_members r)))"
      using append_trace_Inr [OF app tr1 new] by metis
    let ?ws = "snd (bitset_add ws (ucast (vlen t)) m)"
    let ?r = "r2\<lparr>record_member_words := Some ((the (record_member_words r2))[n := ?ws]),
        record_members := record_members r2 + 1\<rparr>"
    have ws': "bitset_invar ?ws (ucast (vlen t))"
      "bitset_elems ?ws (ucast (vlen t)) = insert (unat m) (members_of r n)"
      using bitset_add_spec [OF ws(2), of m] mlt ws(4) by (simp_all add: word_nat)
    have "?ws \<noteq> None" using ws'(1) by (simp add: bitset_invar_def)
    then have memn: "members_of ?r n = insert (unat m) (members_of r n)"
      using n lens ws'(2) by (simp add: members_of_def r2 r1)
    have memj: "members_of ?r j = members_of r j" if "j \<noteq> n" for j
      using that by (auto simp: members_of_def r2 r1)
    have mems: "req_members ?r = insert (unat i, unat m) (req_members r)"
    proof -
      have "req_members ?r = (SIGMA j : {..< unat (type_count r)}.
          if j = n then insert (unat m) (members_of r n) else members_of r j)"
        using memn memj by (auto simp: req_members_def r2 r1 split: if_splits)
      also have "\<dots> = insert (n, unat m) (req_members r)"
        using n by (auto simp: req_members_def split: if_splits)
      finally show ?thesis by (simp add: n_def)
    qed
    have roots: "req_roots ?r = req_roots r" by (simp add: req_roots_def r2 r1)
    have below: "record_members r < cap"
      using inv length_traces [OF inv] room
      by (simp add: req_invar_def trace_invar_def word_less_nat_alt r1)
    have "(unat i, unat m) \<notin> req_members r" using new by simp
    then have cnt: "unat (record_members r + 1) = card (req_members ?r)"
      using unat_increment [OF below] inv finite_requirements [OF inv]
      by (simp add: req_invar_def mems)
    have "record_words_invar b ?r j" if j: "j < unat (type_count r)" for j
    proof (cases "j = n")
      case True
      then show ?thesis using ws' tn t(2) lens memn
        by (simp add: record_words_invar_def r2 r1)
    next
      case False
      moreover have "record_words_invar b r j" using inv j by (simp add: req_invar_def)
      ultimately show ?thesis using memj by (simp add: record_words_invar_def r2 r1)
    qed
    then have "req_invar b ?r"
      using inv tr2 roots mems cnt
      by (simp add: req_invar_def r2 r1 req_keys_insert)
    then show ?thesis using rq' roots mems by (intro that [of ?r]) (simp_all add: r2 r1)
  qed
qed


subsection \<open>Queries, initialisation, and success on a heap without failures\<close>

lemma contains_type_root_iff:
  assumes "req_invar b r"
  shows "mch_requirements_contains_type_root (Some r) i \<longleftrightarrow> unat i \<in> req_roots r"
  using assms
  by (simp add: mch_requirements_contains_type_root_def req_invar_def bitset_contains_iff req_roots_def)

lemma has_record_members_iff:
  assumes inv: "req_invar b r"
  shows "mch_requirements_has_record_members (Some r) i \<longleftrightarrow> members_of r (unat i) \<noteq> {}"
proof (cases "i < type_count r \<and> the (record_member_words r) ! unat i \<noteq> None")
  case True
  then have "record_words_invar b r (unat i)" using inv by (simp add: req_invar_def word_less_nat_alt)
  then show ?thesis
    using True inv by (auto simp: mch_requirements_has_record_members_def record_words_invar_def req_invar_def)
next
  case False
  then show ?thesis
    by (auto simp: mch_requirements_has_record_members_def members_of_def word_less_nat_alt)
qed

lemma contains_record_member_iff:
  assumes inv: "req_invar b r"
  shows "mch_requirements_contains_record_member (Some r) i m \<longleftrightarrow> (unat i, unat m) \<in> req_members r"
proof (cases "mch_requirements_has_record_members (Some r) i")
  case True
  then have i: "i < type_count r" "the (record_member_words r) ! unat i \<noteq> None"
    by (auto simp: mch_requirements_has_record_members_def)
  then have ilt: "unat i < unat (type_count r)" by (simp add: word_less_nat_alt)
  then have "record_words_invar b r (unat i)" using inv by (simp add: req_invar_def)
  then have "bitset_invar (the (record_member_words r) ! unat i) (the (record_member_counts r) ! unat i)"
    using i(2) unfolding record_words_invar_def by metis
  then show ?thesis
    using True i ilt
    by (simp add: mch_requirements_contains_record_member_def bitset_contains_iff req_members_def members_of_def)
next
  case False
  then show ?thesis
    using has_record_members_iff [OF inv, of i]
    by (simp add: mch_requirements_contains_record_member_def req_members_def)
qed

lemma contains_record_member_None [simp]:
  "\<not> mch_requirements_has_record_members None i" "\<not> mch_requirements_contains_record_member None i m"
  "\<not> mch_requirements_contains_type_root None i"
  by (simp_all add: mch_requirements_has_record_members_def mch_requirements_contains_record_member_def
      mch_requirements_contains_type_root_def)

lemma mch_requirements_init_ok:
  assumes "unat n \<le> 2 ^ 32" and "mch_requirements_init n h = (0, r, h')"
  shows "req_invar b r" "req_roots r = {}" "req_members r = {}" "type_count r = n"
proof -
  have wc: "unat (word_count_for_bits n) = (if n = 0 then 1 else (unat n + 63) div 64)"
    using assms(1) by (intro word_count_for_bits_exact) simp
  have r: "r = empty_requirements\<lparr>type_root_words := Some (replicate (unat (word_count_for_bits n)) 0),
      record_member_words := Some (replicate (unat (if n = 0 then 1 else n)) None),
      record_member_counts := Some (replicate (unat (if n = 0 then 1 else n)) 0),
      type_root_words_count := word_count_for_bits n, type_count := n\<rparr>"
    using assms(2) by (auto simp: mch_requirements_init_def heap_calloc_def Let_def split: if_splits)
  have mem: "members_of r i = {}" for i by (auto simp: members_of_def r)
  then show mems: "req_members r = {}" by (simp add: req_members_def)
  show roots: "req_roots r = {}" by (simp add: req_roots_def bitset_elems_def r)
  show "type_count r = n" by (simp add: r)
  have "bitset_invar (type_root_words r) n" using wc by (auto simp: bitset_invar_def r)
  then show "req_invar b r"
    using assms(1) mem roots mems
    by (simp add: req_invar_def trace_invar_def record_words_invar_def req_keys_def)
      (simp add: r empty_requirements_def)
qed

lemma origin_trace_plenty: "\<exists>tr. origin_trace k i m og err plenty = Inr (tr, plenty)"
  by (cases og) (simp_all add: origin_trace_def Let_def)

lemma trace_count_bound:
  assumes "req_invar b r"
  shows "unat (trace_count r) \<le> 2 ^ 32 + 2 ^ 48"
  using assms traces_bound [OF assms] by (simp add: req_invar_def trace_invar_def)

lemma ensure_trace_capacity_plenty:
  assumes "unat (trace_count r) \<le> 2 ^ 32 + 2 ^ 48"
  shows "\<exists>r'. ensure_trace_capacity r err plenty = Inr (r', plenty)"
proof (cases "trace_count r < trace_capacity r \<or> trace_capacity r = 0")
  case True
  then show ?thesis by (auto simp: ensure_trace_capacity_def Let_def)
next
  case False
  then have "trace_capacity r \<le> trace_count r" by (simp add: not_less)
  then have "unat (trace_capacity r) \<le> 2 ^ 32 + 2 ^ 48" using assms by (simp add: word_le_nat_alt)
  then have "unat (trace_capacity r * 2) = unat (trace_capacity r) * 2"
      "unat (trace_capacity r) * 2 \<le> 0xFFFFFFFFFFFFFFFF div 48"
    by (simp_all add: unat_mult_small)
  then have "\<not> trace_capacity r * 2 < trace_capacity r"
      "\<not> trace_capacity r * 2 > 0xFFFFFFFFFFFFFFFF div 48"
    by (simp_all add: word_less_nat_alt unat_div)
  then show ?thesis using False by (simp add: ensure_trace_capacity_def Let_def)
qed

lemma append_trace_plenty:
  assumes "unat (trace_count r) \<le> 2 ^ 32 + 2 ^ 48" and "unat i \<le> 0xFFFFFFFF" and "unat m \<le> 0xFFFFFFFF"
  shows "\<exists>r'. append_trace r k i m og err plenty = Inr (r', plenty)"
proof -
  obtain tr where "origin_trace k i m og err plenty = Inr (tr, plenty)" using origin_trace_plenty by blast
  moreover obtain r' where "ensure_trace_capacity r err plenty = Inr (r', plenty)"
    using ensure_trace_capacity_plenty [OF assms(1)] by blast
  ultimately show ?thesis
    using assms(2,3) by (simp add: append_trace_def word_less_nat_alt not_less)
qed

lemma add_type_root_plenty:
  assumes inv: "req_invar b r" and i: "i < type_count r"
  shows "\<exists>r'. mch_requirements_add_type_root (Some r) i og err plenty = Inr (Some r', plenty)"
proof -
  have "unat i \<le> 0xFFFFFFFF" using inv i by (simp add: req_invar_def word_less_nat_alt)
  then obtain r' where "append_trace r MCH_REQUIREMENT_TRACE_TYPE_ROOT i 0 og err plenty = Inr (r', plenty)"
    using append_trace_plenty [OF trace_count_bound [OF inv], of i 0] by fastforce
  moreover have "type_root_words r \<noteq> None" "\<not> type_count r \<le> i"
    using inv i by (simp_all add: req_invar_def bitset_invar_def)
  ultimately show ?thesis by (simp add: mch_requirements_add_type_root_def)
qed

lemma with_member_words_plenty:
  assumes "unat n < 2 ^ 16"
  shows "\<exists>r1. with_member_words r i n err plenty = Inr (r1, plenty) \<and> trace_count r1 = trace_count r"
proof -
  have "unat (word_count_for_bits n) = (if n = 0 then 1 else (unat n + 63) div 64)"
    using assms by (intro word_count_for_bits_exact) simp
  then have "unat (word_count_for_bits n) * 8 < 2 ^ 64" using assms by auto
  then show ?thesis by (simp add: with_member_words_def heap_calloc_def Let_def)
qed

lemma add_record_member_plenty:
  assumes inv: "req_invar b r" and i: "i < type_count r"
    and t: "type_by_id b (ucast i) = Some t" "is_record_kind (kind t)" and m: "unat m < nvlen t"
  shows "\<exists>r'. mch_requirements_add_record_member b (Some r) i m og err plenty = Inr (Some r', plenty)"
proof -
  have vlen: "unat (ucast (vlen t) :: size_t) < 2 ^ 16" using unat_u16_less [of "vlen t"] by (simp add: word_nat)
  from with_member_words_plenty [OF this] obtain r1 where
    words: "with_member_words r (unat i) (ucast (vlen t)) err plenty = Inr (r1, plenty)"
    "trace_count r1 = trace_count r" by blast
  have "unat i \<le> 0xFFFFFFFF" using inv i by (simp add: req_invar_def word_less_nat_alt)
  moreover have "unat m \<le> 0xFFFFFFFF" using m unat_u16_less [of "vlen t"] by simp
  moreover have "unat (trace_count r1) \<le> 2 ^ 32 + 2 ^ 48" using trace_count_bound [OF inv] words(2) by simp
  ultimately obtain r2 where "append_trace r1 MCH_REQUIREMENT_TRACE_RECORD_MEMBER i m og err plenty
      = Inr (r2, plenty)"
    using append_trace_plenty by blast
  moreover have "\<not> m \<ge> ucast (vlen t)" using m by (simp add: word_le_nat_alt word_nat)
  moreover have "record_member_words r \<noteq> None" "record_member_counts r \<noteq> None" "\<not> i \<ge> type_count r"
    using inv i by (auto simp: req_invar_def)
  ultimately show ?thesis
    using t words(1) by (simp add: mch_requirements_add_record_member_def Let_def)
qed

end
