(* ===== verification/Unique_Search.thy ===== *)
theory Unique_Search
  imports Prelude
begin

text \<open>
  The interface of a search that must find exactly one type of the base BTF: the result says
  that nothing matches, names the one match, or says that there are several. The seed
  extraction relies on it twice, for names and for anonymous enums; both searches of
  \<^verbatim>\<open>src/btf_index.c\<close> interpret it.
\<close>

text \<open>The results 0, 1 (with \<^verbatim>\<open>*type_id\<close>) and -1 of a lookup.\<close>

datatype index_match = No_Match | Match u32 | Ambiguous_Match

locale unique_search =
  fixes search :: "'i \<Rightarrow> 'q \<Rightarrow> index_match option"
    and hits :: "'i \<Rightarrow> 'q \<Rightarrow> u32 set"
    and valid :: "'i \<Rightarrow> bool"
  assumes search_returns: "valid i \<Longrightarrow> \<exists>m. search i q = Some m"
    and no_match_iff: "valid i \<Longrightarrow> search i q = Some No_Match \<longleftrightarrow> hits i q = {}"
    and match_iff: "valid i \<Longrightarrow> search i q = Some (Match t) \<longleftrightarrow> hits i q = {t}"
begin

lemma match_is_hit: "valid i \<Longrightarrow> search i q = Some (Match t) \<Longrightarrow> t \<in> hits i q"
  by (simp add: match_iff)

lemma match_unique: "valid i \<Longrightarrow> search i q = Some (Match t) \<Longrightarrow> s \<in> hits i q \<Longrightarrow> s = t"
  by (simp add: match_iff)

lemma ambiguous_iff:
  assumes "valid i"
  shows "search i q = Some Ambiguous_Match \<longleftrightarrow> (\<exists>s \<in> hits i q. \<exists>t \<in> hits i q. s \<noteq> t)"
proof -
  obtain m where m: "search i q = Some m" using search_returns [OF assms] by blast
  show ?thesis
  proof (cases m)
    case Ambiguous_Match
    have "hits i q \<noteq> {}" using m Ambiguous_Match no_match_iff [OF assms, of q] by auto
    moreover have "hits i q \<noteq> {t}" for t using m Ambiguous_Match match_iff [OF assms, of q t] by auto
    ultimately have "\<exists>s \<in> hits i q. \<exists>t \<in> hits i q. s \<noteq> t" by blast
    with m Ambiguous_Match show ?thesis by simp
  next
    case No_Match
    with m no_match_iff [OF assms, of q] show ?thesis by auto
  next
    case (Match t)
    with m match_iff [OF assms, of q t] show ?thesis by auto
  qed
qed

lemma search_exhaust [consumes 1, case_names none one several]:
  assumes "valid i"
  obtains "search i q = Some No_Match" "hits i q = {}"
    | t where "search i q = Some (Match t)" "hits i q = {t}"
    | s t where "search i q = Some Ambiguous_Match" "s \<in> hits i q" "t \<in> hits i q" "s \<noteq> t"
proof -
  obtain m where "search i q = Some m" using search_returns [OF assms] by blast
  then show ?thesis
    using that no_match_iff [OF assms] match_iff [OF assms] ambiguous_iff [OF assms]
    by (cases m) blast+
qed

end

end
