(* ===== verification/Btf_Index.thy ===== *)
theory Btf_Index
  imports Btf Unique_Search "HOL-Library.While_Combinator"
begin

text \<open>
  \<^verbatim>\<open>src/btf_index.c\<close>: the hash index of the base BTF from a name and a kind to a type
  id, with chained buckets in arrays, and the search for a matching anonymous enum. A search
  follows \<^verbatim>\<open>next\<close> links, so it is a partial function; \<open>index_invar\<close> makes it total.
  The index refines a map from keys to an id or to "ambiguous" (\<open>index_map\<close>); after
  \<open>mch_btf_index_init\<close> the map says how many types of the BTF have the key.
\<close>

subsection \<open>The code\<close>

record mch_btf_index_entry =
  entry_name :: string
  entry_type_id :: u32
  entry_next :: u32
  entry_kind :: btf_kind
  entry_ambiguous :: bool

record mch_btf_index =
  index_btf :: "btf option"
  buckets :: "u32 list option"
  entries :: "mch_btf_index_entry list option"
  bucket_count :: size_t
  entry_count :: size_t

definition MCH_BTF_INDEX_NONE :: u32 where
  "MCH_BTF_INDEX_NONE = 0xFFFFFFFF"

definition is_indexed_kind :: "btf_kind \<Rightarrow> bool" where
  "is_indexed_kind k \<longleftrightarrow> k = BTF_KIND_STRUCT \<or> k = BTF_KIND_UNION \<or> k = BTF_KIND_ENUM
     \<or> k = BTF_KIND_ENUM64 \<or> k = BTF_KIND_TYPEDEF \<or> k = BTF_KIND_FWD"

definition next_power_of_two :: "size_t \<Rightarrow> size_t" where
  "next_power_of_two value =
     (let result = while (\<lambda>r. r < value \<and> r \<le> 0xFFFFFFFFFFFFFFFF div 2) (\<lambda>r. r * 2) 1
      in if result < value then value else result)"

definition hash_name_kind :: "string \<Rightarrow> btf_kind \<Rightarrow> u32" where
  "hash_name_kind name k =
     fold (\<lambda>c hash. (hash XOR of_nat (of_char c)) * 16777619) name
       ((2166136261 XOR (of_nat (kind_number k) AND 0xFF)) * 16777619)"

definition mch_btf_index_init_empty :: mch_btf_index where
  "mch_btf_index_init_empty =
     \<lparr>index_btf = None, buckets = None, entries = None, bucket_count = 0, entry_count = 0\<rparr>"

definition init_buckets :: "size_t \<Rightarrow> u32 list" where
  "init_buckets n = replicate (unat n) 0xFFFFFFFF"

definition bucket_of :: "mch_btf_index \<Rightarrow> string \<Rightarrow> btf_kind \<Rightarrow> u32" where
  "bucket_of idx name k = hash_name_kind name k AND ucast (bucket_count idx - 1)"

text \<open>
  The loop that follows the chain of a bucket; both \<^verbatim>\<open>index_insert\<close> and
  \<^verbatim>\<open>mch_btf_index_lookup\<close> run it.
\<close>

partial_function (option) find_entry ::
    "mch_btf_index_entry list \<Rightarrow> string \<Rightarrow> btf_kind \<Rightarrow> u32 \<Rightarrow> u32 option option" where
  "find_entry es name k entry_id =
     (if entry_id = MCH_BTF_INDEX_NONE then Some None
      else if entry_kind (es ! unat entry_id) = k \<and> entry_name (es ! unat entry_id) = name
      then Some (Some entry_id)
      else find_entry es name k (entry_next (es ! unat entry_id)))"

definition index_insert ::
    "mch_btf_index \<Rightarrow> string \<Rightarrow> btf_kind \<Rightarrow> u32 \<Rightarrow> mch_btf_index option" where
  "index_insert idx name k type_id =
     (let bucket = unat (bucket_of idx name k);
          bs = the (buckets idx); es = the (entries idx); n = entry_count idx
      in map_option
           (\<lambda>found. case found of
              Some i \<Rightarrow> idx\<lparr>entries := Some (es[unat i := (es ! unat i)
                          \<lparr>entry_ambiguous := True, entry_type_id := 0\<rparr>])\<rparr>
            | None \<Rightarrow> idx\<lparr>entries := Some (es[unat n := \<lparr>entry_name = name,
                          entry_type_id = type_id, entry_next = bs ! bucket,
                          entry_kind = k, entry_ambiguous = False\<rparr>]),
                        buckets := Some (bs[bucket := ucast n]),
                        entry_count := n + 1\<rparr>)
           (find_entry es name k (bs ! bucket)))"

fun index_types :: "btf \<Rightarrow> u32 list \<Rightarrow> mch_btf_index \<Rightarrow> mch_btf_index option" where
  "index_types b [] idx = Some idx"
| "index_types b (i # ids) idx =
     (case type_by_id b i of
        None \<Rightarrow> index_types b ids idx
      | Some t \<Rightarrow>
          if \<not> is_indexed_kind (kind t) then index_types b ids idx
          else if mch_btf_type_name b t = [] then index_types b ids idx
          else Option.bind (index_insert idx (mch_btf_type_name b t) (kind t) i)
                 (index_types b ids))"

definition mch_btf_index_init ::
    "btf \<Rightarrow> mch_error \<Rightarrow> heap \<Rightarrow> (mch_btf_index \<times> heap) outcome" where
  "mch_btf_index_init b err h =
     (let entry_capacity = (if type_cnt b > 1 then (ucast (type_cnt b) :: size_t) - 1 else 1);
          too_large = mch_error_set ''base BTF type index is too large'' err
      in if entry_capacity > 0xFFFFFFFF \<or> entry_capacity > 0xFFFFFFFFFFFFFFFF div 2
         then Some (Inl too_large)
         else let bc = next_power_of_two (entry_capacity * 2)
              in if bc > 0xFFFFFFFF then Some (Inl too_large)
                 else let (ok_buckets, h1) = heap_alloc h;
                          (es, h2) = heap_calloc entry_capacity 24
                            \<lparr>entry_name = [], entry_type_id = 0, entry_next = 0,
                             entry_kind = BTF_KIND_UNKN, entry_ambiguous = False\<rparr> h1
                      in if \<not> ok_buckets \<or> es = None
                         then Some (Inl (mch_error_set
                                ''out of memory while building base BTF type index'' err))
                         else map_option (\<lambda>idx. Inr (idx, h2))
                                (index_types b (type_ids b)
                                   \<lparr>index_btf = Some b, buckets = Some (init_buckets bc),
                                    entries = es, bucket_count = bc, entry_count = 0\<rparr>))"

definition mch_btf_index_destroy :: "mch_btf_index \<Rightarrow> mch_btf_index" where
  "mch_btf_index_destroy idx = mch_btf_index_init_empty"

definition mch_btf_index_lookup ::
    "mch_btf_index \<Rightarrow> string \<Rightarrow> btf_kind \<Rightarrow> index_match option" where
  "mch_btf_index_lookup idx name k =
     (if bucket_count idx = 0 \<or> name = [] then Some No_Match
      else let es = the (entries idx)
           in map_option
                (\<lambda>found. case found of
                   None \<Rightarrow> No_Match
                 | Some i \<Rightarrow> if entry_ambiguous (es ! unat i) then Ambiguous_Match
                             else Match (entry_type_id (es ! unat i)))
                (find_entry es name k (the (buckets idx) ! unat (bucket_of idx name k))))"

definition enum_value_matches ::
    "btf \<Rightarrow> btf_type \<Rightarrow> btf \<Rightarrow> btf_type \<Rightarrow> nat \<Rightarrow> bool" where
  "enum_value_matches left_btf left_type right_btf right_type i =
     (if kind left_type = BTF_KIND_ENUM then
        (let l = enum_value left_type i; r = enum_value right_type i;
             left_name = name_by_offset left_btf (e_name_off l);
             right_name = name_by_offset right_btf (e_name_off r)
         in left_name \<noteq> None \<and> right_name \<noteq> None \<and> left_name = right_name \<and> e_val l = e_val r)
      else
        (let l = enum64_value left_type i; r = enum64_value right_type i;
             left_name = name_by_offset left_btf (e64_name_off l);
             right_name = name_by_offset right_btf (e64_name_off r)
         in left_name \<noteq> None \<and> right_name \<noteq> None \<and> left_name = right_name
            \<and> e64_val_lo32 l = e64_val_lo32 r \<and> e64_val_hi32 l = e64_val_hi32 r))"

definition anonymous_enum_matches :: "btf \<Rightarrow> btf_type \<Rightarrow> btf \<Rightarrow> btf_type \<Rightarrow> bool" where
  "anonymous_enum_matches base_btf base_type object_btf object_type =
     (if kind base_type \<noteq> kind object_type \<or> size_or_type base_type \<noteq> size_or_type object_type
         \<or> kflag base_type \<noteq> kflag object_type \<or> vlen base_type \<noteq> vlen object_type
         \<or> mch_btf_type_name base_btf base_type \<noteq> []
      then False
      else list_all (enum_value_matches base_btf base_type object_btf object_type)
             [0..<nvlen object_type])"

fun anonymous_enum_scan ::
    "btf \<Rightarrow> btf \<Rightarrow> btf_type \<Rightarrow> u32 list \<Rightarrow> u32 \<Rightarrow> nat \<Rightarrow> index_match" where
  "anonymous_enum_scan b ob ot [] found matches =
     (if matches = 0 then No_Match else Match found)"
| "anonymous_enum_scan b ob ot (i # ids) found matches =
     (case type_by_id b i of
        None \<Rightarrow> anonymous_enum_scan b ob ot ids found matches
      | Some t \<Rightarrow>
          if \<not> anonymous_enum_matches b t ob ot
          then anonymous_enum_scan b ob ot ids found matches
          else if matches + 1 > 1 then Ambiguous_Match
          else anonymous_enum_scan b ob ot ids i (matches + 1))"

definition mch_btf_index_lookup_anonymous_enum ::
    "mch_btf_index \<Rightarrow> btf \<Rightarrow> btf_type \<Rightarrow> index_match" where
  "mch_btf_index_lookup_anonymous_enum idx ob ot =
     (case index_btf idx of
        None \<Rightarrow> No_Match
      | Some b \<Rightarrow>
          if (kind ot \<noteq> BTF_KIND_ENUM \<and> kind ot \<noteq> BTF_KIND_ENUM64)
             \<or> mch_btf_type_name ob ot \<noteq> []
          then No_Match
          else anonymous_enum_scan b ob ot (type_ids b) 0 0)"


subsection \<open>Sizes\<close>

lemma next_power_of_two_loop:
  assumes "r = while (\<lambda>r. r < v \<and> r \<le> 0xFFFFFFFFFFFFFFFF div 2) (\<lambda>r. r * 2) (1 :: size_t)"
  shows "(\<exists>k \<le> 63. unat r = 2 ^ k) \<and> (unat r = 1 \<or> unat r < 2 * unat v)
    \<and> \<not> (r < v \<and> r \<le> 0x7FFFFFFFFFFFFFFF)"
  unfolding assms
proof (rule while_rule [where P = "\<lambda>r. (\<exists>k \<le> 63. unat r = 2 ^ k) \<and> (unat r = 1 \<or> unat r < 2 * unat v)"
      and r = "measure (\<lambda>r. 2 ^ 64 - unat r)"])
  show "(\<exists>k \<le> 63. unat (1 :: size_t) = 2 ^ k) \<and> (unat (1 :: size_t) = 1 \<or> unat (1 :: size_t) < 2 * unat v)"
    by (auto intro: exI [of _ 0])
next
  fix r :: size_t
  assume inv: "(\<exists>k \<le> 63. unat r = 2 ^ k) \<and> (unat r = 1 \<or> unat r < 2 * unat v)"
    and guard: "r < v \<and> r \<le> 0xFFFFFFFFFFFFFFFF div 2"
  from inv obtain k where k: "unat r = 2 ^ k" by blast
  from guard have r: "unat r \<le> 0x7FFFFFFFFFFFFFFF" "unat r < unat v"
    by (auto simp: word_le_nat_alt word_less_nat_alt)
  then have dbl: "unat (r * 2) = 2 * unat r" by (subst unat_mult_small) auto
  have "(2 :: nat) ^ k < 2 ^ 63" using r(1) k by simp
  then have "k < 63" using power_less_imp_less_exp [of "2 :: nat" k 63] by simp
  then show "(\<exists>k \<le> 63. unat (r * 2) = 2 ^ k) \<and> (unat (r * 2) = 1 \<or> unat (r * 2) < 2 * unat v)"
    using dbl k r(2) by (auto intro!: exI [of _ "Suc k"])
  have "0 < unat r" using k by simp
  then show "(r * 2, r) \<in> measure (\<lambda>r. 2 ^ 64 - unat r)" using dbl r(1) by simp
qed auto

lemma next_power_of_two_exact:
  assumes "unat v \<le> 2 ^ 63"
  shows "\<exists>k \<le> 63. unat (next_power_of_two v) = 2 ^ k \<and> unat v \<le> 2 ^ k \<and> (k = 0 \<or> 2 ^ k < 2 * unat v)"
proof -
  let ?r = "while (\<lambda>r. r < v \<and> r \<le> 0xFFFFFFFFFFFFFFFF div 2) (\<lambda>r. r * 2) (1 :: size_t)"
  note loop = next_power_of_two_loop [OF refl, of v]
  from loop assms have ge: "\<not> ?r < v" by (auto simp: word_le_nat_alt word_less_nat_alt)
  then have "next_power_of_two v = ?r" by (simp add: next_power_of_two_def Let_def)
  with loop ge show ?thesis by (auto simp: word_less_nat_alt)
qed

text \<open>Above 2^63 no power of two fits, and the function gives its argument back.\<close>

lemma next_power_of_two_huge:
  assumes "unat v > 2 ^ 63"
  shows "next_power_of_two v = v"
proof -
  let ?r = "while (\<lambda>r. r < v \<and> r \<le> 0xFFFFFFFFFFFFFFFF div 2) (\<lambda>r. r * 2) (1 :: size_t)"
  from next_power_of_two_loop [OF refl, of v] obtain k where k: "k \<le> 63" "unat ?r = 2 ^ k" by blast
  have "(2 :: nat) ^ k \<le> 2 ^ 63" by (rule power_increasing) (use k in auto)
  with k assms have "?r < v" by (simp add: word_less_nat_alt)
  then show ?thesis by (simp add: next_power_of_two_def Let_def)
qed

subsection \<open>Chains, the invariant and the map\<close>

definition entry_key :: "mch_btf_index_entry \<Rightarrow> string \<times> btf_kind" where
  "entry_key e = (entry_name e, entry_kind e)"

fun chain :: "mch_btf_index_entry list \<Rightarrow> u32 \<Rightarrow> nat list \<Rightarrow> bool" where
  "chain es e [] \<longleftrightarrow> e = MCH_BTF_INDEX_NONE"
| "chain es e (i # is) \<longleftrightarrow> e = of_nat i \<and> i < length es \<and> chain es (entry_next (es ! i)) is"

abbreviation entry_array :: "mch_btf_index \<Rightarrow> mch_btf_index_entry list" where
  "entry_array idx \<equiv> the (entries idx)"

definition live_entries :: "mch_btf_index \<Rightarrow> mch_btf_index_entry list" where
  "live_entries idx = take (unat (entry_count idx)) (entry_array idx)"

definition index_map :: "mch_btf_index \<Rightarrow> string \<times> btf_kind \<rightharpoonup> u32 \<times> bool" where
  "index_map idx = map_of (map (\<lambda>e. (entry_key e, entry_type_id e, entry_ambiguous e)) (live_entries idx))"

definition bucket_members :: "mch_btf_index \<Rightarrow> nat \<Rightarrow> nat list" where
  "bucket_members idx b =
     rev (filter (\<lambda>i. unat (bucket_of idx (entry_name (entry_array idx ! i))
                             (entry_kind (entry_array idx ! i))) = b)
            [0..<unat (entry_count idx)])"

definition index_invar :: "mch_btf_index \<Rightarrow> bool" where
  "index_invar idx \<longleftrightarrow> buckets idx \<noteq> None \<and> entries idx \<noteq> None
     \<and> (\<exists>k \<le> 31. unat (bucket_count idx) = 2 ^ k)
     \<and> length (the (buckets idx)) = unat (bucket_count idx)
     \<and> unat (entry_count idx) \<le> length (entry_array idx)
     \<and> length (entry_array idx) \<le> 0xFFFFFFFF
     \<and> distinct (map entry_key (live_entries idx))
     \<and> (\<forall>b < unat (bucket_count idx).
          chain (entry_array idx) (the (buckets idx) ! b) (bucket_members idx b))"

lemma bucket_of_less:
  assumes "index_invar idx"
  shows "unat (bucket_of idx name k) < unat (bucket_count idx)"
proof -
  from assms obtain j where j: "j \<le> 31" "unat (bucket_count idx) = 2 ^ j"
    by (auto simp: index_invar_def)
  have "(2 :: nat) ^ j \<le> 2 ^ 31" using j(1) by (intro power_increasing) auto
  moreover have "bucket_count idx \<noteq> 0" using j(2) by (metis unat_0 power_not_zero zero_neq_numeral)
  then have minus: "unat (bucket_count idx - 1) = unat (bucket_count idx) - 1"
    by (simp add: unat_minus_one)
  ultimately have u: "unat (ucast (bucket_count idx - 1) :: u32) = unat (bucket_count idx) - 1"
    using j(2) by (subst unat_ucast_u64_u32) auto
  have "bucket_of idx name k \<le> ucast (bucket_count idx - 1)"
    unfolding bucket_of_def by (rule word_and_le1)
  then have "unat (bucket_of idx name k) \<le> unat (bucket_count idx) - 1"
    using u by (simp add: word_le_nat_alt)
  moreover have "0 < unat (bucket_count idx)" using j(2) by simp
  ultimately show ?thesis by linarith
qed

lemma unat_entry_id: "i < length es \<Longrightarrow> length es \<le> 0xFFFFFFFF \<Longrightarrow> unat (of_nat i :: u32) = i"
  by (rule unat_of_nat_small) simp

lemma entry_id_not_none:
  "i < length es \<Longrightarrow> length es \<le> 0xFFFFFFFF \<Longrightarrow> (of_nat i :: u32) \<noteq> MCH_BTF_INDEX_NONE"
proof
  assume i: "i < length es" "length es \<le> 0xFFFFFFFF" and "(of_nat i :: u32) = MCH_BTF_INDEX_NONE"
  then have "unat (of_nat i :: u32) = 0xFFFFFFFF" by (simp add: MCH_BTF_INDEX_NONE_def)
  with unat_entry_id [OF i] i show False by simp
qed

text \<open>A search along a chain visits its members in order and ends.\<close>

lemma find_entry_chain:
  assumes "length es \<le> 0xFFFFFFFF" and "chain es e is"
  shows "find_entry es name k e
    = Some (map_option of_nat (List.find (\<lambda>i. entry_key (es ! i) = (name, k)) is))"
  using assms(2)
proof (induction "is" arbitrary: e)
  case Nil
  then show ?case by (simp add: find_entry.simps)
next
  case (Cons i "is")
  then have i: "e = of_nat i" "i < length es" by auto
  show ?case
    using Cons i entry_id_not_none [OF i(2) assms(1)] unat_entry_id [OF i(2) assms(1)]
    by (subst find_entry.simps) (auto simp: entry_key_def)
qed


lemma live_nth:
  assumes "index_invar idx" and "i < unat (entry_count idx)"
  shows "live_entries idx ! i = entry_array idx ! i" "i < length (live_entries idx)"
  using assms by (auto simp: live_entries_def index_invar_def)

lemma length_live: "index_invar idx \<Longrightarrow> length (live_entries idx) = unat (entry_count idx)"
  by (auto simp: live_entries_def index_invar_def)

lemma in_bucket_members:
  "i \<in> set (bucket_members idx b) \<longleftrightarrow> i < unat (entry_count idx)
    \<and> unat (bucket_of idx (entry_name (entry_array idx ! i)) (entry_kind (entry_array idx ! i))) = b"
  by (auto simp: bucket_members_def)

lemma live_key_inj:
  assumes "index_invar idx" and "i < unat (entry_count idx)" and "j < unat (entry_count idx)"
    and "entry_key (entry_array idx ! i) = entry_key (entry_array idx ! j)"
  shows "i = j"
proof -
  have "distinct (map entry_key (live_entries idx))" using assms(1) by (simp add: index_invar_def)
  moreover have "i < length (map entry_key (live_entries idx))" "j < length (map entry_key (live_entries idx))"
    and "map entry_key (live_entries idx) ! i = map entry_key (live_entries idx) ! j"
    using assms live_nth [OF assms(1)] by auto
  ultimately show ?thesis by (simp only: nth_eq_iff_index_eq)
qed

lemma find_entry_live:
  assumes inv: "index_invar idx"
  shows "find_entry (entry_array idx) name k (the (buckets idx) ! unat (bucket_of idx name k))
    = Some (map_option of_nat
        (List.find (\<lambda>i. entry_key (entry_array idx ! i) = (name, k)) [0..<unat (entry_count idx)]))"
proof -
  let ?b = "unat (bucket_of idx name k)"
  let ?P = "\<lambda>i. entry_key (entry_array idx ! i) = (name, k)"
  have "chain (entry_array idx) (the (buckets idx) ! ?b) (bucket_members idx ?b)"
    and len: "length (entry_array idx) \<le> 0xFFFFFFFF"
    using inv bucket_of_less [OF inv, of name k] by (auto simp: index_invar_def)
  then have find: "find_entry (entry_array idx) name k (the (buckets idx) ! ?b)
      = Some (map_option of_nat (List.find ?P (bucket_members idx ?b)))"
    by (intro find_entry_chain)
  have same: "i \<in> set (bucket_members idx ?b) \<longleftrightarrow> i < unat (entry_count idx)" if "?P i" for i
    using that by (auto simp: in_bucket_members entry_key_def)
  show ?thesis
  proof (cases "\<exists>i < unat (entry_count idx). ?P i")
    case False
    then have "List.find ?P (bucket_members idx ?b) = None"
      and "List.find ?P [0..<unat (entry_count idx)] = None"
      using in_bucket_members by (auto simp: find_None_iff)
    then show ?thesis using find by simp
  next
    case True
    then obtain i where i: "i < unat (entry_count idx)" "?P i" by blast
    have uniq: "j = i" if "j < unat (entry_count idx)" "?P j" for j
      using live_key_inj [OF inv that(1) i(1)] that(2) i(2) by simp
    have "List.find ?P xs = Some i" if "i \<in> set xs" "\<forall>j \<in> set xs. j < unat (entry_count idx)" for xs
      using that i(2) uniq by (induction xs) auto
    moreover have "\<forall>j \<in> set (bucket_members idx ?b). j < unat (entry_count idx)"
      by (simp add: in_bucket_members)
    ultimately show ?thesis using find i same by (metis atLeastLessThan_iff le0 set_upt)
  qed
qed

lemma index_map_Some:
  assumes "index_invar idx"
  shows "index_map idx key = Some v \<longleftrightarrow> (\<exists>i < unat (entry_count idx).
    entry_key (entry_array idx ! i) = key
    \<and> v = (entry_type_id (entry_array idx ! i), entry_ambiguous (entry_array idx ! i)))"
proof -
  have "distinct (map fst (map (\<lambda>e. (entry_key e, entry_type_id e, entry_ambiguous e)) (live_entries idx)))"
    using assms by (simp add: index_invar_def o_def)
  then have "index_map idx key = Some v \<longleftrightarrow>
      (\<exists>e \<in> set (live_entries idx). key = entry_key e \<and> v = (entry_type_id e, entry_ambiguous e))"
    unfolding index_map_def by (subst map_of_eq_Some_iff) auto
  also have "\<dots> \<longleftrightarrow> (\<exists>i < unat (entry_count idx). key = entry_key (live_entries idx ! i)
      \<and> v = (entry_type_id (live_entries idx ! i), entry_ambiguous (live_entries idx ! i)))"
    by (metis in_set_conv_nth length_live [OF assms])
  also have "\<dots> \<longleftrightarrow> (\<exists>i < unat (entry_count idx). entry_key (entry_array idx ! i) = key
      \<and> v = (entry_type_id (entry_array idx ! i), entry_ambiguous (entry_array idx ! i)))"
    using live_nth(1) [OF assms] by metis
  finally show ?thesis .
qed

lemma index_map_None:
  assumes "index_invar idx"
  shows "index_map idx key = None \<longleftrightarrow>
    (\<forall>i < unat (entry_count idx). entry_key (entry_array idx ! i) \<noteq> key)"
  using index_map_Some [OF assms, of key] by (metis not_Some_eq)

lemma find_live_cases [consumes 1, case_names absent present]:
  assumes inv: "index_invar idx"
  obtains (absent) "List.find (\<lambda>i. entry_key (entry_array idx ! i) = (name, k)) [0..<unat (entry_count idx)] = None"
      "index_map idx (name, k) = None"
    | (present) i where "i < unat (entry_count idx)" "entry_key (entry_array idx ! i) = (name, k)"
      "List.find (\<lambda>i. entry_key (entry_array idx ! i) = (name, k)) [0..<unat (entry_count idx)] = Some i"
      "index_map idx (name, k) = Some (entry_type_id (entry_array idx ! i), entry_ambiguous (entry_array idx ! i))"
proof (cases "List.find (\<lambda>i. entry_key (entry_array idx ! i) = (name, k)) [0..<unat (entry_count idx)]")
  case None
  then show ?thesis using absent by (auto simp: find_None_iff index_map_None [OF inv])
next
  case (Some i)
  then have i: "i < unat (entry_count idx)" "entry_key (entry_array idx ! i) = (name, k)"
    by (auto simp: find_Some_iff)
  then have "index_map idx (name, k)
      = Some (entry_type_id (entry_array idx ! i), entry_ambiguous (entry_array idx ! i))"
    using index_map_Some [OF inv] by blast
  with i Some show ?thesis by (rule present)
qed

text \<open>A lookup in a valid index returns, and answers what the map says.\<close>

definition match_of :: "(u32 \<times> bool) option \<Rightarrow> index_match" where
  "match_of r = (case r of None \<Rightarrow> No_Match
     | Some (i, amb) \<Rightarrow> if amb then Ambiguous_Match else Match i)"

lemma mch_btf_index_lookup_map:
  assumes inv: "index_invar idx" and "name \<noteq> []"
  shows "mch_btf_index_lookup idx name k = Some (match_of (index_map idx (name, k)))"
proof -
  have "unat (bucket_count idx) \<noteq> 0" using inv by (auto simp: index_invar_def)
  then have "bucket_count idx \<noteq> 0" by auto
  moreover have "unat (of_nat i :: u32) = i" if "i < unat (entry_count idx)" for i
    using inv that by (intro unat_entry_id [of i "entry_array idx"]) (auto simp: index_invar_def)
  ultimately show ?thesis
    using assms(2) find_entry_live [OF inv, of name k]
    by (cases rule: find_live_cases [OF inv, of name k])
      (auto simp: mch_btf_index_lookup_def match_of_def Let_def)
qed


subsection \<open>Insertion\<close>

lemma chain_cong:
  assumes "chain es e is" and "length es' = length es"
    and "\<forall>i \<in> set is. entry_next (es' ! i) = entry_next (es ! i)"
  shows "chain es' e is"
  using assms by (induction "is" arbitrary: e) auto

definition mark_entry :: "mch_btf_index \<Rightarrow> nat \<Rightarrow> mch_btf_index" where
  "mark_entry idx i = idx\<lparr>entries := Some ((entry_array idx)[i := (entry_array idx ! i)
     \<lparr>entry_ambiguous := True, entry_type_id := 0\<rparr>])\<rparr>"

definition append_entry :: "mch_btf_index \<Rightarrow> string \<Rightarrow> btf_kind \<Rightarrow> u32 \<Rightarrow> mch_btf_index" where
  "append_entry idx name k type_id =
     (let bucket = unat (bucket_of idx name k); n = entry_count idx
      in idx\<lparr>entries := Some ((entry_array idx)[unat n := \<lparr>entry_name = name, entry_type_id = type_id,
              entry_next = the (buckets idx) ! bucket, entry_kind = k, entry_ambiguous = False\<rparr>]),
            buckets := Some ((the (buckets idx))[bucket := ucast n]), entry_count := n + 1\<rparr>)"

lemma mark_entry_simps [simp]:
  "index_btf (mark_entry idx i) = index_btf idx" "buckets (mark_entry idx i) = buckets idx"
  "bucket_count (mark_entry idx i) = bucket_count idx" "entry_count (mark_entry idx i) = entry_count idx"
  "length (entry_array (mark_entry idx i)) = length (entry_array idx)"
  "bucket_of (mark_entry idx i) = bucket_of idx"
  by (auto simp: mark_entry_def bucket_of_def fun_eq_iff)

lemma mark_entry_nth:
  assumes "j < length (entry_array idx)"
  shows "entry_key (entry_array (mark_entry idx i) ! j) = entry_key (entry_array idx ! j)"
    "entry_next (entry_array (mark_entry idx i) ! j) = entry_next (entry_array idx ! j)"
    "entry_name (entry_array (mark_entry idx i) ! j) = entry_name (entry_array idx ! j)"
    "entry_kind (entry_array (mark_entry idx i) ! j) = entry_kind (entry_array idx ! j)"
    "entry_type_id (entry_array (mark_entry idx i) ! j)
      = (if j = i then 0 else entry_type_id (entry_array idx ! j))"
    "entry_ambiguous (entry_array (mark_entry idx i) ! j)
      = (j = i \<or> entry_ambiguous (entry_array idx ! j))"
  using assms by (cases "j = i"; simp add: mark_entry_def entry_key_def)+

lemma mark_entry_invar:
  assumes inv: "index_invar idx"
  shows "index_invar (mark_entry idx i)"
proof -
  have n: "unat (entry_count idx) \<le> length (entry_array idx)" using inv by (simp add: index_invar_def)
  have nth: "j < length (entry_array idx)" if "j < unat (entry_count idx)" for j
    using that n by simp
  have same: "map entry_key (live_entries (mark_entry idx i)) = map entry_key (live_entries idx)"
    by (rule nth_equalityI) (simp_all add: live_entries_def mark_entry_nth(1))
  have mem: "bucket_members (mark_entry idx i) b = bucket_members idx b" for b
    unfolding bucket_members_def mark_entry_simps
    by (rule arg_cong [of _ _ rev], rule filter_cong [OF refl])
      (simp add: mark_entry_nth(3,4) [OF nth])
  have "chain (entry_array (mark_entry idx i)) (the (buckets idx) ! b) (bucket_members idx b)"
    if "b < unat (bucket_count idx)" for b
  proof (rule chain_cong)
    show "chain (entry_array idx) (the (buckets idx) ! b) (bucket_members idx b)"
      using inv that by (simp add: index_invar_def)
    show "\<forall>j \<in> set (bucket_members idx b).
        entry_next (entry_array (mark_entry idx i) ! j) = entry_next (entry_array idx ! j)"
      by (simp add: in_bucket_members mark_entry_nth(2) [OF nth])
  qed simp
  moreover have "entries (mark_entry idx i) \<noteq> None" by (simp add: mark_entry_def)
  ultimately show ?thesis using inv same mem by (simp add: index_invar_def)
qed

lemma mark_entry_map:
  assumes inv: "index_invar idx" and i: "i < unat (entry_count idx)"
  shows "index_map (mark_entry idx i) = (index_map idx)(entry_key (entry_array idx ! i) \<mapsto> (0, True))"
proof
  fix key
  have n: "unat (entry_count idx) \<le> length (entry_array idx)" using inv by (simp add: index_invar_def)
  have some: "index_map (mark_entry idx i) key = Some v \<longleftrightarrow>
      ((index_map idx)(entry_key (entry_array idx ! i) \<mapsto> (0, True))) key = Some v" for v
  proof (cases "key = entry_key (entry_array idx ! i)")
    case True
    have "j = i" if "j < unat (entry_count idx)" "entry_key (entry_array idx ! j) = key" for j
      using live_key_inj [OF inv that(1) i] that(2) True by simp
    with True show ?thesis
      using i n by (auto simp: index_map_Some [OF mark_entry_invar [OF inv]] mark_entry_nth)
  next
    case False
    then show ?thesis
      using i n by (auto simp: index_map_Some [OF mark_entry_invar [OF inv]] index_map_Some [OF inv]
          mark_entry_nth)
  qed
  show "index_map (mark_entry idx i) key
      = ((index_map idx)(entry_key (entry_array idx ! i) \<mapsto> (0, True))) key"
    using some by (metis option.exhaust)
qed


lemma append_entry_simps [simp]:
  "index_btf (append_entry idx name k i) = index_btf idx"
  "bucket_count (append_entry idx name k i) = bucket_count idx"
  "entry_count (append_entry idx name k i) = entry_count idx + 1"
  "length (entry_array (append_entry idx name k i)) = length (entry_array idx)"
  "bucket_of (append_entry idx name k i) = bucket_of idx"
  by (auto simp: append_entry_def bucket_of_def fun_eq_iff Let_def)

lemma append_entry_nth:
  assumes "j < length (entry_array idx)"
  shows "entry_array (append_entry idx name k i) ! j
    = (if j = unat (entry_count idx)
       then \<lparr>entry_name = name, entry_type_id = i,
             entry_next = the (buckets idx) ! unat (bucket_of idx name k),
             entry_kind = k, entry_ambiguous = False\<rparr>
       else entry_array idx ! j)"
  using assms by (auto simp: append_entry_def Let_def)

lemma append_entry_count:
  assumes "index_invar idx" and "unat (entry_count idx) < length (entry_array idx)"
  shows "unat (entry_count idx + 1) = Suc (unat (entry_count idx))"
proof -
  have "unat (entry_count idx) < 0xFFFFFFFF" using assms by (simp add: index_invar_def)
  then show ?thesis
    using unat_increment [of "entry_count idx" "0xFFFFFFFF"] by (simp add: word_less_nat_alt)
qed

lemma append_entry_members:
  assumes inv: "index_invar idx" and room: "unat (entry_count idx) < length (entry_array idx)"
  shows "bucket_members (append_entry idx name k i) b
    = (if unat (bucket_of idx name k) = b then [unat (entry_count idx)] else []) @ bucket_members idx b"
proof -
  let ?idx = "append_entry idx name k i" and ?n = "unat (entry_count idx)"
  have n: "[0..<unat (entry_count idx + 1)] = [0..<?n] @ [?n]"
    using append_entry_count [OF assms] by simp
  have old: "entry_array ?idx ! j = entry_array idx ! j" if "j < ?n" for j
    using that room by (simp add: append_entry_nth)
  have new: "entry_name (entry_array ?idx ! ?n) = name" "entry_kind (entry_array ?idx ! ?n) = k"
    using room by (simp_all add: append_entry_nth)
  have "filter (\<lambda>j. unat (bucket_of idx (entry_name (entry_array ?idx ! j)) (entry_kind (entry_array ?idx ! j))) = b) [0..<?n]
      = filter (\<lambda>j. unat (bucket_of idx (entry_name (entry_array idx ! j)) (entry_kind (entry_array idx ! j))) = b) [0..<?n]"
    by (rule filter_cong [OF refl]) (simp add: old)
  then show ?thesis by (simp only: bucket_members_def n append_entry_simps) (simp add: new)
qed

lemma append_entry_live:
  assumes inv: "index_invar idx" and room: "unat (entry_count idx) < length (entry_array idx)"
  shows "live_entries (append_entry idx name k i) = live_entries idx @
    [\<lparr>entry_name = name, entry_type_id = i,
      entry_next = the (buckets idx) ! unat (bucket_of idx name k),
      entry_kind = k, entry_ambiguous = False\<rparr>]"
  using append_entry_count [OF assms] room
  by (simp add: live_entries_def append_entry_def Let_def take_Suc_conv_app_nth)

lemma append_entry_invar:
  assumes inv: "index_invar idx" and room: "unat (entry_count idx) < length (entry_array idx)"
    and absent: "index_map idx (name, k) = None"
  shows "index_invar (append_entry idx name k i)"
proof -
  let ?idx = "append_entry idx name k i" and ?n = "unat (entry_count idx)"
    and ?bk = "unat (bucket_of idx name k)"
  have lens: "length (entry_array idx) \<le> 0xFFFFFFFF" using inv by (simp add: index_invar_def)
  have keys: "(name, k) \<notin> entry_key ` set (live_entries idx)"
    using absent index_map_None [OF inv] live_nth [OF inv] length_live [OF inv]
    by (auto simp: in_set_conv_nth image_iff) metis
  have old: "chain (entry_array ?idx) (the (buckets idx) ! b) (bucket_members idx b)"
    if "b < unat (bucket_count idx)" for b
  proof (rule chain_cong)
    show "chain (entry_array idx) (the (buckets idx) ! b) (bucket_members idx b)"
      using inv that by (simp add: index_invar_def)
    show "\<forall>j \<in> set (bucket_members idx b).
        entry_next (entry_array ?idx ! j) = entry_next (entry_array idx ! j)"
      using room by (simp add: in_bucket_members append_entry_nth)
  qed simp
  have chains: "chain (entry_array ?idx) (the (buckets ?idx) ! b) (bucket_members ?idx b)"
    if b: "b < unat (bucket_count idx)" for b
  proof (cases "?bk = b")
    case False
    then have "the (buckets ?idx) ! b = the (buckets idx) ! b" by (simp add: append_entry_def Let_def)
    with False old [OF b] show ?thesis by (simp add: append_entry_members [OF inv room])
  next
    case True
    have "b < length (the (buckets idx))" using b inv by (simp add: index_invar_def)
    then have "the (buckets ?idx) ! b = ucast (entry_count idx)"
      using True by (simp add: append_entry_def Let_def)
    also have "\<dots> = (of_nat ?n :: u32)" by simp
    finally show ?thesis
      using True old [OF b] room
      by (simp add: append_entry_members [OF inv room] append_entry_nth)
  qed
  have "entries ?idx \<noteq> None" "buckets ?idx \<noteq> None"
    "length (the (buckets ?idx)) = length (the (buckets idx))"
    by (simp_all add: append_entry_def Let_def)
  then show ?thesis
    using inv keys chains room append_entry_count [OF inv room]
    by (simp add: index_invar_def append_entry_live [OF inv room] entry_key_def)
qed

lemma append_entry_map:
  assumes inv: "index_invar idx" and room: "unat (entry_count idx) < length (entry_array idx)"
    and absent: "index_map idx (name, k) = None"
  shows "index_map (append_entry idx name k i) = (index_map idx)((name, k) \<mapsto> (i, False))"
  using absent
  by (auto simp: index_map_def append_entry_live [OF inv room] entry_key_def fun_eq_iff map_add_def
      split: option.splits)


text \<open>One insertion: the map records the first id of a key, and marks the key from the second on.\<close>

definition note_key :: "(string \<times> btf_kind \<rightharpoonup> u32 \<times> bool) \<Rightarrow> string \<times> btf_kind \<Rightarrow> u32
    \<Rightarrow> (string \<times> btf_kind \<rightharpoonup> u32 \<times> bool)" where
  "note_key m key i = m(key \<mapsto> (case m key of None \<Rightarrow> (i, False) | Some _ \<Rightarrow> (0, True)))"

lemma index_insert_spec:
  assumes inv: "index_invar idx" and room: "unat (entry_count idx) < length (entry_array idx)"
  obtains idx' where "index_insert idx name k i = Some idx'" "index_invar idx'"
    "index_map idx' = note_key (index_map idx) (name, k) i"
    "length (entry_array idx') = length (entry_array idx)" "index_btf idx' = index_btf idx"
    "unat (entry_count idx') \<le> Suc (unat (entry_count idx))"
  using inv
proof (cases rule: find_live_cases [where name = name and k = k])
  case absent
  then have "index_insert idx name k i = Some (append_entry idx name k i)"
    using find_entry_live [OF inv, of name k]
    by (simp add: index_insert_def append_entry_def Let_def)
  then show ?thesis
    using append_entry_invar [OF inv room absent(2)] append_entry_map [OF inv room absent(2)]
      append_entry_count [OF inv room] absent(2)
    by (intro that [of "append_entry idx name k i"]) (simp_all add: note_key_def)
next
  case (present j)
  have "unat (of_nat j :: u32) = j"
    using inv present(1) by (intro unat_entry_id [of j "entry_array idx"]) (auto simp: index_invar_def)
  then have "index_insert idx name k i = Some (mark_entry idx j)"
    using find_entry_live [OF inv, of name k] present(3)
    by (simp add: index_insert_def mark_entry_def Let_def)
  then show ?thesis
    using mark_entry_invar [OF inv] mark_entry_map [OF inv present(1)] present(2,4)
    by (intro that [of "mark_entry idx j"]) (simp_all add: note_key_def)
qed

subsection \<open>The index of a BTF\<close>

text \<open>The key under which \<^verbatim>\<open>mch_btf_index_init\<close> files a type, if it files it at all.\<close>

definition index_key :: "btf \<Rightarrow> u32 \<Rightarrow> (string \<times> btf_kind) option" where
  "index_key b i = (case type_by_id b i of None \<Rightarrow> None
     | Some t \<Rightarrow> if is_indexed_kind (kind t) \<and> mch_btf_type_name b t \<noteq> []
                 then Some (mch_btf_type_name b t, kind t) else None)"

text \<open>What a lookup promises for a key: the ids of the base BTF that carry it.\<close>

definition candidates :: "btf \<Rightarrow> string \<Rightarrow> btf_kind \<Rightarrow> u32 set" where
  "candidates b name k = {i \<in> set (type_ids b). index_key b i = Some (name, k)}"

fun summary :: "u32 list \<Rightarrow> (u32 \<times> bool) option" where
  "summary [] = None"
| "summary [i] = Some (i, False)"
| "summary _ = Some (0, True)"

definition index_for :: "btf \<Rightarrow> mch_btf_index \<Rightarrow> bool" where
  "index_for b idx \<longleftrightarrow> index_invar idx \<and> index_btf idx = Some b
     \<and> (\<forall>key. index_map idx key = summary (filter (\<lambda>i. index_key b i = Some key) (type_ids b)))"

lemma summary_snoc: "summary (xs @ [i]) = Some (case summary xs of None \<Rightarrow> (i, False) | Some _ \<Rightarrow> (0, True))"
proof (cases xs)
  case (Cons x ys)
  then show ?thesis by (cases ys) (auto split: list.split)
qed simp

lemma index_types_spec:
  assumes "index_invar idx" and "unat (entry_count idx) + length ids \<le> length (entry_array idx)"
    and "\<forall>key. index_map idx key = summary (filter (\<lambda>i. index_key b i = Some key) done)"
  shows "\<exists>idx'. index_types b ids idx = Some idx' \<and> index_invar idx' \<and> index_btf idx' = index_btf idx
    \<and> (\<forall>key. index_map idx' key = summary (filter (\<lambda>i. index_key b i = Some key) (done @ ids)))"
  using assms
proof (induction ids arbitrary: idx "done")
  case Nil
  then show ?case by simp
next
  case (Cons i ids)
  have room: "unat (entry_count idx) < length (entry_array idx)" using Cons.prems(2) by simp
  show ?case
  proof (cases "index_key b i")
    case None
    then have skip: "index_types b (i # ids) idx = index_types b ids idx"
      by (auto simp: index_key_def split: option.splits if_splits)
    have "\<forall>key. index_map idx key = summary (filter (\<lambda>i. index_key b i = Some key) (done @ [i]))"
      using Cons.prems(3) None by simp
    with Cons.IH [OF Cons.prems(1) _ this] Cons.prems(2) skip show ?thesis by simp
  next
    case (Some key)
    then obtain t where t: "type_by_id b i = Some t" "is_indexed_kind (kind t)"
        "mch_btf_type_name b t \<noteq> []" "key = (mch_btf_type_name b t, kind t)"
      by (auto simp: index_key_def split: option.splits if_splits)
    obtain idx' where idx': "index_insert idx (mch_btf_type_name b t) (kind t) i = Some idx'"
        "index_invar idx'" "index_map idx' = note_key (index_map idx) key i"
        "length (entry_array idx') = length (entry_array idx)" "index_btf idx' = index_btf idx"
        "unat (entry_count idx') \<le> Suc (unat (entry_count idx))"
      using index_insert_spec [OF Cons.prems(1) room] t(4) by metis
    have "\<forall>key. index_map idx' key = summary (filter (\<lambda>i. index_key b i = Some key) (done @ [i]))"
      using Cons.prems(3) Some idx'(3) by (auto simp: note_key_def summary_snoc)
    moreover have "unat (entry_count idx') + length ids \<le> length (entry_array idx')"
      using Cons.prems(2) idx'(4,6) by simp
    ultimately have "\<exists>idx''. index_types b ids idx' = Some idx'' \<and> index_invar idx''
        \<and> index_btf idx'' = index_btf idx'
        \<and> (\<forall>key. index_map idx'' key = summary (filter (\<lambda>i. index_key b i = Some key) ((done @ [i]) @ ids)))"
      by (intro Cons.IH idx'(2))
    then show ?thesis using t idx'(1,5) by simp
  qed
qed


lemma match_of_summary:
  assumes "distinct xs"
  shows "match_of (summary xs) = No_Match \<longleftrightarrow> set xs = {}"
    and "match_of (summary xs) = Match i \<longleftrightarrow> set xs = {i}"
  using assms by (induction xs rule: summary.induct) (auto simp: match_of_def)

lemma mch_btf_index_lookup_candidates:
  assumes "index_for b idx"
  shows "\<exists>m. mch_btf_index_lookup idx name k = Some m"
    and "mch_btf_index_lookup idx name k = Some No_Match \<longleftrightarrow> candidates b name k = {}"
    and "mch_btf_index_lookup idx name k = Some (Match i) \<longleftrightarrow> candidates b name k = {i}"
proof -
  let ?xs = "filter (\<lambda>i. index_key b i = Some (name, k)) (type_ids b)"
  have "mch_btf_index_lookup idx name k = Some (match_of (summary ?xs))"
  proof (cases "name = []")
    case True
    then have "index_key b i \<noteq> Some (name, k)" for i
      by (auto simp: index_key_def split: option.splits)
    then have "?xs = []" by simp
    then show ?thesis using True by (simp add: mch_btf_index_lookup_def match_of_def del: filter_False)
  next
    case False
    then show ?thesis
      using assms mch_btf_index_lookup_map [of idx name k] by (simp add: index_for_def)
  qed
  moreover have "distinct ?xs" by (simp add: distinct_type_ids)
  moreover have "set ?xs = candidates b name k" by (auto simp: candidates_def)
  ultimately show "\<exists>m. mch_btf_index_lookup idx name k = Some m"
    "mch_btf_index_lookup idx name k = Some No_Match \<longleftrightarrow> candidates b name k = {}"
    "mch_btf_index_lookup idx name k = Some (Match i) \<longleftrightarrow> candidates b name k = {i}"
    using match_of_summary [of ?xs] by simp_all
qed

lemma index_capacity:
  shows "unat (if type_cnt b > 1 then (ucast (type_cnt b) :: size_t) - 1 else 1)
    = max 1 (unat (type_cnt b) - 1)"
proof (cases "type_cnt b > 1")
  case True
  then have gt: "1 < unat (type_cnt b)" by (simp add: word_less_nat_alt)
  then have "(ucast (type_cnt b) :: size_t) \<noteq> 0"
    by (metis less_nat_zero_code unat_0 unat_ucast_u32_u64)
  then have "unat ((ucast (type_cnt b) :: size_t) - 1) = unat (type_cnt b) - 1"
    by (simp add: unat_minus_one word_nat)
  with True gt show ?thesis by simp
next
  case False
  then show ?thesis by (simp add: word_less_nat_alt not_less)
qed

lemma fresh_index_for:
  assumes "k \<le> 31" and "unat bc = 2 ^ k" and "length es \<le> 0xFFFFFFFF"
    and idx: "idx = \<lparr>index_btf = Some b, buckets = Some (init_buckets bc), entries = Some es,
      bucket_count = bc, entry_count = 0\<rparr>"
  shows "index_invar idx" "index_map idx = Map.empty"
  using assms(1-3)
  by (auto simp: idx index_invar_def index_map_def live_entries_def bucket_members_def
      init_buckets_def MCH_BTF_INDEX_NONE_def)

lemma mch_btf_index_init_cases:
  shows "mch_btf_index_init b err h =
      (if unat (type_cnt b) > 2 ^ 30 + 1
       then Some (Inl (mch_error_set ''base BTF type index is too large'' err))
       else if \<not> shd h \<or> \<not> shd (stl h)
       then Some (Inl (mch_error_set ''out of memory while building base BTF type index'' err))
       else mch_btf_index_init b err h)"
    and "unat (type_cnt b) \<le> 2 ^ 30 + 1 \<Longrightarrow> shd h \<Longrightarrow> shd (stl h) \<Longrightarrow>
      \<exists>idx. mch_btf_index_init b err h = Some (Inr (idx, stl (stl h))) \<and> index_for b idx"
proof -
  define cap :: size_t where "cap = (if type_cnt b > 1 then ucast (type_cnt b) - 1 else 1)"
  have cap: "unat cap = max 1 (unat (type_cnt b) - 1)" unfolding cap_def by (rule index_capacity)
  have small: "unat cap \<le> 0xFFFFFFFE" "1 \<le> unat cap" using cap unat_u32_less [of "type_cnt b"] by auto
  have dbl: "unat (cap * 2) = 2 * unat cap" using small by (subst unat_mult_small) auto
  obtain k where k: "k \<le> 63" "unat (next_power_of_two (cap * 2)) = 2 ^ k" "2 * unat cap \<le> 2 ^ k"
      "k = 0 \<or> (2 :: nat) ^ k < 4 * unat cap"
    using next_power_of_two_exact [of "cap * 2"] small dbl by auto
  have big: "\<not> (cap > 0xFFFFFFFF \<or> cap > 0xFFFFFFFFFFFFFFFF div 2)"
    using small by (simp add: word_less_nat_alt)
  have large: "next_power_of_two (cap * 2) > 0xFFFFFFFF \<longleftrightarrow> unat cap > 2 ^ 30"
  proof
    assume "next_power_of_two (cap * 2) > 0xFFFFFFFF"
    then have "(2 :: nat) ^ k > 0xFFFFFFFF" using k(2) by (simp add: word_less_nat_alt)
    then have "(2 :: nat) ^ 32 \<le> 2 ^ k"
      by (intro power_increasing) (rule ccontr, use power_increasing [of k 31 "2 :: nat"] in auto)
    with k(4) show "unat cap > 2 ^ 30" by (cases "k = 0") auto
  next
    assume "unat cap > 2 ^ 30"
    with k(3) have "(2 :: nat) ^ 31 < 2 ^ k" by simp
    then have "31 < k" by (rule power_less_imp_less_exp [rotated]) simp
    then have "(2 :: nat) ^ 32 \<le> 2 ^ k" by (intro power_increasing) auto
    with k(2) show "next_power_of_two (cap * 2) > 0xFFFFFFFF" by (simp add: word_less_nat_alt)
  qed
  have cnt: "unat cap > 2 ^ 30 \<longleftrightarrow> unat (type_cnt b) > 2 ^ 30 + 1" unfolding cap by auto
  have noovf: "unat cap * 24 < 2 ^ 64" using small by simp
  note unfolded = mch_btf_index_init_def [of b err h, folded cap_def]
  show "mch_btf_index_init b err h =
      (if unat (type_cnt b) > 2 ^ 30 + 1
       then Some (Inl (mch_error_set ''base BTF type index is too large'' err))
       else if \<not> shd h \<or> \<not> shd (stl h)
       then Some (Inl (mch_error_set ''out of memory while building base BTF type index'' err))
       else mch_btf_index_init b err h)"
    using big large cnt noovf
    by (auto simp: unfolded Let_def heap_alloc_def heap_calloc_def)
  assume ok: "unat (type_cnt b) \<le> 2 ^ 30 + 1" "shd h" "shd (stl h)"
  have k31: "k \<le> 31"
  proof (rule ccontr)
    assume "\<not> k \<le> 31"
    then have "(2 :: nat) ^ 32 \<le> 2 ^ k" by (intro power_increasing) auto
    with k(4) ok(1) cap \<open>\<not> k \<le> 31\<close> show False by auto
  qed
  define e0 where "e0 = \<lparr>entry_name = [], entry_type_id = 0, entry_next = 0,
    entry_kind = BTF_KIND_UNKN, entry_ambiguous = False\<rparr>"
  define idx0 where "idx0 = \<lparr>index_btf = Some b,
    buckets = Some (init_buckets (next_power_of_two (cap * 2))),
    entries = Some (replicate (unat cap) e0), bucket_count = next_power_of_two (cap * 2), entry_count = 0\<rparr>"
  have fresh: "index_invar idx0" "index_map idx0 = Map.empty"
    using fresh_index_for [OF k31 k(2), of "replicate (unat cap) e0" idx0 b] small
    by (auto simp: idx0_def)
  have "mch_btf_index_init b err h
      = map_option (\<lambda>idx. Inr (idx, stl (stl h))) (index_types b (type_ids b) idx0)"
    using ok big large cnt noovf
    by (simp add: unfolded Let_def heap_alloc_def heap_calloc_def idx0_def e0_def)
  moreover have "\<exists>idx'. index_types b (type_ids b) idx0 = Some idx' \<and> index_invar idx'
      \<and> index_btf idx' = index_btf idx0
      \<and> (\<forall>key. index_map idx' key = summary (filter (\<lambda>i. index_key b i = Some key) ([] @ type_ids b)))"
    by (rule index_types_spec [OF fresh(1)])
      (use fresh(2) cap in \<open>auto simp: idx0_def length_type_ids\<close>)
  ultimately show "\<exists>idx. mch_btf_index_init b err h = Some (Inr (idx, stl (stl h))) \<and> index_for b idx"
    by (auto simp: index_for_def idx0_def)
qed

text \<open>An index that the program has built for a BTF.\<close>

definition built_index :: "btf \<Rightarrow> mch_btf_index \<Rightarrow> bool" where
  "built_index b idx \<longleftrightarrow> (\<exists>err h h'. mch_btf_index_init b err h = Some (Inr (idx, h')))"

lemma built_index_for: "built_index b idx \<Longrightarrow> index_for b idx"
proof -
  assume "built_index b idx"
  then obtain err h h' where init: "mch_btf_index_init b err h = Some (Inr (idx, h'))"
    by (auto simp: built_index_def)
  have "unat (type_cnt b) \<le> 2 ^ 30 + 1 \<and> shd h \<and> shd (stl h)"
    using init mch_btf_index_init_cases(1) [of b err h] by (auto split: if_splits)
  with mch_btf_index_init_cases(2) [of b h err] init show "index_for b idx" by auto
qed

lemma built_index_exists: "unat (type_cnt b) \<le> 2 ^ 30 + 1 \<Longrightarrow> \<exists>idx. built_index b idx"
  using mch_btf_index_init_cases(2) [of b plenty undefined] by (fastforce simp: built_index_def)

interpretation by_name: unique_search "\<lambda>idx (name, k). mch_btf_index_lookup idx name k"
  "\<lambda>idx (name, k). candidates (the (index_btf idx)) name k" "\<lambda>idx. \<exists>b. index_for b idx"
proof
  fix idx :: mch_btf_index and q :: "string \<times> btf_kind" and t
  obtain name k where q: "q = (name, k)" by fastforce
  assume "\<exists>b. index_for b idx"
  then have valid: "index_for (the (index_btf idx)) idx" by (auto simp: index_for_def)
  note facts = mch_btf_index_lookup_candidates [OF valid]
  show "\<exists>m. (case q of (name, k) \<Rightarrow> mch_btf_index_lookup idx name k) = Some m"
    and "(case q of (name, k) \<Rightarrow> mch_btf_index_lookup idx name k) = Some No_Match
      \<longleftrightarrow> (case q of (name, k) \<Rightarrow> candidates (the (index_btf idx)) name k) = {}"
    and "(case q of (name, k) \<Rightarrow> mch_btf_index_lookup idx name k) = Some (Match t)
      \<longleftrightarrow> (case q of (name, k) \<Rightarrow> candidates (the (index_btf idx)) name k) = {t}"
    using facts by (simp_all add: q)
qed

subsection \<open>Anonymous enums\<close>

definition enum_candidates :: "btf \<Rightarrow> btf \<Rightarrow> btf_type \<Rightarrow> u32 set" where
  "enum_candidates b ob ot = {i \<in> set (type_ids b).
     (kind ot = BTF_KIND_ENUM \<or> kind ot = BTF_KIND_ENUM64) \<and> mch_btf_type_name ob ot = []
     \<and> (\<exists>t. type_by_id b i = Some t \<and> anonymous_enum_matches b t ob ot)}"

definition enum_hits :: "btf \<Rightarrow> btf \<Rightarrow> btf_type \<Rightarrow> u32 list \<Rightarrow> u32 list" where
  "enum_hits b ob ot ids = filter (\<lambda>i. case type_by_id b i of None \<Rightarrow> False
     | Some t \<Rightarrow> anonymous_enum_matches b t ob ot) ids"

lemma anonymous_enum_scan_one:
  "anonymous_enum_scan b ob ot ids found 1
    = (if enum_hits b ob ot ids = [] then Match found else Ambiguous_Match)"
  by (induction ids) (auto simp: enum_hits_def split: option.splits)

lemma anonymous_enum_scan_none:
  "anonymous_enum_scan b ob ot ids 0 0 = (case enum_hits b ob ot ids of
     [] \<Rightarrow> No_Match | [i] \<Rightarrow> Match i | _ \<Rightarrow> Ambiguous_Match)"
proof (induction ids)
  case Nil
  then show ?case by (simp add: enum_hits_def)
next
  case (Cons i ids)
  then show ?case
    using anonymous_enum_scan_one [of b ob ot ids i]
    by (auto simp: enum_hits_def split: option.splits list.splits)
qed

lemma enum_lookup_candidates:
  assumes "index_for b idx"
  shows "mch_btf_index_lookup_anonymous_enum idx ob ot = No_Match \<longleftrightarrow> enum_candidates b ob ot = {}"
    and "mch_btf_index_lookup_anonymous_enum idx ob ot = Match i \<longleftrightarrow> enum_candidates b ob ot = {i}"
proof -
  let ?askable = "(kind ot = BTF_KIND_ENUM \<or> kind ot = BTF_KIND_ENUM64) \<and> mch_btf_type_name ob ot = []"
  let ?hits = "enum_hits b ob ot (type_ids b)"
  have b: "index_btf idx = Some b" using assms by (simp add: index_for_def)
  have "(mch_btf_index_lookup_anonymous_enum idx ob ot = No_Match \<longleftrightarrow> enum_candidates b ob ot = {})
    \<and> (mch_btf_index_lookup_anonymous_enum idx ob ot = Match i \<longleftrightarrow> enum_candidates b ob ot = {i})"
  proof (cases ?askable)
    case False
    then have "mch_btf_index_lookup_anonymous_enum idx ob ot = No_Match"
      by (auto simp: mch_btf_index_lookup_anonymous_enum_def b)
    moreover have "enum_candidates b ob ot = {}" using False by (auto simp: enum_candidates_def)
    ultimately show ?thesis by simp
  next
    case True
    then have "mch_btf_index_lookup_anonymous_enum idx ob ot
        = anonymous_enum_scan b ob ot (type_ids b) 0 0"
      by (auto simp: mch_btf_index_lookup_anonymous_enum_def b)
    also have "\<dots> = (case ?hits of [] \<Rightarrow> No_Match | [i] \<Rightarrow> Match i | _ \<Rightarrow> Ambiguous_Match)"
      by (rule anonymous_enum_scan_none)
    finally have scan: "mch_btf_index_lookup_anonymous_enum idx ob ot
        = (case ?hits of [] \<Rightarrow> No_Match | [i] \<Rightarrow> Match i | _ \<Rightarrow> Ambiguous_Match)" .
    have "set ?hits = enum_candidates b ob ot"
      using True by (auto simp: enum_hits_def enum_candidates_def split: option.splits)
    moreover have "distinct ?hits" by (simp add: enum_hits_def distinct_type_ids)
    ultimately show ?thesis
      unfolding scan by (cases ?hits rule: summary.cases) auto
  qed
  then show "mch_btf_index_lookup_anonymous_enum idx ob ot = No_Match \<longleftrightarrow> enum_candidates b ob ot = {}"
    "mch_btf_index_lookup_anonymous_enum idx ob ot = Match i \<longleftrightarrow> enum_candidates b ob ot = {i}"
    by blast+
qed

interpretation by_enum: unique_search
  "\<lambda>idx (ob, ot). Some (mch_btf_index_lookup_anonymous_enum idx ob ot)"
  "\<lambda>idx (ob, ot). enum_candidates (the (index_btf idx)) ob ot" "\<lambda>idx. \<exists>b. index_for b idx"
proof
  fix idx :: mch_btf_index and q :: "btf \<times> btf_type" and t
  obtain ob ot where q: "q = (ob, ot)" by fastforce
  assume "\<exists>b. index_for b idx"
  then have valid: "index_for (the (index_btf idx)) idx" by (auto simp: index_for_def)
  note facts = enum_lookup_candidates [OF valid]
  show "\<exists>m. (case q of (ob, ot) \<Rightarrow> Some (mch_btf_index_lookup_anonymous_enum idx ob ot)) = Some m"
    and "(case q of (ob, ot) \<Rightarrow> Some (mch_btf_index_lookup_anonymous_enum idx ob ot)) = Some No_Match
      \<longleftrightarrow> (case q of (ob, ot) \<Rightarrow> enum_candidates (the (index_btf idx)) ob ot) = {}"
    and "(case q of (ob, ot) \<Rightarrow> Some (mch_btf_index_lookup_anonymous_enum idx ob ot)) = Some (Match t)
      \<longleftrightarrow> (case q of (ob, ot) \<Rightarrow> enum_candidates (the (index_btf idx)) ob ot) = {t}"
    using facts by (simp_all add: q)
qed

end
