(* ===== verification/Sample.thy ===== *)
theory Sample
  imports Requirements Btf_Index
begin

text \<open>
  A small base BTF, the BTF of a small object and the sets that go with them: the concrete input on
  which the properties are applied. A string offset is the index of the string, the type at
  position \<open>i\<close> has the id \<open>i\<close>, and position 0 is void.
\<close>

definition string_at :: "string list \<Rightarrow> u32 \<Rightarrow> string option" where
  "string_at strs off = (if unat off < length strs then Some (strs ! unat off) else None)"

definition btf_of :: "btf_type list \<Rightarrow> string list \<Rightarrow> btf" where
  "btf_of types strs = \<lparr>type_cnt = of_nat (length types),
     type_by_id = (\<lambda>i. if unat i < length types then Some (types ! unat i) else None),
     name_by_offset = string_at strs, str_by_offset = string_at strs\<rparr>"

definition plain_type :: "btf_kind \<Rightarrow> u32 \<Rightarrow> u32 \<Rightarrow> btf_type" where
  "plain_type k name ref = \<lparr>name_off = name, kind = k, vlen = 0, kflag = False, size_or_type = ref,
     int_info = 32, array_of = \<lparr>a_type = 0, a_index_type = 0, a_nelems = 0\<rparr>,
     member = (\<lambda>_. \<lparr>m_name_off = 0, m_type = 0, m_offset = 0\<rparr>),
     param = (\<lambda>_. \<lparr>p_name_off = 0, p_type = 0\<rparr>),
     enum_value = (\<lambda>_. \<lparr>e_name_off = 0, e_val = 0\<rparr>),
     enum64_value = (\<lambda>_. \<lparr>e64_name_off = 0, e64_val_lo32 = 0, e64_val_hi32 = 0\<rparr>),
     secinfo = (\<lambda>_. \<lparr>s_type = 0, s_offset = 0, s_size = 0\<rparr>)\<rparr>"

definition record_type :: "btf_kind \<Rightarrow> u32 \<Rightarrow> u32 \<Rightarrow> btf_member list \<Rightarrow> btf_type" where
  "record_type k name sz ms = (plain_type k name sz)\<lparr>vlen := of_nat (length ms), member := (\<lambda>i. ms ! i)\<rparr>"

definition enum_type :: "u32 \<Rightarrow> btf_enum list \<Rightarrow> btf_type" where
  "enum_type name vs = (plain_type BTF_KIND_ENUM name 4)\<lparr>vlen := of_nat (length vs), enum_value := (\<lambda>i. vs ! i)\<rparr>"

definition sample_strings :: "string list" where
  "sample_strings = ['''', ''u32'', ''task'', ''pid'', ''state'', ''next'', ''task_t'', ''IDLE'', ''mine'', ''0:1'']"

text \<open>
  \<^verbatim>\<open>u32\<close>; \<^verbatim>\<open>struct task { u32 pid; union { u32 state; struct task *next; }; }\<close>;
  the union; the pointer; \<^verbatim>\<open>typedef struct task task_t\<close>; an unnamed enum.
\<close>

definition sample_base :: btf where
  "sample_base = btf_of
     [plain_type BTF_KIND_UNKN 0 0,
      plain_type BTF_KIND_INT 1 4,
      record_type BTF_KIND_STRUCT 2 16
        [\<lparr>m_name_off = 3, m_type = 1, m_offset = 0\<rparr>, \<lparr>m_name_off = 0, m_type = 3, m_offset = 64\<rparr>],
      record_type BTF_KIND_UNION 0 8
        [\<lparr>m_name_off = 4, m_type = 1, m_offset = 0\<rparr>, \<lparr>m_name_off = 5, m_type = 4, m_offset = 0\<rparr>],
      plain_type BTF_KIND_PTR 0 2,
      plain_type BTF_KIND_TYPEDEF 6 2,
      enum_type 0 [\<lparr>e_name_off = 7, e_val = 0\<rparr>]]
     sample_strings"

text \<open>
  The object's own view: \<^verbatim>\<open>u32\<close>, \<^verbatim>\<open>struct task { u32 pid; u32 state; }\<close>, a
  \<^verbatim>\<open>const struct task\<close>, its own \<^verbatim>\<open>struct mine\<close> and the unnamed enum.
\<close>

definition sample_object :: btf where
  "sample_object = btf_of
     [plain_type BTF_KIND_UNKN 0 0,
      plain_type BTF_KIND_INT 1 4,
      record_type BTF_KIND_STRUCT 2 8
        [\<lparr>m_name_off = 3, m_type = 1, m_offset = 0\<rparr>, \<lparr>m_name_off = 4, m_type = 1, m_offset = 32\<rparr>],
      plain_type BTF_KIND_CONST 0 2,
      record_type BTF_KIND_STRUCT 8 4 [\<lparr>m_name_off = 3, m_type = 1, m_offset = 0\<rparr>],
      enum_type 0 [\<lparr>e_name_off = 7, e_val = 0\<rparr>]]
     sample_strings"

lemmas sample_defs = sample_base_def sample_object_def btf_of_def plain_type_def record_type_def
  enum_type_def sample_strings_def string_at_def

lemma sample_base_cnt [simp]: "type_cnt sample_base = 7"
  by (simp add: sample_defs)

lemma sample_object_cnt [simp]: "type_cnt sample_object = 6"
  by (simp add: sample_defs)

lemma sample_base_complete: "btf_complete sample_base"
  by (auto simp: btf_complete_def sample_defs word_less_nat_alt)

definition empty_set :: "size_t \<Rightarrow> mch_type_set" where
  "empty_set n = fst (snd (mch_type_set_init n plenty))"

definition sample_seeds :: mch_type_set where
  "sample_seeds = snd (mch_type_set_add (empty_set 7) 2)"

lemma empty_set_ok:
  assumes "unat n \<le> 2 ^ 32"
  shows "ts_invar (empty_set n)" "ts_elems (empty_set n) = {}" "ts_count (empty_set n) = n"
proof -
  have "unat (word_count_for_bits n) = (if n = 0 then 1 else (unat n + 63) div 64)"
    using assms by (intro word_count_for_bits_exact) simp
  then have "unat (word_count_for_bits n) * 8 < 2 ^ 64" using assms by auto
  then have "mch_type_set_init n plenty = (0, empty_set n, plenty)"
    by (simp add: empty_set_def mch_type_set_init_def heap_calloc_def Let_def)
  moreover have "unat n \<le> 2 ^ 64 - 64" using assms by simp
  ultimately show "ts_invar (empty_set n)" "ts_elems (empty_set n) = {}" "ts_count (empty_set n) = n"
    using mch_type_set_init_ok by blast+
qed

lemma sample_seeds_ok: "ts_invar sample_seeds" "ts_elems sample_seeds = {2}" "ts_count sample_seeds = 7"
proof -
  have "unat (7 :: size_t) \<le> 2 ^ 32" by simp
  note empty = empty_set_ok [OF this]
  show "ts_invar sample_seeds" using empty by (simp add: sample_seeds_def ts.add_invar)
  show "ts_elems sample_seeds = {2}" using empty by (simp add: sample_seeds_def ts.add_elems)
  show "ts_count sample_seeds = 7" using empty by (simp add: sample_seeds_def)
qed

definition sample_requirements :: mch_requirements where
  "sample_requirements = fst (snd (mch_requirements_init 7 plenty))"

lemma sample_requirements_ok:
  "req_invar b sample_requirements" "req_roots sample_requirements = {}" "req_members sample_requirements = {}"
  "type_count sample_requirements = 7"
proof -
  have "mch_requirements_init 7 plenty = (0, sample_requirements, plenty)"
    by (simp add: sample_requirements_def mch_requirements_init_def heap_calloc_def
        word_count_for_bits_def Let_def)
  moreover have "unat (7 :: size_t) \<le> 2 ^ 32" by simp
  ultimately show "req_invar b sample_requirements" "req_roots sample_requirements = {}"
    "req_members sample_requirements = {}" "type_count sample_requirements = 7"
    using mch_requirements_init_ok by blast+
qed


text \<open>The accessors on the samples, so that \<open>simp\<close> evaluates without unfolding the samples.\<close>

lemma sample_selectors [simp]:
  "kind (plain_type k n r) = k" "name_off (plain_type k n r) = n" "vlen (plain_type k n r) = 0"
  "size_or_type (plain_type k n r) = r" "kflag (plain_type k n r) = False"
  "kind (record_type k n r ms) = k" "name_off (record_type k n r ms) = n"
  "vlen (record_type k n r ms) = of_nat (length ms)" "member (record_type k n r ms) i = ms ! i"
  "size_or_type (record_type k n r ms) = r" "kflag (record_type k n r ms) = False"
  "kind (enum_type n vs) = BTF_KIND_ENUM" "name_off (enum_type n vs) = n"
  "vlen (enum_type n vs) = of_nat (length vs)" "enum_value (enum_type n vs) i = vs ! i"
  "size_or_type (enum_type n vs) = 4" "kflag (enum_type n vs) = False"
  by (simp_all add: plain_type_def record_type_def enum_type_def)

lemma sample_base_types [simp]:
  "type_by_id sample_base 1 = Some (plain_type BTF_KIND_INT 1 4)"
  "type_by_id sample_base 2 = Some (record_type BTF_KIND_STRUCT 2 16
     [\<lparr>m_name_off = 3, m_type = 1, m_offset = 0\<rparr>, \<lparr>m_name_off = 0, m_type = 3, m_offset = 64\<rparr>])"
  "type_by_id sample_base 3 = Some (record_type BTF_KIND_UNION 0 8
     [\<lparr>m_name_off = 4, m_type = 1, m_offset = 0\<rparr>, \<lparr>m_name_off = 5, m_type = 4, m_offset = 0\<rparr>])"
  "type_by_id sample_base 4 = Some (plain_type BTF_KIND_PTR 0 2)"
  "type_by_id sample_base 5 = Some (plain_type BTF_KIND_TYPEDEF 6 2)"
  "type_by_id sample_base 6 = Some (enum_type 0 [\<lparr>e_name_off = 7, e_val = 0\<rparr>])"
  by (simp_all add: sample_base_def btf_of_def)

lemma sample_object_types [simp]:
  "type_by_id sample_object 1 = Some (plain_type BTF_KIND_INT 1 4)"
  "type_by_id sample_object 2 = Some (record_type BTF_KIND_STRUCT 2 8
     [\<lparr>m_name_off = 3, m_type = 1, m_offset = 0\<rparr>, \<lparr>m_name_off = 4, m_type = 1, m_offset = 32\<rparr>])"
  "type_by_id sample_object 3 = Some (plain_type BTF_KIND_CONST 0 2)"
  "type_by_id sample_object 4 = Some (record_type BTF_KIND_STRUCT 8 4
     [\<lparr>m_name_off = 3, m_type = 1, m_offset = 0\<rparr>])"
  "type_by_id sample_object 5 = Some (enum_type 0 [\<lparr>e_name_off = 7, e_val = 0\<rparr>])"
  by (simp_all add: sample_object_def btf_of_def)

lemma sample_names [simp]:
  "name_by_offset sample_base off = string_at sample_strings off"
  "name_by_offset sample_object off = string_at sample_strings off"
  "str_by_offset sample_base off = string_at sample_strings off"
  "str_by_offset sample_object off = string_at sample_strings off"
  by (simp_all add: sample_base_def sample_object_def btf_of_def)

lemma sample_string [simp]:
  "string_at sample_strings 0 = Some []" "string_at sample_strings 1 = Some ''u32''"
  "string_at sample_strings 2 = Some ''task''" "string_at sample_strings 3 = Some ''pid''"
  "string_at sample_strings 4 = Some ''state''" "string_at sample_strings 5 = Some ''next''"
  "string_at sample_strings 6 = Some ''task_t''" "string_at sample_strings 7 = Some ''IDLE''"
  "string_at sample_strings 8 = Some ''mine''" "string_at sample_strings 9 = Some ''0:1''"
  by (simp_all add: string_at_def sample_strings_def)

lemma sample_type_ids: "type_ids sample_base = [1, 2, 3, 4, 5, 6]" "type_ids sample_object = [1, 2, 3, 4, 5]"
  by (simp_all add: type_ids_def upt_rec)

lemma sample_task: "candidates sample_base ''task'' BTF_KIND_STRUCT = {2}"
  unfolding candidates_def sample_type_ids
  by (auto simp: index_key_def mch_btf_type_name_def is_indexed_kind_def)

lemma sample_mine: "candidates sample_base ''mine'' BTF_KIND_STRUCT = {}"
  unfolding candidates_def sample_type_ids
  by (auto simp: index_key_def mch_btf_type_name_def is_indexed_kind_def)

lemma sample_enum:
  "enum_candidates sample_base sample_object (enum_type 0 [\<lparr>e_name_off = 7, e_val = 0\<rparr>]) = {6}"
proof -
  let ?t = "enum_type 0 [\<lparr>e_name_off = 7, e_val = 0\<rparr>]"
  have "enum_candidates sample_base sample_object ?t
      = set (filter (\<lambda>j. \<exists>t. type_by_id sample_base j = Some t
          \<and> anonymous_enum_matches sample_base t sample_object ?t) (type_ids sample_base))"
    by (auto simp: enum_candidates_def mch_btf_type_name_def)
  also have "\<dots> = {6}"
    by (simp add: sample_type_ids anonymous_enum_matches_def enum_value_matches_def mch_btf_type_name_def
        Let_def)
  finally show ?thesis .
qed

definition sample_index :: mch_btf_index where
  "sample_index = (case mch_btf_index_init sample_base mch_error_clear plenty of
     Some (Inr (idx, h)) \<Rightarrow> idx | _ \<Rightarrow> mch_btf_index_init_empty)"

lemma sample_index_built: "built_index sample_base sample_index"
proof -
  obtain idx where "mch_btf_index_init sample_base mch_error_clear plenty = Some (Inr (idx, plenty))"
    using mch_btf_index_init_cases(2) [of sample_base plenty mch_error_clear] by auto
  then show ?thesis unfolding built_index_def sample_index_def by auto
qed

end
