(* ===== verification/Emit_Decl.thy ===== *)
theory Emit_Decl
  imports Sample
begin

text \<open>
  The first half of \<^verbatim>\<open>src/emitter.c\<close>: C declarations. A function of the emitter takes the
  context and returns whether it succeeded (0 or -1) with the context afterwards. The recursion follows
  the types, which nobody has validated, so it takes a bound on its depth (\<open>n\<close>); \<open>None\<close> says that the
  bound was too small. The theory shows that a deeper bound never changes a result, that a bound
  above the number of types is enough when the declaration graph has no cycle, and that a
  declaration only appends text.
\<close>

subsection \<open>The context\<close>

record emit_ctx =
  ec_out :: string
  ec_record_state :: "u8 list"
  ec_fwd_state :: "u8 list"
  ec_typedef_state :: "u8 list"
  ec_err :: mch_error

type_synonym emitter = "emit_ctx \<Rightarrow> (bool \<times> emit_ctx) option"

definition success :: emitter where
  "success st = Some (True, st)"

definition failure :: emitter where
  "failure st = Some (False, st)"

definition no_result :: emitter where
  "no_result st = None"

text \<open>\<^verbatim>\<open>mch_error_set (ctx->err, ...); return -1;\<close>\<close>

definition fail_with :: "string \<Rightarrow> emitter" where
  "fail_with s st = Some (False, st\<lparr>ec_err := mch_error_set s (ec_err st)\<rparr>)"

text \<open>\<^verbatim>\<open>fputs\<close> and \<^verbatim>\<open>fprintf\<close>\<close>

definition put :: "string \<Rightarrow> emitter" where
  "put s st = Some (True, st\<lparr>ec_out := ec_out st @ s\<rparr>)"

text \<open>One after the other; a failure ends it.\<close>

fun run_all :: "emitter list \<Rightarrow> emitter" where
  "run_all [] st = Some (True, st)"
| "run_all (f # fs) st =
     (case f st of
        None \<Rightarrow> None
      | Some (ok, st') \<Rightarrow> if ok then run_all fs st' else Some (False, st'))"

text \<open>A function that computes a value and may touch the context, and what follows it.\<close>

definition after :: "(emit_ctx \<Rightarrow> 'a \<times> emit_ctx) \<Rightarrow> ('a \<Rightarrow> emitter) \<Rightarrow> emitter" where
  "after f g st = (let (x, st') = f st in g x st')"

definition emit_type_by_id :: "btf \<Rightarrow> u32 \<Rightarrow> emit_ctx \<Rightarrow> btf_type option \<times> emit_ctx" where
  "emit_type_by_id b i st =
     (if i \<ge> type_cnt b
      then (None, st\<lparr>ec_err := mch_error_set (''emitter saw invalid type id '' @ show_u i) (ec_err st)\<rparr>)
      else (type_by_id b i, st))"

text \<open>The lookup with the test for NULL that follows it.\<close>

definition with_type :: "btf \<Rightarrow> u32 \<Rightarrow> (btf_type \<Rightarrow> emitter) \<Rightarrow> emitter" where
  "with_type b i f = after (emit_type_by_id b i) (\<lambda>t. case t of None \<Rightarrow> failure | Some t \<Rightarrow> f t)"

definition is_named_record :: "btf \<Rightarrow> btf_type \<Rightarrow> bool" where
  "is_named_record b t \<longleftrightarrow> is_record_kind (kind t) \<and> mch_btf_type_name b t \<noteq> []"

subsection \<open>Names of types\<close>

definition int_type_name :: "btf_type \<Rightarrow> string" where
  "int_type_name t =
     (let info = int_info t;
          encoding = drop_bit 24 (info AND 0x0F000000);
          is_bool = (encoding AND 4 \<noteq> 0);
          is_char = (encoding AND 2 \<noteq> 0);
          is_signed = (encoding AND 1 \<noteq> 0);
          bits = info AND 0xFF
      in if is_bool then ''_Bool''
         else if is_char \<and> bits = 8 then (if is_signed then ''signed char'' else ''unsigned char'')
         else if bits = 8 then (if is_signed then ''signed char'' else ''unsigned char'')
         else if bits = 16 then (if is_signed then ''short'' else ''unsigned short'')
         else if bits = 32 then (if is_signed then ''int'' else ''unsigned int'')
         else if bits = 64 then (if is_signed then ''long long'' else ''unsigned long long'')
         else (if is_signed then ''int'' else ''unsigned int''))"

definition float_type_name :: "btf_type \<Rightarrow> string" where
  "float_type_name t =
     (if size_or_type t = 4 then ''float''
      else if size_or_type t = 8 then ''double''
      else if size_or_type t = 16 then ''long double''
      else ''double'')"

subsection \<open>Declarators\<close>

text \<open>\<^verbatim>\<open>"%s%s"\<close> with a space before a declarator that is not empty\<close>

definition spaced :: "string \<Rightarrow> string" where
  "spaced d = (if d \<noteq> [] then CHR '' '' # d else [])"

text \<open>\<^verbatim>\<open>make_declarator\<close> after the formatting: the buffer, or -1 when it is too small.\<close>

definition make_declarator :: "nat \<Rightarrow> string \<Rightarrow> string option" where
  "make_declarator size_of_buf s = (if length s \<ge> size_of_buf then None else Some s)"

definition starred :: "string \<Rightarrow> bool" where
  "starred d \<longleftrightarrow> (case d of c # _ \<Rightarrow> c = CHR ''*'' | [] \<Rightarrow> False)"

definition array_declarator :: "string \<Rightarrow> u32 \<Rightarrow> string" where
  "array_declarator d nelems =
     (if starred d then ''('' @ d @ '')['' @ show_u nelems @ '']'' else d @ ''['' @ show_u nelems @ '']'')"

definition type_qualifier_bit :: "btf_kind \<Rightarrow> u32" where
  "type_qualifier_bit k = (case k of BTF_KIND_CONST \<Rightarrow> 1 | BTF_KIND_VOLATILE \<Rightarrow> 2 | BTF_KIND_RESTRICT \<Rightarrow> 4 | _ \<Rightarrow> 0)"

definition append_type_qualifier :: "string \<Rightarrow> nat \<Rightarrow> string \<Rightarrow> string option" where
  "append_type_qualifier buf size_of_buf qualifier =
     (let s = (if buf = [] then [] else '' '') @ qualifier
      in if length s \<ge> size_of_buf - length buf then None else Some (buf @ s))"

fun append_qualifiers :: "(u32 \<times> string) list \<Rightarrow> string \<Rightarrow> nat \<Rightarrow> u32 \<Rightarrow> string option" where
  "append_qualifiers [] buf size_of_buf qmask = Some buf"
| "append_qualifiers ((qbit, name) # qs) buf size_of_buf qmask =
     (if qmask AND qbit \<noteq> 0
      then Option.bind (append_type_qualifier buf size_of_buf name)
             (\<lambda>buf'. append_qualifiers qs buf' size_of_buf qmask)
      else append_qualifiers qs buf size_of_buf qmask)"

definition append_qualifier_mask :: "string \<Rightarrow> nat \<Rightarrow> u32 \<Rightarrow> string option" where
  "append_qualifier_mask = append_qualifiers [(1, ''const''), (2, ''volatile''), (4, ''restrict'')]"

fun leading_loop :: "nat \<Rightarrow> btf \<Rightarrow> u32 \<Rightarrow> u32 \<Rightarrow> emit_ctx \<Rightarrow> u32 \<times> emit_ctx" where
  "leading_loop 0 b qmask i st = (qmask, st)"
| "leading_loop (Suc n) b qmask i st =
     (case emit_type_by_id b i st of
        (None, st') \<Rightarrow> (qmask, st')
      | (Some t, st') \<Rightarrow>
          let qbit = type_qualifier_bit (kind t)
          in if qbit = 0 then (qmask, st') else leading_loop n b (qmask OR qbit) (size_or_type t) st')"

definition leading_qualifier_mask :: "btf \<Rightarrow> u32 \<Rightarrow> emit_ctx \<Rightarrow> u32 \<times> emit_ctx" where
  "leading_qualifier_mask b i st = leading_loop 32 b 0 i st"

text \<open>
  The loop of \<^verbatim>\<open>emit_qualified_decl\<close>, which has no bound of its own: the type behind the
  qualifiers, its id and their mask, or -1.
\<close>

fun qualifier_chain :: "nat \<Rightarrow> btf \<Rightarrow> u32 \<Rightarrow> u32 \<Rightarrow> emit_ctx \<Rightarrow> ((btf_type \<times> u32 \<times> u32) option \<times> emit_ctx) option" where
  "qualifier_chain 0 b qmask i st = None"
| "qualifier_chain (Suc n) b qmask i st =
     (case emit_type_by_id b i st of
        (None, st') \<Rightarrow> Some (None, st')
      | (Some t, st') \<Rightarrow>
          let qbit = type_qualifier_bit (kind t)
          in if qbit = 0 then Some (Some (t, i, qmask), st')
             else qualifier_chain n b (qmask OR qbit) (size_or_type t) st')"

text \<open>The functions below call \<^verbatim>\<open>emit_decl_ex\<close>, which calls them; it is their parameter \<open>decl\<close>.\<close>

type_synonym declarer = "u32 \<Rightarrow> string \<Rightarrow> bool \<Rightarrow> emitter"

text \<open>What the function does after the loop, with the type \<open>t\<close> behind the qualifiers and its id.\<close>

definition behind_mask :: "btf \<Rightarrow> btf_type \<Rightarrow> u32 \<Rightarrow> emit_ctx \<Rightarrow> u32 \<times> emit_ctx" where
  "behind_mask b t qmask st =
     (if kind t = BTF_KIND_ARRAY
      then let (lead, st') = leading_qualifier_mask b (a_type (array_of t)) st in (qmask AND NOT lead, st')
      else (qmask, st))"

definition emit_behind_qualifiers ::
    "declarer \<Rightarrow> btf_type \<Rightarrow> u32 \<Rightarrow> string \<Rightarrow> bool \<Rightarrow> u32 \<Rightarrow> emitter" where
  "emit_behind_qualifiers decl t current declarator flexible_ok qmask =
     (case append_qualifier_mask [] 64 qmask of
        None \<Rightarrow> fail_with ''type qualifier chain is too long''
      | Some qualifiers \<Rightarrow>
          if kind t = BTF_KIND_PTR then
            (case make_declarator 512 (''* '' @ qualifiers @ spaced declarator) of
               None \<Rightarrow> fail_with ''type declarator is too long''
             | Some next_decl \<Rightarrow> decl (size_or_type t) next_decl flexible_ok)
          else run_all [put qualifiers, put '' '', decl current declarator flexible_ok])"

definition emit_qualified_decl :: "declarer \<Rightarrow> nat \<Rightarrow> btf \<Rightarrow> u32 \<Rightarrow> string \<Rightarrow> bool \<Rightarrow> emitter" where
  "emit_qualified_decl decl n b i declarator flexible_ok st =
     (case qualifier_chain n b 0 i st of
        None \<Rightarrow> None
      | Some (None, st1) \<Rightarrow> Some (False, st1)
      | Some (Some (t, current, qmask), st1) \<Rightarrow>
          after (behind_mask b t qmask) (emit_behind_qualifiers decl t current declarator flexible_ok) st1)"

definition param_name :: "btf \<Rightarrow> btf_param \<Rightarrow> nat \<Rightarrow> string" where
  "param_name b p i =
     (let name = name_by_offset b (p_name_off p)
      in if has_name name then the name else ''arg'' @ show_nat i)"

definition emit_params :: "declarer \<Rightarrow> btf \<Rightarrow> btf_type \<Rightarrow> emitter" where
  "emit_params decl b proto =
     (if vlen proto = 0 then put ''void''
      else run_all (map (\<lambda>i. run_all
             [if i > 0 then put '', '' else success,
              if p_type (param proto i) = 0 then put ''void''
              else decl (p_type (param proto i)) (param_name b (param proto i) i) True])
           [0..<nvlen proto]))"

definition emit_func_decl :: "declarer \<Rightarrow> btf \<Rightarrow> u32 \<Rightarrow> string \<Rightarrow> emitter" where
  "emit_func_decl decl b proto_id declarator =
     with_type b proto_id (\<lambda>proto. run_all
       [decl (size_or_type proto) [] True,
        put (if starred declarator then '' ('' @ declarator @ '')(''
             else if declarator \<noteq> [] then '' '' @ declarator @ ''('' else ''(''),
        emit_params decl b proto,
        put '')''])"

definition member_hidden :: "mch_requirements option \<Rightarrow> u32 \<Rightarrow> nat \<Rightarrow> bool" where
  "member_hidden rq i k \<longleftrightarrow> mch_requirements_has_record_members rq (ucast i)
     \<and> \<not> mch_requirements_contains_record_member rq (ucast i) (of_nat k)"

definition bitfield_size :: "btf_type \<Rightarrow> nat \<Rightarrow> u32" where
  "bitfield_size t k = (if kflag t then drop_bit 24 (m_offset (member t k)) else 0)"

definition emit_record_body :: "declarer \<Rightarrow> btf \<Rightarrow> mch_requirements option \<Rightarrow> u32 \<Rightarrow> btf_type \<Rightarrow> emitter" where
  "emit_record_body decl b rq i t =
     run_all ([put ('' {'' @ newline)]
       @ map (\<lambda>k. if member_hidden rq i k then success
                  else run_all
                    [put ''  '',
                     decl (m_type (member t k)) (case name_by_offset b (m_name_off (member t k)) of
                         None \<Rightarrow> [] | Some name \<Rightarrow> name) (k + 1 = nvlen t),
                     if bitfield_size t k \<noteq> 0 then put ('' : '' @ show_u (bitfield_size t k)) else success,
                     put ('';'' @ newline)])
           [0..<nvlen t]
       @ [put ''}''])"

definition emit_inline_record ::
    "declarer \<Rightarrow> btf \<Rightarrow> mch_requirements option \<Rightarrow> btf_type \<Rightarrow> u32 \<Rightarrow> string \<Rightarrow> emitter" where
  "emit_inline_record decl b rq t i declarator =
     run_all
       [put (if kind t = BTF_KIND_STRUCT then ''struct'' else ''union''),
        emit_record_body decl b rq i t,
        if declarator \<noteq> [] then put ('' '' @ declarator) else success]"

text \<open>\<^verbatim>\<open>struct\<close> or \<^verbatim>\<open>union\<close>, also for a forward declaration\<close>

definition record_keyword :: "btf_type \<Rightarrow> string" where
  "record_keyword t =
     (if kind t = BTF_KIND_UNION \<or> kind t = BTF_KIND_FWD \<and> kflag t then ''union'' else ''struct'')"

text \<open>The \<^verbatim>\<open>switch\<close> of \<^verbatim>\<open>emit_decl_ex\<close>, for the type \<open>t\<close> with the id \<open>i\<close>.\<close>

definition emit_decl_kind ::
    "declarer \<Rightarrow> nat \<Rightarrow> btf \<Rightarrow> mch_requirements option \<Rightarrow> u32 \<Rightarrow> string \<Rightarrow> bool \<Rightarrow> btf_type \<Rightarrow> emitter" where
  "emit_decl_kind decl n b rq i declarator flexible_ok t =
     (let name = mch_btf_type_name b t
      in case kind t of
           BTF_KIND_INT \<Rightarrow> put (int_type_name t @ spaced declarator)
         | BTF_KIND_FLOAT \<Rightarrow> put (float_type_name t @ spaced declarator)
         | BTF_KIND_PTR \<Rightarrow>
             (case make_declarator 512 (''*'' @ declarator) of
                None \<Rightarrow> fail_with ''type declarator is too long''
              | Some next_decl \<Rightarrow> decl (size_or_type t) next_decl flexible_ok)
         | BTF_KIND_ARRAY \<Rightarrow>
             (case make_declarator 512 (array_declarator declarator (a_nelems (array_of t))) of
                None \<Rightarrow> fail_with ''array declarator is too long''
              | Some next_decl \<Rightarrow> decl (a_type (array_of t)) next_decl flexible_ok)
         | BTF_KIND_CONST \<Rightarrow> emit_qualified_decl decl n b i declarator flexible_ok
         | BTF_KIND_VOLATILE \<Rightarrow> emit_qualified_decl decl n b i declarator flexible_ok
         | BTF_KIND_RESTRICT \<Rightarrow> emit_qualified_decl decl n b i declarator flexible_ok
         | BTF_KIND_TYPE_TAG \<Rightarrow> decl (size_or_type t) declarator flexible_ok
         | BTF_KIND_DECL_TAG \<Rightarrow> decl (size_or_type t) declarator flexible_ok
         | BTF_KIND_TYPEDEF \<Rightarrow>
             if name = [] then decl (size_or_type t) declarator flexible_ok
             else put (name @ spaced declarator)
         | BTF_KIND_STRUCT \<Rightarrow>
             if name = [] then emit_inline_record decl b rq t i declarator
             else put (record_keyword t @ '' '' @ name @ spaced declarator)
         | BTF_KIND_UNION \<Rightarrow>
             if name = [] then emit_inline_record decl b rq t i declarator
             else put (record_keyword t @ '' '' @ name @ spaced declarator)
         | BTF_KIND_FWD \<Rightarrow> put (record_keyword t @ '' '' @ name @ spaced declarator)
         | BTF_KIND_ENUM \<Rightarrow>
             put ((if name = [] then ''int'' else ''enum '' @ name) @ spaced declarator)
         | BTF_KIND_ENUM64 \<Rightarrow>
             put ((if name = [] then ''unsigned long long'' else ''enum '' @ name) @ spaced declarator)
         | BTF_KIND_FUNC_PROTO \<Rightarrow> emit_func_decl decl b i declarator
         | k \<Rightarrow> fail_with (''unsupported BTF kind in emitter: '' @ mch_btf_kind_name k))"

fun emit_decl_ex ::
    "btf \<Rightarrow> mch_requirements option \<Rightarrow> nat \<Rightarrow> u32 \<Rightarrow> string \<Rightarrow> bool \<Rightarrow> emitter" where
  "emit_decl_ex b rq 0 i declarator flexible_ok = no_result"
| "emit_decl_ex b rq (Suc n) i declarator flexible_ok =
     (if i = 0 then put (''void'' @ spaced declarator)
      else with_type b i (emit_decl_kind (emit_decl_ex b rq n) (Suc n) b rq i declarator flexible_ok))"

declare emit_decl_ex.simps [simp del]

definition emit_decl :: "btf \<Rightarrow> mch_requirements option \<Rightarrow> nat \<Rightarrow> u32 \<Rightarrow> string \<Rightarrow> emitter" where
  "emit_decl b rq n i declarator = emit_decl_ex b rq n i declarator True"

subsection \<open>More depth does not change a result\<close>

definition extends :: "emitter \<Rightarrow> emitter \<Rightarrow> bool" where
  "extends f g \<longleftrightarrow> (\<forall>st r. f st = Some r \<longrightarrow> g st = Some r)"

named_theorems extends_intros "how the emitter's combinators preserve the order of their results"

lemma extends_refl [extends_intros]: "extends f f"
  by (simp add: extends_def)

lemma extends_run_all [extends_intros]: "list_all2 extends fs gs \<Longrightarrow> extends (run_all fs) (run_all gs)"
proof (induction fs gs rule: list_all2_induct)
  case (Cons f fs g gs)
  then show ?case
    by (fastforce simp: extends_def split: option.splits prod.splits if_splits)
qed (simp add: extends_refl)

lemma extends_map: "(\<And>x. x \<in> set xs \<Longrightarrow> extends (f x) (g x)) \<Longrightarrow> list_all2 extends (map f xs) (map g xs)"
  by (simp add: list_all2_conv_all_nth)

lemma extends_after [extends_intros]: "(\<And>x. extends (f x) (g x)) \<Longrightarrow> extends (after h f) (after h g)"
  by (simp add: extends_def after_def case_prod_unfold Let_def)

lemma extends_with_type [extends_intros]: "(\<And>t. extends (f t) (g t)) \<Longrightarrow> extends (with_type b i f) (with_type b i g)"
  unfolding with_type_def by (auto intro!: extends_after simp: extends_refl split: option.split)

lemma extends_qualifier_chain:
  "qualifier_chain n b m i st = Some r \<Longrightarrow> qualifier_chain (Suc n) b m i st = Some r"
proof (induction n b m i st rule: qualifier_chain.induct)
  case (2 n b m i st)
  then show ?case
    by (subst qualifier_chain.simps) (auto simp: Let_def split: prod.splits option.splits if_splits)
qed simp

lemma extends_behind [extends_intros]:
  assumes "\<And>j d f. extends (decl j d f) (decl' j d f)"
  shows "extends (emit_behind_qualifiers decl t j d f m) (emit_behind_qualifiers decl' t j d f m)"
  unfolding emit_behind_qualifiers_def
  by (auto intro!: extends_intros list.rel_intros assms split: option.split)

lemma extends_qualified [extends_intros]:
  assumes decl: "\<And>j d f. extends (decl j d f) (decl' j d f)"
  shows "extends (emit_qualified_decl decl n b i d f) (emit_qualified_decl decl' (Suc n) b i d f)"
  unfolding extends_def
proof (intro allI impI)
  fix st r
  assume run: "emit_qualified_decl decl n b i d f st = Some r"
  then obtain res st1 where chain: "qualifier_chain n b 0 i st = Some (res, st1)"
    by (auto simp: emit_qualified_decl_def split: option.splits)
  note chain' = extends_qualifier_chain [OF chain]
  show "emit_qualified_decl decl' (Suc n) b i d f st = Some r"
  proof (cases res)
    case None
    then show ?thesis using run by (simp add: emit_qualified_decl_def chain chain' del: qualifier_chain.simps)
  next
    case (Some x)
    obtain t j m where x: "x = (t, j, m)" by (cases x)
    have rest: "extends (after (behind_mask b t m) (emit_behind_qualifiers decl t j d f))
        (after (behind_mask b t m) (emit_behind_qualifiers decl' t j d f))"
      by (intro extends_intros decl)
    have "after (behind_mask b t m) (emit_behind_qualifiers decl t j d f) st1 = Some r"
      using run by (simp add: emit_qualified_decl_def chain Some x)
    with rest have "after (behind_mask b t m) (emit_behind_qualifiers decl' t j d f) st1 = Some r"
      unfolding extends_def by blast
    then show ?thesis by (simp add: emit_qualified_decl_def chain' Some x del: qualifier_chain.simps)
  qed
qed

lemma extends_params [extends_intros]:
  assumes "\<And>j d f. extends (decl j d f) (decl' j d f)"
  shows "extends (emit_params decl b t) (emit_params decl' b t)"
  unfolding emit_params_def
  by (auto intro!: extends_intros extends_map list.rel_intros assms)

lemma extends_func_decl [extends_intros]:
  assumes "\<And>j d f. extends (decl j d f) (decl' j d f)"
  shows "extends (emit_func_decl decl b i d) (emit_func_decl decl' b i d)"
  unfolding emit_func_decl_def
  by (intro extends_intros list.rel_intros assms)

lemma extends_record_body [extends_intros]:
  assumes "\<And>j d f. extends (decl j d f) (decl' j d f)"
  shows "extends (emit_record_body decl b rq i t) (emit_record_body decl' b rq i t)"
  unfolding emit_record_body_def
  by (auto intro!: extends_intros extends_map list_all2_appendI list.rel_intros assms)

lemma extends_inline_record [extends_intros]:
  assumes "\<And>j d f. extends (decl j d f) (decl' j d f)"
  shows "extends (emit_inline_record decl b rq t i d) (emit_inline_record decl' b rq t i d)"
  unfolding emit_inline_record_def
  by (intro extends_intros list.rel_intros assms)

lemma extends_decl_kind [extends_intros]:
  assumes "\<And>j d f. extends (decl j d f) (decl' j d f)"
  shows "extends (emit_decl_kind decl n b rq i d f t) (emit_decl_kind decl' (Suc n) b rq i d f t)"
  unfolding emit_decl_kind_def Let_def
  by (cases "kind t") (auto intro!: extends_intros assms split: option.split)

lemma extends_decl_ex_Suc: "extends (emit_decl_ex b rq n i d f) (emit_decl_ex b rq (Suc n) i d f)"
proof (induction n arbitrary: i d f)
  case 0
  then show ?case by (simp add: extends_def emit_decl_ex.simps no_result_def)
next
  case (Suc n)
  then show ?case
    unfolding emit_decl_ex.simps(2) by (auto intro!: extends_intros)
qed

lemma extends_decl_ex: "n \<le> m \<Longrightarrow> extends (emit_decl_ex b rq n i d f) (emit_decl_ex b rq m i d f)"
proof (induction m rule: dec_induct)
  case (step m)
  then show ?case using extends_decl_ex_Suc [of b rq m i d f] by (simp add: extends_def)
qed (rule extends_refl)

subsection \<open>A declaration only appends text\<close>

text \<open>
  Whether the result is \<open>None\<close>, a success or a failure, and the text, do not depend on the context;
  only the error record is read and written besides.
\<close>

fun append_text :: "emit_ctx \<Rightarrow> bool \<times> string \<times> (mch_error \<Rightarrow> mch_error) \<Rightarrow> bool \<times> emit_ctx" where
  "append_text st (ok, s, g) = (ok, st\<lparr>ec_out := ec_out st @ s, ec_err := g (ec_err st)\<rparr>)"

definition text_only :: "emitter \<Rightarrow> bool" where
  "text_only f \<longleftrightarrow> (\<exists>r. \<forall>st. f st = map_option (append_text st) r)"

named_theorems text_intros "the emitter's combinators that only append text"

lemma text_onlyI: "(\<And>st. f st = map_option (append_text st) r) \<Longrightarrow> text_only f"
  by (auto simp: text_only_def)

lemma text_no_result [text_intros]: "text_only no_result"
  by (rule text_onlyI [of _ None]) (simp add: no_result_def)

lemma text_success [text_intros]: "text_only success"
  by (rule text_onlyI [of _ "Some (True, [], id)"]) (simp add: success_def)

lemma text_failure [text_intros]: "text_only failure"
  by (rule text_onlyI [of _ "Some (False, [], id)"]) (simp add: failure_def)

lemma text_fail_with [text_intros]: "text_only (fail_with s)"
  by (rule text_onlyI [of _ "Some (False, [], mch_error_set s)"]) (simp add: fail_with_def)

lemma text_put [text_intros]: "text_only (put s)"
  by (rule text_onlyI [of _ "Some (True, s, id)"]) (simp add: put_def)

lemma text_run_all [text_intros]: "list_all text_only fs \<Longrightarrow> text_only (run_all fs)"
proof (induction fs)
  case Nil
  then show ?case by (intro text_onlyI [of _ "Some (True, [], id)"]) simp
next
  case (Cons f fs)
  then obtain r rs where f: "\<And>st. f st = map_option (append_text st) r"
    and fs: "\<And>st. run_all fs st = map_option (append_text st) rs"
    by (auto simp: text_only_def)
  show ?case
  proof (cases "\<exists>s g. r = Some (True, s, g)")
    case True
    then obtain s g where "r = Some (True, s, g)" by blast
    then show ?thesis
      by (intro text_onlyI [of _ "map_option (\<lambda>(ok, s', g'). (ok, s @ s', g' \<circ> g)) rs"])
        (cases rs; auto simp: f fs)
  next
    case False
    then show ?thesis by (intro text_onlyI [of _ r]) (cases r; auto simp: f)
  qed
qed

lemma text_map: "(\<And>x. x \<in> set xs \<Longrightarrow> text_only (f x)) \<Longrightarrow> list_all text_only (map f xs)"
  by (simp add: list_all_iff)

text \<open>A value that is computed without reading the context.\<close>

definition error_only :: "(emit_ctx \<Rightarrow> 'a \<times> emit_ctx) \<Rightarrow> bool" where
  "error_only f \<longleftrightarrow> (\<exists>x g. \<forall>st. f st = (x, st\<lparr>ec_err := g (ec_err st)\<rparr>))"

lemma text_after [text_intros]:
  assumes "error_only f" and "\<And>x. text_only (g x)"
  shows "text_only (after f g)"
proof -
  obtain x e where f: "\<And>st. f st = (x, st\<lparr>ec_err := e (ec_err st)\<rparr>)" using assms(1) by (auto simp: error_only_def)
  obtain r where g: "\<And>st. g x st = map_option (append_text st) r"
    using assms(2) [of x] by (auto simp: text_only_def)
  show ?thesis
    by (rule text_onlyI [of _ "map_option (\<lambda>(ok, s, g). (ok, s, g \<circ> e)) r"])
      (cases r; auto simp: after_def f g)
qed

lemma error_only_type [text_intros]: "error_only (emit_type_by_id b i)"
  unfolding error_only_def emit_type_by_id_def
  by (cases "i \<ge> type_cnt b") (auto intro: exI [of _ id])

lemma text_with_type [text_intros]: "(\<And>t. text_only (f t)) \<Longrightarrow> text_only (with_type b i f)"
  unfolding with_type_def by (intro text_intros) (auto intro: text_intros split: option.split)

lemma error_only_bind:
  assumes "error_only f" and "\<And>x. error_only (g x)"
  shows "error_only (\<lambda>st. let (x, st') = f st in g x st')"
proof -
  obtain x e where f: "\<And>st. f st = (x, st\<lparr>ec_err := e (ec_err st)\<rparr>)" using assms(1) by (auto simp: error_only_def)
  obtain y e' where "\<And>st. g x st = (y, st\<lparr>ec_err := e' (ec_err st)\<rparr>)" using assms(2) by (fastforce simp: error_only_def)
  then show ?thesis unfolding error_only_def f by (intro exI [of _ y] exI [of _ "e' \<circ> e"]) simp
qed

lemma error_only_return: "error_only (\<lambda>st. (x, st))"
  unfolding error_only_def by (intro exI [of _ x] exI [of _ id]) simp

lemma error_only_leading: "error_only (leading_loop n b m i)"
proof (induction n arbitrary: m i)
  case (Suc n)
  have "leading_loop (Suc n) b m i = (\<lambda>st. let (t, st') = emit_type_by_id b i st
      in (case t of None \<Rightarrow> (\<lambda>st. (m, st))
          | Some t \<Rightarrow> if type_qualifier_bit (kind t) = 0 then (\<lambda>st. (m, st))
                      else leading_loop n b (m OR type_qualifier_bit (kind t)) (size_or_type t)) st')"
    by (rule ext) (simp add: Let_def case_prod_unfold split: option.split)
  moreover have "error_only \<dots>"
    by (rule error_only_bind [OF error_only_type]) (auto intro: error_only_return Suc.IH split: option.split)
  ultimately show ?case by simp
next
  case 0
  have "leading_loop 0 b m i = (\<lambda>st. (m, st))" by (intro ext) simp
  then show ?case by (simp add: error_only_return)
qed

lemma error_only_behind_mask [text_intros]: "error_only (behind_mask b t m)"
proof (cases "kind t = BTF_KIND_ARRAY")
  case True
  then have "behind_mask b t m = (\<lambda>st. let (lead, st') = leading_qualifier_mask b (a_type (array_of t)) st
      in (m AND NOT lead, st'))"
    by (intro ext) (simp add: behind_mask_def)
  moreover have "error_only (leading_qualifier_mask b (a_type (array_of t)))"
    using error_only_leading by (simp add: leading_qualifier_mask_def [abs_def])
  ultimately show ?thesis using error_only_bind [OF _ error_only_return] by simp
next
  case False
  then have "behind_mask b t m = (\<lambda>st. (m, st))" by (intro ext) (simp add: behind_mask_def)
  then show ?thesis by (simp add: error_only_return)
qed

lemma text_qualifier_chain:
  "\<exists>r. \<forall>st. qualifier_chain n b m i st = map_option (\<lambda>(x, g). (x, st\<lparr>ec_err := g (ec_err st)\<rparr>)) r"
proof (induction n arbitrary: m i)
  case 0
  show ?case by (rule exI [of _ None]) simp
next
  case (Suc n)
  obtain t e where t: "\<And>st. emit_type_by_id b i st = (t, st\<lparr>ec_err := e (ec_err st)\<rparr>)"
    using error_only_type [of b i] by (auto simp: error_only_def)
  show ?case
  proof (cases "t = None \<or> type_qualifier_bit (kind (the t)) = 0")
    case True
    then show ?thesis
      by (intro exI [of _ "Some (map_option (\<lambda>t. (t, i, m)) t, e)"]) (auto simp: t split: option.split)
  next
    case False
    obtain r where "\<And>st. qualifier_chain n b (m OR type_qualifier_bit (kind (the t))) (size_or_type (the t)) st
        = map_option (\<lambda>(x, g). (x, st\<lparr>ec_err := g (ec_err st)\<rparr>)) r"
      using Suc.IH by blast
    then show ?thesis
      using False by (intro exI [of _ "map_option (\<lambda>(x, g). (x, g \<circ> e)) r"])
        (auto simp: t option.map_comp o_def case_prod_unfold)
  qed
qed

lemma text_behind [text_intros]:
  assumes "\<And>j d f. text_only (decl j d f)"
  shows "text_only (emit_behind_qualifiers decl t j d f m)"
  unfolding emit_behind_qualifiers_def
  by (auto intro!: text_intros assms split: option.split)

lemma text_qualified [text_intros]:
  assumes "\<And>j d f. text_only (decl j d f)"
  shows "text_only (emit_qualified_decl decl n b i d f)"
proof -
  obtain r where r: "\<And>st. qualifier_chain n b 0 i st = map_option (\<lambda>(x, g). (x, st\<lparr>ec_err := g (ec_err st)\<rparr>)) r"
    using text_qualifier_chain by blast
  show ?thesis
  proof (cases r)
    case None
    then show ?thesis by (intro text_onlyI [of _ None]) (simp add: emit_qualified_decl_def r)
  next
    case (Some y)
    obtain x e where y: "y = (x, e)" by fastforce
    let ?rest = "case x of None \<Rightarrow> failure
      | Some (t, j, m) \<Rightarrow> after (behind_mask b t m) (emit_behind_qualifiers decl t j d f)"
    have "emit_qualified_decl decl n b i d f = after (\<lambda>st. (x, st\<lparr>ec_err := e (ec_err st)\<rparr>)) (\<lambda>_. ?rest)"
      by (intro ext) (simp add: emit_qualified_decl_def r Some y after_def failure_def split: option.split prod.split)
    moreover have "text_only ?rest"
      by (auto intro!: text_intros assms split: option.split)
    ultimately show ?thesis by (auto intro!: text_intros simp: error_only_def)
  qed
qed

lemma text_params [text_intros]:
  assumes "\<And>j d f. text_only (decl j d f)"
  shows "text_only (emit_params decl b t)"
  unfolding emit_params_def by (auto intro!: text_intros text_map assms)

lemma text_func_decl [text_intros]:
  assumes "\<And>j d f. text_only (decl j d f)"
  shows "text_only (emit_func_decl decl b i d)"
  unfolding emit_func_decl_def by (auto intro!: text_intros assms)

lemma text_record_body [text_intros]:
  assumes "\<And>j d f. text_only (decl j d f)"
  shows "text_only (emit_record_body decl b rq i t)"
  unfolding emit_record_body_def by (auto intro!: text_intros text_map assms)

lemma text_inline_record [text_intros]:
  assumes "\<And>j d f. text_only (decl j d f)"
  shows "text_only (emit_inline_record decl b rq t i d)"
  unfolding emit_inline_record_def by (auto intro!: text_intros assms)

lemma text_decl_kind [text_intros]:
  assumes "\<And>j d f. text_only (decl j d f)"
  shows "text_only (emit_decl_kind decl n b rq i d f t)"
  unfolding emit_decl_kind_def Let_def
  by (cases "kind t") (auto intro!: text_intros assms split: option.split)

lemma text_decl_ex [text_intros]: "text_only (emit_decl_ex b rq n i d f)"
proof (induction n arbitrary: i d f)
  case (Suc n)
  then show ?case unfolding emit_decl_ex.simps(2) by (auto intro!: text_intros)
qed (simp add: emit_decl_ex.simps text_no_result)

subsection \<open>Enough depth\<close>

text \<open>The types whose declarations the declaration of a type contains.\<close>

definition decl_targets :: "btf \<Rightarrow> mch_requirements option \<Rightarrow> u32 \<Rightarrow> u32 list" where
  "decl_targets b rq i =
     (if i < type_cnt b then (case type_by_id b i of
        None \<Rightarrow> []
      | Some t \<Rightarrow>
          (case kind t of
             BTF_KIND_PTR \<Rightarrow> [size_or_type t]
           | BTF_KIND_ARRAY \<Rightarrow> [a_type (array_of t)]
           | BTF_KIND_CONST \<Rightarrow> [size_or_type t] | BTF_KIND_VOLATILE \<Rightarrow> [size_or_type t]
           | BTF_KIND_RESTRICT \<Rightarrow> [size_or_type t]
           | BTF_KIND_TYPE_TAG \<Rightarrow> [size_or_type t] | BTF_KIND_DECL_TAG \<Rightarrow> [size_or_type t]
           | BTF_KIND_TYPEDEF \<Rightarrow> if mch_btf_type_name b t = [] then [size_or_type t] else []
           | BTF_KIND_STRUCT \<Rightarrow> if mch_btf_type_name b t \<noteq> [] then []
               else map (\<lambda>k. m_type (member t k)) (filter (\<lambda>k. \<not> member_hidden rq i k) [0..<nvlen t])
           | BTF_KIND_UNION \<Rightarrow> if mch_btf_type_name b t \<noteq> [] then []
               else map (\<lambda>k. m_type (member t k)) (filter (\<lambda>k. \<not> member_hidden rq i k) [0..<nvlen t])
           | BTF_KIND_FUNC_PROTO \<Rightarrow> size_or_type t # map (\<lambda>k. p_type (param t k)) [0..<nvlen t]
           | _ \<Rightarrow> [])) else [])"

definition decl_edges :: "btf \<Rightarrow> mch_requirements option \<Rightarrow> (u32 \<times> u32) set" where
  "decl_edges b rq = {(i, j). j \<in> set (decl_targets b rq i)}"

text \<open>A function of the emitter that returns in every context.\<close>

definition returns :: "emitter \<Rightarrow> bool" where
  "returns f \<longleftrightarrow> (\<forall>st. f st \<noteq> None)"

named_theorems returns_intros "when the emitter's combinators return"

lemma returns_basic [returns_intros]:
  "returns success" "returns failure" "returns (fail_with s)" "returns (put s)"
  by (simp_all add: returns_def success_def failure_def fail_with_def put_def)

lemma returns_run_all [returns_intros]: "list_all returns fs \<Longrightarrow> returns (run_all fs)"
proof (induction fs)
  case (Cons f fs)
  then show ?case by (auto simp: returns_def split: option.split)
qed (simp add: returns_def)

lemma returns_map: "(\<And>x. x \<in> set xs \<Longrightarrow> returns (f x)) \<Longrightarrow> list_all returns (map f xs)"
  by (simp add: list_all_iff)

lemma returns_after [returns_intros]: "(\<And>x. returns (f x)) \<Longrightarrow> returns (after g f)"
  by (simp add: returns_def after_def case_prod_unfold Let_def)

lemma returns_with_type:
  assumes "\<And>t. i < type_cnt b \<Longrightarrow> type_by_id b i = Some t \<Longrightarrow> returns (f t)"
  shows "returns (with_type b i f)"
  using assms by (auto simp: returns_def with_type_def after_def emit_type_by_id_def failure_def not_le
      split: option.split)

lemma returns_behind:
  assumes "\<And>d f. returns (decl j d f)" and "\<And>d f. kind t = BTF_KIND_PTR \<Longrightarrow> returns (decl (size_or_type t) d f)"
  shows "returns (emit_behind_qualifiers decl t j d f m)"
  unfolding emit_behind_qualifiers_def
  by (auto intro!: returns_intros assms split: option.split)

lemma returns_params:
  assumes "\<And>k d f. k < nvlen t \<Longrightarrow> returns (decl (p_type (param t k)) d f)"
  shows "returns (emit_params decl b t)"
  unfolding emit_params_def by (auto intro!: returns_intros returns_map assms)

lemma returns_record_body:
  assumes "\<And>k d f. k < nvlen t \<Longrightarrow> \<not> member_hidden rq i k \<Longrightarrow> returns (decl (m_type (member t k)) d f)"
  shows "returns (emit_record_body decl b rq i t)"
  unfolding emit_record_body_def by (auto intro!: returns_intros returns_map assms)

text \<open>A rank that decreases along the edges bounds the depth.\<close>

lemma qualifier_targets:
  "type_qualifier_bit (kind t) \<noteq> 0 \<Longrightarrow> i < type_cnt b \<Longrightarrow> type_by_id b i = Some t
    \<Longrightarrow> decl_targets b rq i = [size_or_type t]"
  by (simp add: type_qualifier_bit_def decl_targets_def split: btf_kind.splits)

lemma qualifier_chain_ranked:
  assumes rank: "\<And>i j. j \<in> set (decl_targets b rq i) \<Longrightarrow> rank j < (rank i :: nat)"
  shows "rank i < n \<Longrightarrow> \<exists>res st'. qualifier_chain n b m i st = Some (res, st')
    \<and> (\<forall>t j m'. res = Some (t, j, m') \<longrightarrow> type_by_id b j = Some t \<and> j < type_cnt b
        \<and> type_qualifier_bit (kind t) = 0 \<and> (j = i \<or> rank j < rank i))"
proof (induction n arbitrary: m i st)
  case (Suc n)
  show ?case
  proof (cases "i < type_cnt b \<and> (\<exists>t. type_by_id b i = Some t \<and> type_qualifier_bit (kind t) \<noteq> 0)")
    case True
    then obtain t where t: "i < type_cnt b" "type_by_id b i = Some t" "type_qualifier_bit (kind t) \<noteq> 0" by blast
    have less: "rank (size_or_type t) < rank i"
      using rank qualifier_targets [OF t(3,1,2)] by simp
    then have "rank (size_or_type t) < n" using Suc.prems by simp
    from Suc.IH [OF this, of "m OR type_qualifier_bit (kind t)" st] less t show ?thesis
      by (fastforce simp: emit_type_by_id_def not_le)
  next
    case False
    then show ?thesis
      by (auto simp: emit_type_by_id_def Let_def not_le split: option.split)
  qed
qed simp

lemma returns_qualified:
  assumes rank: "\<And>i j. j \<in> set (decl_targets b rq i) \<Longrightarrow> rank j < (rank i :: nat)"
    and qual: "i < type_cnt b" "type_by_id b i = Some t" "type_qualifier_bit (kind t) \<noteq> 0"
    and decl: "\<And>j d f. rank j < rank i \<Longrightarrow> returns (decl j d f)"
    and n: "rank i < n"
  shows "returns (emit_qualified_decl decl n b i d f)"
  unfolding returns_def
proof
  fix st
  obtain res st1 where chain: "qualifier_chain n b 0 i st = Some (res, st1)"
    and res: "\<And>t j m'. res = Some (t, j, m') \<Longrightarrow> type_by_id b j = Some t \<and> j < type_cnt b
        \<and> type_qualifier_bit (kind t) = 0 \<and> (j = i \<or> rank j < rank i)"
    using qualifier_chain_ranked [of b rq rank, OF rank n, of 0 st] by blast
  show "emit_qualified_decl decl n b i d f st \<noteq> None"
  proof (cases res)
    case None
    then show ?thesis by (simp add: emit_qualified_decl_def chain)
  next
    case (Some x)
    obtain u j m' where x: "x = (u, j, m')" by (cases x)
    note u = res [OF Some [unfolded x]]
    have j: "rank j < rank i" using u qual by auto
    have "rank (size_or_type u) < rank j" if "kind u = BTF_KIND_PTR"
      using that u by (intro rank) (simp add: decl_targets_def)
    then have "returns (emit_behind_qualifiers decl u j d f m)" for m
      using j by (intro returns_behind decl) auto
    then have "returns (after (behind_mask b u m') (emit_behind_qualifiers decl u j d f))"
      by (intro returns_intros)
    then show ?thesis by (simp add: emit_qualified_decl_def chain Some x returns_def)
  qed
qed

lemma returns_decl_ex:
  assumes rank: "\<And>i j. j \<in> set (decl_targets b rq i) \<Longrightarrow> rank j < (rank i :: nat)"
  shows "rank i < n \<Longrightarrow> returns (emit_decl_ex b rq n i d f)"
proof (induction n arbitrary: i d f)
  case (Suc n)
  let ?decl = "emit_decl_ex b rq n"
  have decl: "returns (?decl j d f)" if "rank j < rank i" for j d f
    using Suc.IH Suc.prems that by simp
  show ?case
  proof (cases "i = 0")
    case True
    then show ?thesis by (simp add: emit_decl_ex.simps returns_intros)
  next
    case False
    have "returns (emit_decl_kind ?decl (Suc n) b rq i d f t)"
      if t: "i < type_cnt b" "type_by_id b i = Some t" for t
    proof -
      have targets: "returns (?decl j d f)" if "j \<in> set (decl_targets b rq i)" for j d f
        using decl rank that by blast
      have body: "returns (emit_record_body ?decl b rq i t)"
        if "is_record_kind (kind t)" "mch_btf_type_name b t = []"
        using that t by (intro returns_record_body targets) (auto simp: decl_targets_def not_le)
      have qual: "returns (emit_qualified_decl ?decl (Suc n) b i d f)"
        if "type_qualifier_bit (kind t) \<noteq> 0"
        using rank t that decl Suc.prems by (rule returns_qualified)
      have inline: "returns (emit_inline_record ?decl b rq t i d)"
        if "is_record_kind (kind t)" "mch_btf_type_name b t = []"
        using body [OF that] unfolding emit_inline_record_def by (auto intro!: returns_intros)
      have func: "returns (emit_func_decl ?decl b i d)" if "kind t = BTF_KIND_FUNC_PROTO"
        unfolding emit_func_decl_def using that t
        by (auto intro!: returns_with_type returns_intros returns_params targets simp: decl_targets_def)
      show ?thesis
        unfolding emit_decl_kind_def Let_def using t
        by (cases "kind t") (auto intro!: returns_intros targets body qual inline func split: option.split
            simp: decl_targets_def type_qualifier_bit_def)
    qed
    then show ?thesis using False by (simp add: emit_decl_ex.simps returns_with_type)
  qed
qed simp

lemma card_below: "finite {i :: u32. i < c}" "card {i :: u32. i < c} \<le> unat c"
proof -
  have sub: "unat ` {i. i < c} \<subseteq> {..< unat c}" by (auto simp: word_less_nat_alt)
  have inj: "inj_on unat {i. i < c}" by (rule inj_onI) (simp only: word_unat_eq_iff)
  show "finite {i :: u32. i < c}" by (rule inj_on_finite [OF inj sub finite_lessThan])
  show "card {i :: u32. i < c} \<le> unat c"
    using card_inj_on_le [OF inj sub finite_lessThan] by (simp only: card_lessThan)
qed

lemma decl_ex_acyclic:
  assumes "acyclic (decl_edges b rq)" and "unat (type_cnt b) < n"
  shows "returns (emit_decl_ex b rq n i d f)"
proof -
  have outside: "decl_targets b rq i = []" if "\<not> i < type_cnt b" for i
    unfolding decl_targets_def using that by (rule if_not_P)
  have src: "i \<in> {i. i < type_cnt b}" if edge: "(i, j) \<in> decl_edges b rq" for i j
  proof (rule ccontr)
    assume "i \<notin> {i. i < type_cnt b}"
    then have "decl_targets b rq i = []" by (intro outside) simp
    then show False using edge by (simp add: decl_edges_def)
  qed
  obtain rank :: "u32 \<Rightarrow> nat" where
    less: "\<And>i j. (i, j) \<in> decl_edges b rq \<Longrightarrow> rank j < rank i" and
    bound: "\<And>i. rank i \<le> card {i. i < type_cnt b}"
    using acyclic_rank [OF assms(1) card_below(1), of "type_cnt b"] src by (metis Domain_iff subsetI)
  have "rank i < n" using bound [of i] card_below(2) [of "type_cnt b"] assms(2) by linarith
  then show ?thesis using less by (intro returns_decl_ex) (auto simp: decl_edges_def)
qed

end
