(* ===== verification/Emit_Deps.thy ===== *)
theory Emit_Deps
  imports Emit_Decl
begin

text \<open>
  The second half of \<^verbatim>\<open>src/emitter.c\<close>: the order of the definitions in the header. A record or
  typedef is printed after what it needs by value (\<open>hard\<close> dependencies), and after forward
  declarations and typedefs for what it only points to (\<open>soft\<close> dependencies). Two state arrays keep
  0 for untouched, 1 for being printed and 2 for printed.
\<close>

subsection \<open>The code\<close>

definition set_record_state :: "u32 \<Rightarrow> u8 \<Rightarrow> emitter" where
  "set_record_state i v st = Some (True, st\<lparr>ec_record_state := (ec_record_state st)[unat i := v]\<rparr>)"

definition set_fwd_state :: "u32 \<Rightarrow> u8 \<Rightarrow> emitter" where
  "set_fwd_state i v st = Some (True, st\<lparr>ec_fwd_state := (ec_fwd_state st)[unat i := v]\<rparr>)"

definition set_typedef_state :: "u32 \<Rightarrow> u8 \<Rightarrow> emitter" where
  "set_typedef_state i v st = Some (True, st\<lparr>ec_typedef_state := (ec_typedef_state st)[unat i := v]\<rparr>)"

text \<open>A step that reads the context.\<close>

definition reading :: "(emit_ctx \<Rightarrow> emitter) \<Rightarrow> emitter" where
  "reading f st = f st st"

fun hard_target_loop :: "nat \<Rightarrow> btf \<Rightarrow> u32 \<Rightarrow> emit_ctx \<Rightarrow> bool \<times> emit_ctx" where
  "hard_target_loop 0 b i st = (True, st)"
| "hard_target_loop (Suc n) b i st =
     (case emit_type_by_id b i st of
        (None, st') \<Rightarrow> (False, st')
      | (Some t, st') \<Rightarrow>
          (case kind t of
             BTF_KIND_CONST \<Rightarrow> hard_target_loop n b (size_or_type t) st'
           | BTF_KIND_VOLATILE \<Rightarrow> hard_target_loop n b (size_or_type t) st'
           | BTF_KIND_RESTRICT \<Rightarrow> hard_target_loop n b (size_or_type t) st'
           | BTF_KIND_TYPE_TAG \<Rightarrow> hard_target_loop n b (size_or_type t) st'
           | BTF_KIND_DECL_TAG \<Rightarrow> hard_target_loop n b (size_or_type t) st'
           | BTF_KIND_ARRAY \<Rightarrow> (True, st')
           | BTF_KIND_STRUCT \<Rightarrow> (mch_btf_type_name b t = [], st')
           | BTF_KIND_UNION \<Rightarrow> (mch_btf_type_name b t = [], st')
           | _ \<Rightarrow> (False, st')))"

definition typedef_target_needs_hard_deps :: "btf \<Rightarrow> u32 \<Rightarrow> emit_ctx \<Rightarrow> bool \<times> emit_ctx" where
  "typedef_target_needs_hard_deps b i st = hard_target_loop 32 b i st"

definition emit_forward_decl :: "btf \<Rightarrow> u32 \<Rightarrow> emitter" where
  "emit_forward_decl b i =
     with_type b i (\<lambda>t.
       if kind t \<noteq> BTF_KIND_STRUCT \<and> kind t \<noteq> BTF_KIND_UNION \<and> kind t \<noteq> BTF_KIND_FWD then success
       else let name = mch_btf_type_name b t
            in reading (\<lambda>st. if name = [] \<or> ec_fwd_state st ! unat i \<noteq> 0 then success
                 else run_all [put (record_keyword t @ '' '' @ name @ '';'' @ newline), set_fwd_state i 1]))"

text \<open>The members of a record that the requirements leave, in order.\<close>

definition shown_members :: "mch_requirements option \<Rightarrow> u32 \<Rightarrow> btf_type \<Rightarrow> u32 list" where
  "shown_members rq i t =
     map (\<lambda>k. m_type (member t k)) (filter (\<lambda>k. \<not> member_hidden rq i k) [0..<nvlen t])"

fun emit_typedef_definition :: "btf \<Rightarrow> mch_requirements option \<Rightarrow> nat \<Rightarrow> u32 \<Rightarrow> emitter"
  and emit_soft_deps :: "btf \<Rightarrow> mch_requirements option \<Rightarrow> nat \<Rightarrow> u32 \<Rightarrow> emitter"
  and emit_record_definition :: "btf \<Rightarrow> mch_requirements option \<Rightarrow> nat \<Rightarrow> u32 \<Rightarrow> emitter"
  and emit_hard_deps :: "btf \<Rightarrow> mch_requirements option \<Rightarrow> nat \<Rightarrow> u32 \<Rightarrow> emitter" where
  "emit_typedef_definition b rq 0 i = no_result"
| "emit_typedef_definition b rq (Suc n) i =
     with_type b i (\<lambda>t.
       if kind t \<noteq> BTF_KIND_TYPEDEF then success
       else reading (\<lambda>st.
         if ec_typedef_state st ! unat i = 2 then success
         else if ec_typedef_state st ! unat i = 1
         then fail_with (''typedef dependency cycle at type id '' @ show_u i)
         else if mch_btf_type_name b t = [] then success
         else run_all
           [set_typedef_state i 1,
            after (typedef_target_needs_hard_deps b (size_or_type t))
              (\<lambda>hard. if hard then emit_hard_deps b rq n (size_or_type t)
                      else emit_soft_deps b rq n (size_or_type t)),
            put ''typedef '',
            emit_decl b rq n (size_or_type t) (mch_btf_type_name b t),
            put ('';'' @ newline @ newline),
            set_typedef_state i 2]))"
| "emit_soft_deps b rq 0 i = no_result"
| "emit_soft_deps b rq (Suc n) i =
     (if i = 0 then success
      else with_type b i (\<lambda>t. case kind t of
             BTF_KIND_TYPEDEF \<Rightarrow> emit_typedef_definition b rq n i
           | BTF_KIND_VOLATILE \<Rightarrow> emit_soft_deps b rq n (size_or_type t)
           | BTF_KIND_CONST \<Rightarrow> emit_soft_deps b rq n (size_or_type t)
           | BTF_KIND_RESTRICT \<Rightarrow> emit_soft_deps b rq n (size_or_type t)
           | BTF_KIND_TYPE_TAG \<Rightarrow> emit_soft_deps b rq n (size_or_type t)
           | BTF_KIND_DECL_TAG \<Rightarrow> emit_soft_deps b rq n (size_or_type t)
           | BTF_KIND_PTR \<Rightarrow> emit_soft_deps b rq n (size_or_type t)
           | BTF_KIND_ARRAY \<Rightarrow> emit_soft_deps b rq n (a_type (array_of t))
           | BTF_KIND_FUNC_PROTO \<Rightarrow>
               run_all (emit_soft_deps b rq n (size_or_type t)
                 # map (\<lambda>k. emit_soft_deps b rq n (p_type (param t k))) [0..<nvlen t])
           | BTF_KIND_STRUCT \<Rightarrow> emit_forward_decl b i
           | BTF_KIND_UNION \<Rightarrow> emit_forward_decl b i
           | BTF_KIND_FWD \<Rightarrow> emit_forward_decl b i
           | _ \<Rightarrow> success))"
| "emit_record_definition b rq 0 i = no_result"
| "emit_record_definition b rq (Suc n) i =
     with_type b i (\<lambda>t.
       if \<not> is_named_record b t then success
       else reading (\<lambda>st.
         if ec_record_state st ! unat i = 2 then success
         else if ec_record_state st ! unat i = 1 then success
         else run_all
           [set_record_state i 1,
            run_all (map (\<lambda>j. emit_hard_deps b rq n j) (shown_members rq i t)),
            put ((if kind t = BTF_KIND_STRUCT then ''struct'' else ''union'') @ '' '' @ mch_btf_type_name b t),
            emit_record_body (emit_decl_ex b rq n) b rq i t,
            put ('';'' @ newline @ newline),
            set_record_state i 2]))"
| "emit_hard_deps b rq 0 i = no_result"
| "emit_hard_deps b rq (Suc n) i =
     with_type b i (\<lambda>t. case kind t of
         BTF_KIND_PTR \<Rightarrow> emit_soft_deps b rq n i
       | BTF_KIND_FUNC_PROTO \<Rightarrow> emit_soft_deps b rq n i
       | BTF_KIND_FWD \<Rightarrow> emit_forward_decl b i
       | BTF_KIND_ARRAY \<Rightarrow> emit_hard_deps b rq n (a_type (array_of t))
       | BTF_KIND_TYPEDEF \<Rightarrow>
           run_all [emit_hard_deps b rq n (size_or_type t), emit_typedef_definition b rq n i]
       | BTF_KIND_VOLATILE \<Rightarrow> emit_hard_deps b rq n (size_or_type t)
       | BTF_KIND_CONST \<Rightarrow> emit_hard_deps b rq n (size_or_type t)
       | BTF_KIND_RESTRICT \<Rightarrow> emit_hard_deps b rq n (size_or_type t)
       | BTF_KIND_TYPE_TAG \<Rightarrow> emit_hard_deps b rq n (size_or_type t)
       | BTF_KIND_DECL_TAG \<Rightarrow> emit_hard_deps b rq n (size_or_type t)
       | BTF_KIND_STRUCT \<Rightarrow>
           if is_named_record b t then emit_record_definition b rq n i
           else run_all (map (\<lambda>j. emit_hard_deps b rq n j) (shown_members rq i t))
       | BTF_KIND_UNION \<Rightarrow>
           if is_named_record b t then emit_record_definition b rq n i
           else run_all (map (\<lambda>j. emit_hard_deps b rq n j) (shown_members rq i t))
       | _ \<Rightarrow> success)"

declare emit_typedef_definition.simps [simp del] emit_soft_deps.simps [simp del]
  emit_record_definition.simps [simp del] emit_hard_deps.simps [simp del]

end
