(* ===== verification/Emit_Order.thy ===== *)
theory Emit_Order
  imports Emit_Deps
begin

text \<open>
  What the dependency walk of the emitter prints. The header consists of items: forward declarations,
  typedefs and record definitions, each with a text of its own. An item \<open>requires\<close> others, read off the
  BTF without reference to the walk. A successful walk prints a list of items that were not printed before, each
  once, each for a reason (it is reachable from what was asked for), and after the items that it requires;
  only a cycle of requirements can put an item before one of its own.
\<close>

subsection \<open>Items and their requirements\<close>

datatype item = Forward u32 | Typedef_Of u32 | Record_Of u32

definition known_type :: "btf \<Rightarrow> u32 \<Rightarrow> btf_type option" where
  "known_type b i = (if i < type_cnt b then type_by_id b i else None)"

text \<open>The items that a type asks for itself, and the types it hands the question on to.\<close>

definition soft_here :: "btf \<Rightarrow> u32 \<Rightarrow> btf_type \<Rightarrow> item set" where
  "soft_here b i t =
     (if mch_btf_type_name b t = [] then {}
      else if kind t = BTF_KIND_TYPEDEF then {Typedef_Of i}
      else if is_record_kind (kind t) \<or> kind t = BTF_KIND_FWD then {Forward i}
      else {})"

definition soft_targets :: "btf_type \<Rightarrow> u32 list" where
  "soft_targets t = (case kind t of
       BTF_KIND_VOLATILE \<Rightarrow> [size_or_type t] | BTF_KIND_CONST \<Rightarrow> [size_or_type t]
     | BTF_KIND_RESTRICT \<Rightarrow> [size_or_type t] | BTF_KIND_TYPE_TAG \<Rightarrow> [size_or_type t]
     | BTF_KIND_DECL_TAG \<Rightarrow> [size_or_type t] | BTF_KIND_PTR \<Rightarrow> [size_or_type t]
     | BTF_KIND_ARRAY \<Rightarrow> [a_type (array_of t)]
     | BTF_KIND_FUNC_PROTO \<Rightarrow> size_or_type t # map (\<lambda>k. p_type (param t k)) [0..<nvlen t]
     | _ \<Rightarrow> [])"

inductive soft_item :: "btf \<Rightarrow> u32 \<Rightarrow> item \<Rightarrow> bool" for b where
  soft_item_here: "known_type b i = Some t \<Longrightarrow> i \<noteq> 0 \<Longrightarrow> x \<in> soft_here b i t \<Longrightarrow> soft_item b i x"
| soft_item_through: "known_type b i = Some t \<Longrightarrow> i \<noteq> 0 \<Longrightarrow> j \<in> set (soft_targets t) \<Longrightarrow> soft_item b j x
    \<Longrightarrow> soft_item b i x"

definition hard_here :: "btf \<Rightarrow> u32 \<Rightarrow> btf_type \<Rightarrow> item set" where
  "hard_here b i t =
     (if kind t = BTF_KIND_PTR \<or> kind t = BTF_KIND_FUNC_PROTO then {x. soft_item b i x}
      else if mch_btf_type_name b t = [] then {}
      else if kind t = BTF_KIND_TYPEDEF then {Typedef_Of i}
      else if is_record_kind (kind t) then {Record_Of i}
      else if kind t = BTF_KIND_FWD then {Forward i}
      else {})"

definition hard_targets :: "btf \<Rightarrow> mch_requirements option \<Rightarrow> u32 \<Rightarrow> btf_type \<Rightarrow> u32 list" where
  "hard_targets b rq i t = (case kind t of
       BTF_KIND_VOLATILE \<Rightarrow> [size_or_type t] | BTF_KIND_CONST \<Rightarrow> [size_or_type t]
     | BTF_KIND_RESTRICT \<Rightarrow> [size_or_type t] | BTF_KIND_TYPE_TAG \<Rightarrow> [size_or_type t]
     | BTF_KIND_DECL_TAG \<Rightarrow> [size_or_type t] | BTF_KIND_TYPEDEF \<Rightarrow> [size_or_type t]
     | BTF_KIND_ARRAY \<Rightarrow> [a_type (array_of t)]
     | BTF_KIND_STRUCT \<Rightarrow> if mch_btf_type_name b t = [] then shown_members rq i t else []
     | BTF_KIND_UNION \<Rightarrow> if mch_btf_type_name b t = [] then shown_members rq i t else []
     | _ \<Rightarrow> [])"

inductive hard_item :: "btf \<Rightarrow> mch_requirements option \<Rightarrow> u32 \<Rightarrow> item \<Rightarrow> bool" for b rq where
  hard_item_here: "known_type b i = Some t \<Longrightarrow> x \<in> hard_here b i t \<Longrightarrow> hard_item b rq i x"
| hard_item_through: "known_type b i = Some t \<Longrightarrow> j \<in> set (hard_targets b rq i t) \<Longrightarrow> hard_item b rq j x
    \<Longrightarrow> hard_item b rq i x"

inductive_simps soft_item_iff: "soft_item b i x"
inductive_simps hard_item_iff: "hard_item b rq i x"

text \<open>The code's answers that do not depend on the context are taken from a blank one.\<close>

definition blank_ctx :: emit_ctx where
  "blank_ctx = \<lparr>ec_out = [], ec_record_state = [], ec_fwd_state = [], ec_typedef_state = [],
     ec_err = mch_error_clear\<rparr>"

definition hard_target :: "btf \<Rightarrow> u32 \<Rightarrow> bool" where
  "hard_target b i = fst (typedef_target_needs_hard_deps b i blank_ctx)"

fun requires :: "btf \<Rightarrow> mch_requirements option \<Rightarrow> item \<Rightarrow> item set" where
  "requires b rq (Forward i) = {}"
| "requires b rq (Typedef_Of i) =
     (case known_type b i of None \<Rightarrow> {}
      | Some t \<Rightarrow> if hard_target b (size_or_type t) then {x. hard_item b rq (size_or_type t) x}
                  else {x. soft_item b (size_or_type t) x})"
| "requires b rq (Record_Of i) =
     (case known_type b i of None \<Rightarrow> {}
      | Some t \<Rightarrow> {x. \<exists>j \<in> set (shown_members rq i t). hard_item b rq j x})"

definition req_edges :: "btf \<Rightarrow> mch_requirements option \<Rightarrow> (item \<times> item) set" where
  "req_edges b rq = {(x, y). y \<in> requires b rq x}"

subsection \<open>Texts\<close>

definition text_of :: "emitter \<Rightarrow> string" where
  "text_of f = (case f blank_ctx of Some (ok, st) \<Rightarrow> ec_out st | None \<Rightarrow> [])"

text \<open>The text of an item; \<open>N\<close> bounds the depth of the declarations.\<close>

fun item_text :: "btf \<Rightarrow> mch_requirements option \<Rightarrow> nat \<Rightarrow> item \<Rightarrow> string" where
  "item_text b rq N (Forward i) =
     (let t = the (known_type b i) in record_keyword t @ '' '' @ mch_btf_type_name b t @ '';'' @ newline)"
| "item_text b rq N (Typedef_Of i) =
     (let t = the (known_type b i)
      in ''typedef '' @ text_of (emit_decl b rq N (size_or_type t) (mch_btf_type_name b t))
         @ '';'' @ newline @ newline)"
| "item_text b rq N (Record_Of i) =
     (let t = the (known_type b i)
      in (if kind t = BTF_KIND_STRUCT then ''struct'' else ''union'') @ '' '' @ mch_btf_type_name b t
         @ text_of (emit_record_body (emit_decl_ex b rq N) b rq i t) @ '';'' @ newline @ newline)"

lemma text_only_run:
  assumes "text_only f" and "f st = Some (True, st')" and "extends f g"
  shows "\<exists>e. st' = st\<lparr>ec_out := ec_out st @ text_of g, ec_err := e\<rparr>"
proof -
  obtain r where f: "\<And>st. f st = map_option (append_text st) r"
    using assms(1) unfolding text_only_def by blast
  from assms(2) obtain s e where r: "r = Some (True, s, e)" by (auto simp: f)
  then have "f blank_ctx = Some (True, blank_ctx\<lparr>ec_out := s, ec_err := e mch_error_clear\<rparr>)"
    by (simp add: f blank_ctx_def)
  then have "g blank_ctx = Some (True, blank_ctx\<lparr>ec_out := s, ec_err := e mch_error_clear\<rparr>)"
    using assms(3) unfolding extends_def by blast
  then have "text_of g = s" by (simp add: text_of_def)
  then show ?thesis using assms(2) by (auto simp: f r)
qed

subsection \<open>The state arrays as sets of items\<close>

definition ctx_ok :: "btf \<Rightarrow> emit_ctx \<Rightarrow> bool" where
  "ctx_ok b st \<longleftrightarrow> unat (type_cnt b) \<le> length (ec_record_state st) \<and> unat (type_cnt b) \<le> length (ec_fwd_state st)
     \<and> unat (type_cnt b) \<le> length (ec_typedef_state st)
     \<and> set (ec_record_state st) \<subseteq> {0, 1, 2} \<and> set (ec_typedef_state st) \<subseteq> {0, 1, 2}"

fun printed :: "btf \<Rightarrow> emit_ctx \<Rightarrow> item \<Rightarrow> bool" where
  "printed b st (Forward i) \<longleftrightarrow> i < type_cnt b \<and> ec_fwd_state st ! unat i \<noteq> 0"
| "printed b st (Typedef_Of i) \<longleftrightarrow> i < type_cnt b \<and> ec_typedef_state st ! unat i = 2"
| "printed b st (Record_Of i) \<longleftrightarrow> i < type_cnt b \<and> ec_record_state st ! unat i = 2"

fun pending :: "btf \<Rightarrow> emit_ctx \<Rightarrow> item \<Rightarrow> bool" where
  "pending b st (Forward i) \<longleftrightarrow> False"
| "pending b st (Typedef_Of i) \<longleftrightarrow> i < type_cnt b \<and> ec_typedef_state st ! unat i = 1"
| "pending b st (Record_Of i) \<longleftrightarrow> i < type_cnt b \<and> ec_record_state st ! unat i = 1"

text \<open>Requirements of requirements, in one step or more.\<close>

definition leads :: "(item \<Rightarrow> item set) \<Rightarrow> item \<Rightarrow> item \<Rightarrow> bool" where
  "leads R x y \<longleftrightarrow> (x, y) \<in> {(x, y). y \<in> R x}\<^sup>+"

lemma leads_step: "y \<in> R x \<Longrightarrow> leads R x y"
  unfolding leads_def by (rule r_into_trancl) simp

lemma leads_trans: "leads R x y \<Longrightarrow> leads R y z \<Longrightarrow> leads R x z"
  unfolding leads_def by (rule trancl_trans)

text \<open>
  The order: from the items \<open>A\<close> on, each item comes after what it requires, unless that is printed
  later and requires the item in turn.
\<close>

fun placed :: "(item \<Rightarrow> item set) \<Rightarrow> item set \<Rightarrow> item list \<Rightarrow> bool" where
  "placed R A [] \<longleftrightarrow> True"
| "placed R A (x # xs) \<longleftrightarrow>
     (\<forall>r \<in> R x. r \<in> A \<or> r \<in> set (x # xs) \<and> leads R r x) \<and> placed R (insert x A) xs"

lemma placed_mono: "placed R A xs \<Longrightarrow> A \<subseteq> B \<Longrightarrow> placed R B xs"
proof (induction xs arbitrary: A B)
  case (Cons x xs)
  have "insert x A \<subseteq> insert x B" using Cons.prems(2) by blast
  with Cons show ?case by auto
qed simp

lemma placed_append: "placed R A xs \<Longrightarrow> placed R (A \<union> set xs) ys \<Longrightarrow> placed R A (xs @ ys)"
proof (induction xs arbitrary: A)
  case (Cons x xs)
  have "placed R (insert x A) (xs @ ys)" using Cons.prems by (intro Cons.IH) simp_all
  then show ?case using Cons.prems by auto
qed simp

lemma placed_bracket:
  assumes "placed R (insert y A) xs" and "\<forall>x \<in> set xs. leads R y x"
    and "R y \<subseteq> insert y (A \<union> set xs)"
  shows "placed R A (xs @ [y])"
  using assms
proof (induction xs arbitrary: A)
  case Nil
  then show ?case using leads_step [of y R y] by auto
next
  case (Cons x xs)
  have "placed R (insert y (insert x A)) xs" using Cons.prems(1) by (simp add: insert_commute)
  then have "placed R (insert x A) (xs @ [y])" using Cons.prems(2,3) by (intro Cons.IH) auto
  then show ?case using Cons.prems(1,2) by auto
qed

text \<open>Without cycles this is a topological order.\<close>

lemma placed_acyclic:
  assumes "placed R A (ys @ x # zs)" and "acyclic {(x, y). y \<in> R x}"
  shows "R x \<subseteq> A \<union> set ys"
  using assms(1)
proof (induction ys arbitrary: A)
  case Nil
  have "\<not> leads R x x" using assms(2) by (simp add: leads_def acyclic_def)
  then have "\<not> leads R r x" if "r \<in> R x" for r
    using leads_step [of r R x] leads_trans [of R x r x] that by blast
  then show ?case using Nil by auto
next
  case (Cons y ys)
  then have "placed R (insert y A) (ys @ x # zs)" by simp
  from Cons.IH [OF this] show ?case by auto
qed

subsection \<open>Runs that print items\<close>

definition emits :: "btf \<Rightarrow> mch_requirements option \<Rightarrow> nat \<Rightarrow> emit_ctx \<Rightarrow> item list \<Rightarrow> emit_ctx \<Rightarrow> bool" where
  "emits b rq N st xs st' \<longleftrightarrow> ctx_ok b st'
     \<and> ec_out st' = ec_out st @ concat (map (item_text b rq N) xs)
     \<and> (\<forall>x. printed b st' x \<longleftrightarrow> printed b st x \<or> x \<in> set xs)
     \<and> (\<forall>x. pending b st' x \<longleftrightarrow> pending b st x)
     \<and> distinct xs \<and> (\<forall>x \<in> set xs. \<not> printed b st x \<and> \<not> pending b st x)
     \<and> placed (requires b rq) {x. printed b st x \<or> pending b st x} xs"

definition prints :: "btf \<Rightarrow> mch_requirements option \<Rightarrow> nat \<Rightarrow> item set \<Rightarrow> emitter \<Rightarrow> bool" where
  "prints b rq N R f \<longleftrightarrow> (\<forall>st st'. ctx_ok b st \<longrightarrow> f st = Some (True, st') \<longrightarrow>
     (\<exists>xs. emits b rq N st xs st' \<and> (\<forall>r \<in> R. printed b st' r \<or> pending b st' r)
        \<and> (\<forall>x \<in> set xs. \<exists>r \<in> R. r = x \<or> leads (requires b rq) r x)))"

lemma printsI:
  assumes "\<And>st st'. ctx_ok b st \<Longrightarrow> f st = Some (True, st') \<Longrightarrow>
     \<exists>xs. emits b rq N st xs st' \<and> (\<forall>r \<in> R. printed b st' r \<or> pending b st' r)
        \<and> (\<forall>x \<in> set xs. \<exists>r \<in> R. r = x \<or> leads (requires b rq) r x)"
  shows "prints b rq N R f"
  using assms by (simp add: prints_def)

lemma printsE:
  assumes "prints b rq N R f" and "ctx_ok b st" and "f st = Some (True, st')"
  obtains xs where "emits b rq N st xs st'" "\<forall>r \<in> R. printed b st' r \<or> pending b st' r"
    "\<forall>x \<in> set xs. \<exists>r \<in> R. r = x \<or> leads (requires b rq) r x"
  using assms unfolding prints_def by blast

lemma state_err [simp]:
  "ctx_ok b (st\<lparr>ec_err := e\<rparr>) \<longleftrightarrow> ctx_ok b st" "ctx_ok b (st\<lparr>ec_out := s\<rparr>) \<longleftrightarrow> ctx_ok b st"
  "printed b (st\<lparr>ec_err := e\<rparr>) x \<longleftrightarrow> printed b st x" "printed b (st\<lparr>ec_out := s\<rparr>) x \<longleftrightarrow> printed b st x"
  "pending b (st\<lparr>ec_err := e\<rparr>) x \<longleftrightarrow> pending b st x" "pending b (st\<lparr>ec_out := s\<rparr>) x \<longleftrightarrow> pending b st x"
  by (cases x; simp add: ctx_ok_def)+

lemma emits_err: "ctx_ok b st \<Longrightarrow> emits b rq N st [] (st\<lparr>ec_err := e\<rparr>)"
  by (simp add: emits_def)

lemma emits_refl: "ctx_ok b st \<Longrightarrow> emits b rq N st [] st"
  by (simp add: emits_def)

lemma emits_trans:
  assumes one: "emits b rq N st xs st1" and two: "emits b rq N st1 ys st2"
  shows "emits b rq N st (xs @ ys) st2"
proof -
  have "{x. printed b st1 x \<or> pending b st1 x} = {x. printed b st x \<or> pending b st x} \<union> set xs"
    using one by (auto simp: emits_def)
  then have "placed (requires b rq) ({x. printed b st x \<or> pending b st x} \<union> set xs) ys"
    using two by (simp add: emits_def)
  then have "placed (requires b rq) {x. printed b st x \<or> pending b st x} (xs @ ys)"
    using one by (intro placed_append) (simp_all add: emits_def)
  then show ?thesis using one two by (auto simp: emits_def)
qed

lemma emits_keeps:
  "emits b rq N st xs st' \<Longrightarrow> printed b st r \<or> pending b st r \<Longrightarrow> printed b st' r \<or> pending b st' r"
  by (auto simp: emits_def)

named_theorems prints_intros "the emitter's combinators that print items"

lemma prints_vacuous [prints_intros]:
  "prints b rq N R no_result" "prints b rq N R failure" "prints b rq N R (fail_with s)"
  by (simp_all add: prints_def no_result_def failure_def fail_with_def)

lemma prints_success [prints_intros]: "prints b rq N {} success"
  by (rule printsI) (auto simp: success_def intro: emits_refl intro!: exI [of _ "[]"])

lemma prints_cons:
  assumes "prints b rq N R f" and "prints b rq N S (run_all fs)"
  shows "prints b rq N (R \<union> S) (run_all (f # fs))"
proof (rule printsI)
  fix st st'
  assume ok: "ctx_ok b st" and run: "run_all (f # fs) st = Some (True, st')"
  from run obtain st1 where f: "f st = Some (True, st1)" and fs: "run_all fs st1 = Some (True, st')"
    by (auto split: option.splits if_splits)
  obtain xs where xs: "emits b rq N st xs st1" "\<forall>r \<in> R. printed b st1 r \<or> pending b st1 r"
    "\<forall>x \<in> set xs. \<exists>r \<in> R. r = x \<or> leads (requires b rq) r x" using assms(1) ok f by (rule printsE)
  have "ctx_ok b st1" using xs(1) by (simp add: emits_def)
  with assms(2) obtain ys where ys: "emits b rq N st1 ys st'" "\<forall>r \<in> S. printed b st' r \<or> pending b st' r"
    "\<forall>x \<in> set ys. \<exists>r \<in> S. r = x \<or> leads (requires b rq) r x" using fs by (rule printsE)
  have "\<forall>r \<in> R \<union> S. printed b st' r \<or> pending b st' r"
    using xs(2) ys(2) emits_keeps [OF ys(1)] by blast
  moreover have "\<forall>x \<in> set (xs @ ys). \<exists>r \<in> R \<union> S. r = x \<or> leads (requires b rq) r x"
    using xs(3) ys(3) by auto
  ultimately show "\<exists>xs. emits b rq N st xs st' \<and> (\<forall>r \<in> R \<union> S. printed b st' r \<or> pending b st' r)
      \<and> (\<forall>x \<in> set xs. \<exists>r \<in> R \<union> S. r = x \<or> leads (requires b rq) r x)"
    using emits_trans [OF xs(1) ys(1)] by blast
qed

lemma prints_run_map [prints_intros]:
  assumes "\<And>x. x \<in> set xs \<Longrightarrow> prints b rq N (R x) (f x)"
  shows "prints b rq N (\<Union>x \<in> set xs. R x) (run_all (map f xs))"
  using assms
proof (induction xs)
  case Nil
  have "run_all (map f []) = success" by (intro ext) (simp add: success_def)
  then show ?case using prints_success by simp
next
  case (Cons x xs)
  have "prints b rq N (R x) (f x)" using Cons.prems by simp
  moreover have "prints b rq N (\<Union>y \<in> set xs. R y) (run_all (map f xs))" using Cons.prems by (intro Cons.IH) simp
  ultimately have "prints b rq N (R x \<union> (\<Union>y \<in> set xs. R y)) (run_all (f x # map f xs))" by (rule prints_cons)
  then show ?case by (simp only: list.map set_simps UN_insert)
qed

lemma prints_with_type [prints_intros]:
  assumes "\<And>t. known_type b i = Some t \<Longrightarrow> prints b rq N R (f t)"
  shows "prints b rq N R (with_type b i f)"
  using assms
  by (auto simp: prints_def with_type_def after_def emit_type_by_id_def known_type_def failure_def not_le
      split: option.splits if_splits)

lemma prints_after:
  assumes "error_only f" and "prints b rq N R (g (fst (f blank_ctx)))"
  shows "prints b rq N R (after f g)"
proof (rule printsI)
  fix st st'
  assume ok: "ctx_ok b st" and run: "after f g st = Some (True, st')"
  obtain x e where f: "\<And>st. f st = (x, st\<lparr>ec_err := e (ec_err st)\<rparr>)"
    using assms(1) unfolding error_only_def by blast
  let ?st1 = "st\<lparr>ec_err := e (ec_err st)\<rparr>"
  have g: "g x ?st1 = Some (True, st')" using run by (simp add: after_def f)
  have "prints b rq N R (g x)" using assms(2) by (simp add: f)
  moreover have "ctx_ok b ?st1" using ok by simp
  ultimately obtain xs where xs: "emits b rq N ?st1 xs st'" "\<forall>r \<in> R. printed b st' r \<or> pending b st' r"
    "\<forall>x \<in> set xs. \<exists>r \<in> R. r = x \<or> leads (requires b rq) r x" using g by (rule printsE)
  have "emits b rq N st ([] @ xs) st'" using emits_err [OF ok] xs(1) by (rule emits_trans)
  with xs(2,3) show "\<exists>xs. emits b rq N st xs st' \<and> (\<forall>r \<in> R. printed b st' r \<or> pending b st' r)
      \<and> (\<forall>x \<in> set xs. \<exists>r \<in> R. r = x \<or> leads (requires b rq) r x)" by auto
qed

text \<open>An item that is opened, its requirements printed, and then printed itself.\<close>

lemma emits_bracket:
  assumes open1: "\<And>x. pending b st1 x \<longleftrightarrow> pending b st x \<or> x = y" "\<And>x. printed b st1 x \<longleftrightarrow> printed b st x"
      "ec_out st1 = ec_out st"
    and inner: "emits b rq N st1 xs st2"
    and fresh: "\<not> printed b st y" "\<not> pending b st y"
    and lead: "\<forall>x \<in> set xs. leads (requires b rq) y x"
    and req: "\<forall>r \<in> requires b rq y. printed b st2 r \<or> pending b st2 r"
    and close: "ctx_ok b st3" "ec_out st3 = ec_out st2 @ item_text b rq N y"
      "\<And>x. printed b st3 x \<longleftrightarrow> printed b st2 x \<or> x = y" "\<And>x. pending b st3 x \<longleftrightarrow> pending b st2 x \<and> x \<noteq> y"
  shows "emits b rq N st (xs @ [y]) st3"
proof -
  let ?A = "{x. printed b st x \<or> pending b st x}"
  have base: "{x. printed b st1 x \<or> pending b st1 x} = insert y ?A" using open1 by auto
  have "placed (requires b rq) (insert y ?A) xs" using inner unfolding emits_def base by simp
  moreover have "requires b rq y \<subseteq> insert y (?A \<union> set xs)"
    using req inner open1 by (auto simp: emits_def)
  ultimately have "placed (requires b rq) ?A (xs @ [y])" using lead by (intro placed_bracket)
  moreover have "ec_out st3 = ec_out st @ concat (map (item_text b rq N) (xs @ [y]))"
    using close(2) inner open1(3) by (simp add: emits_def)
  moreover have "\<forall>x. printed b st3 x \<longleftrightarrow> printed b st x \<or> x \<in> set (xs @ [y])"
    using close(3) inner open1(2) by (auto simp: emits_def)
  moreover have "\<forall>x. pending b st3 x \<longleftrightarrow> pending b st x"
    using close(4) inner open1(1) fresh(2) by (auto simp: emits_def)
  moreover have "distinct (xs @ [y])" "\<forall>x \<in> set (xs @ [y]). \<not> printed b st x \<and> \<not> pending b st x"
    using inner open1 fresh by (auto simp: emits_def)
  ultimately show ?thesis using close(1) by (simp add: emits_def)
qed

end
