(* ===== verification/Emit_Walk.thy ===== *)
theory Emit_Walk
  imports Emit_Order
begin

text \<open>
  The four mutually recursive functions of the dependency walk print the items of \<^verbatim>\<open>Emit_Order\<close>: by
  induction on the depth, each call prints what it was asked for and the requirements of that.
\<close>

subsection \<open>Steps that write a text\<close>

definition writes :: "emitter \<Rightarrow> string \<Rightarrow> bool" where
  "writes f s \<longleftrightarrow> (\<forall>st st'. f st = Some (True, st') \<longrightarrow> (\<exists>e. st' = st\<lparr>ec_out := ec_out st @ s, ec_err := e\<rparr>))"

lemma writesE:
  assumes "writes f s" and "f st = Some (True, st')"
  obtains e where "st' = st\<lparr>ec_out := ec_out st @ s, ec_err := e\<rparr>"
  using assms unfolding writes_def by blast

lemma same_err: "\<exists>e. st\<lparr>ec_out := s\<rparr> = st\<lparr>ec_out := s, ec_err := e\<rparr>" "\<exists>e. st = st\<lparr>ec_err := e\<rparr>"
  by (rule exI [of _ "ec_err st"], cases st, simp)+

lemma writes_put: "writes (put s) s"
  unfolding writes_def put_def by (auto intro: same_err)

lemma writes_text: "text_only f \<Longrightarrow> extends f g \<Longrightarrow> writes f (text_of g)"
  using text_only_run unfolding writes_def by blast

lemma writes_run_all: "list_all2 writes fs ss \<Longrightarrow> writes (run_all fs) (concat ss)"
proof (induction fs ss rule: list_all2_induct)
  case Nil
  show ?case unfolding writes_def by (auto intro: same_err)
next
  case (Cons f fs s ss)
  show ?case
    unfolding writes_def
  proof (intro allI impI)
    fix st st'
    assume "run_all (f # fs) st = Some (True, st')"
    then obtain st1 where f: "f st = Some (True, st1)" and fs: "run_all fs st1 = Some (True, st')"
      by (auto split: option.splits if_splits)
    obtain e where "st1 = st\<lparr>ec_out := ec_out st @ s, ec_err := e\<rparr>" using Cons.hyps(1) f by (rule writesE)
    moreover obtain e' where "st' = st1\<lparr>ec_out := ec_out st1 @ concat ss, ec_err := e'\<rparr>"
      using Cons.IH fs by (rule writesE)
    ultimately show "\<exists>e. st' = st\<lparr>ec_out := ec_out st @ concat (s # ss), ec_err := e\<rparr>" by auto
  qed
qed

lemma writes_typedef:
  assumes "n \<le> N" and "known_type b i = Some t"
  shows "writes (run_all [put ''typedef '', emit_decl b rq n (size_or_type t) (mch_btf_type_name b t),
      put ('';'' @ newline @ newline)]) (item_text b rq N (Typedef_Of i))"
proof -
  let ?g = "emit_decl b rq N (size_or_type t) (mch_btf_type_name b t)"
  have decl: "writes (emit_decl b rq n (size_or_type t) (mch_btf_type_name b t)) (text_of ?g)"
    unfolding emit_decl_def by (intro writes_text text_decl_ex extends_decl_ex assms(1))
  have "list_all2 writes [put ''typedef '', emit_decl b rq n (size_or_type t) (mch_btf_type_name b t),
      put ('';'' @ newline @ newline)] [''typedef '', text_of ?g, '';'' @ newline @ newline]"
    by (intro list.rel_intros writes_put decl)
  from writes_run_all [OF this] show ?thesis by (simp add: assms(2))
qed

lemma writes_record:
  assumes "n \<le> N" and "known_type b i = Some t"
  shows "writes (run_all
     [put ((if kind t = BTF_KIND_STRUCT then ''struct'' else ''union'') @ '' '' @ mch_btf_type_name b t),
      emit_record_body (emit_decl_ex b rq n) b rq i t, put ('';'' @ newline @ newline)])
     (item_text b rq N (Record_Of i))"
proof -
  let ?head = "(if kind t = BTF_KIND_STRUCT then ''struct'' else ''union'') @ '' '' @ mch_btf_type_name b t"
  let ?g = "emit_record_body (emit_decl_ex b rq N) b rq i t"
  have body: "writes (emit_record_body (emit_decl_ex b rq n) b rq i t) (text_of ?g)"
    by (intro writes_text text_record_body text_decl_ex extends_record_body extends_decl_ex assms(1))
  have "list_all2 writes [put ?head, emit_record_body (emit_decl_ex b rq n) b rq i t,
      put ('';'' @ newline @ newline)] [?head, text_of ?g, '';'' @ newline @ newline]"
    by (intro list.rel_intros writes_put body)
  from writes_run_all [OF this] show ?thesis by (simp add: assms(2))
qed

subsection \<open>The updates of the state arrays\<close>

fun set_item :: "item \<Rightarrow> u8 \<Rightarrow> emitter" where
  "set_item (Forward i) v = set_fwd_state i v"
| "set_item (Typedef_Of i) v = set_typedef_state i v"
| "set_item (Record_Of i) v = set_record_state i v"

fun item_id :: "item \<Rightarrow> u32" where
  "item_id (Forward i) = i"
| "item_id (Typedef_Of i) = i"
| "item_id (Record_Of i) = i"

definition is_forward :: "item \<Rightarrow> bool" where
  "is_forward x \<longleftrightarrow> (\<exists>i. x = Forward i)"

lemma updated_nth:
  assumes "unat (c :: u32) \<le> length xs" and "i < c" and "j < c"
  shows "xs[unat i := v] ! unat j = (if i = j then v else xs ! unat j)"
  using assms by (simp add: nth_list_update word_less_nat_alt word_unat_eq_iff)

lemma set_item_effect:
  assumes "set_item y v st = Some (True, st')" and "ctx_ok b st" and "item_id y < type_cnt b"
    and "\<not> is_forward y" and "v = 1 \<or> v = 2"
  shows "ctx_ok b st'" "ec_out st' = ec_out st"
    "\<And>x. printed b st' x \<longleftrightarrow> (if x = y then v = 2 else printed b st x)"
    "\<And>x. pending b st' x \<longleftrightarrow> (if x = y then v = 1 else pending b st x)"
proof -
  show "ctx_ok b st'" using assms
    by (cases y) (auto simp: ctx_ok_def is_forward_def set_typedef_state_def set_record_state_def
        dest!: subsetD [OF set_update_subset_insert])
  show "ec_out st' = ec_out st" using assms
    by (cases y) (auto simp: is_forward_def set_typedef_state_def set_record_state_def)
  show "printed b st' x \<longleftrightarrow> (if x = y then v = 2 else printed b st x)" for x using assms
    by (cases y; cases x)
      (auto simp: ctx_ok_def is_forward_def set_typedef_state_def set_record_state_def updated_nth)
  show "pending b st' x \<longleftrightarrow> (if x = y then v = 1 else pending b st x)" for x using assms
    by (cases y; cases x)
      (auto simp: ctx_ok_def is_forward_def set_typedef_state_def set_record_state_def updated_nth)
qed

lemma printed_not_pending: "printed b st x \<Longrightarrow> \<not> pending b st x"
  by (cases x) auto

text \<open>What the two definitions do once their guards have passed.\<close>

lemma item_run:
  assumes run: "run_all [set_item y 1, deps, f1, f2, f3, set_item y 2] st = Some (True, st')"
    and y: "ctx_ok b st" "item_id y < type_cnt b" "\<not> is_forward y" "\<not> printed b st y" "\<not> pending b st y"
    and deps: "prints b rq N (requires b rq y) deps"
    and piece: "writes (run_all [f1, f2, f3]) (item_text b rq N y)"
  shows "\<exists>xs. emits b rq N st xs st' \<and> (\<forall>r \<in> {y}. printed b st' r \<or> pending b st' r)
    \<and> (\<forall>x \<in> set xs. \<exists>r \<in> {y}. r = x \<or> leads (requires b rq) r x)"
proof -
  obtain st1 st2 st3 where s1: "set_item y 1 st = Some (True, st1)" and s2: "deps st1 = Some (True, st2)"
    and s3: "run_all [f1, f2, f3] st2 = Some (True, st3)" and s4: "set_item y 2 st3 = Some (True, st')"
    using run by (auto split: option.splits if_splits)
  note open1 = set_item_effect [OF s1 y(1-3)]
  have ok1: "ctx_ok b st1" using open1(1) by simp
  obtain xs where xs: "emits b rq N st1 xs st2" "\<forall>r \<in> requires b rq y. printed b st2 r \<or> pending b st2 r"
    "\<forall>x \<in> set xs. \<exists>r \<in> requires b rq y. r = x \<or> leads (requires b rq) r x" using deps ok1 s2 by (rule printsE)
  obtain e where st3: "st3 = st2\<lparr>ec_out := ec_out st2 @ item_text b rq N y, ec_err := e\<rparr>"
    using piece s3 by (rule writesE)
  have ok3: "ctx_ok b st3" using xs(1) by (simp add: st3 emits_def)
  note close = set_item_effect [OF s4 ok3 y(2,3)]
  have lead: "\<forall>x \<in> set xs. leads (requires b rq) y x"
    using xs(3) leads_step [of _ "requires b rq" y] leads_trans [of "requires b rq" y] by blast
  have bracket: "emits b rq N st (xs @ [y]) st'"
  proof (rule emits_bracket [OF _ _ _ xs(1) y(4,5) lead xs(2)])
    show "pending b st1 x \<longleftrightarrow> pending b st x \<or> x = y" for x using open1(4) by simp
    show "printed b st1 x \<longleftrightarrow> printed b st x" for x using open1(3) y(4) by simp
    show "ec_out st1 = ec_out st" using open1(2) by simp
    show "ctx_ok b st'" using close(1) by simp
    show "ec_out st' = ec_out st2 @ item_text b rq N y" using close(2) by (simp add: st3)
    show "printed b st' x \<longleftrightarrow> printed b st2 x \<or> x = y" for x using close(3) by (simp add: st3)
    show "pending b st' x \<longleftrightarrow> pending b st2 x \<and> x \<noteq> y" for x using close(4) by (simp add: st3)
  qed
  have "printed b st' y" using close(3) by simp
  with lead have "\<forall>x \<in> set (xs @ [y]). \<exists>r \<in> {y}. r = x \<or> leads (requires b rq) r x" by auto
  with bracket \<open>printed b st' y\<close> show ?thesis by blast
qed

subsection \<open>The walk\<close>

lemma nth_zero_or_one: "ctx_ok b st \<Longrightarrow> i < type_cnt b \<Longrightarrow> ec_typedef_state st ! unat i \<noteq> 2
    \<Longrightarrow> ec_typedef_state st ! unat i \<noteq> 1 \<Longrightarrow> \<not> printed b st (Typedef_Of i) \<and> \<not> pending b st (Typedef_Of i)"
  by simp

lemma known_type_some: "known_type b i = Some t \<Longrightarrow> i < type_cnt b \<and> type_by_id b i = Some t"
  by (simp add: known_type_def split: if_splits)

lemma prints_nothing: "prints b rq N {} success"
  by (rule prints_success)

lemma prints_forward:
  "prints b rq N {x. \<exists>t. known_type b i = Some t \<and> x = Forward i \<and> mch_btf_type_name b t \<noteq> []
      \<and> (is_record_kind (kind t) \<or> kind t = BTF_KIND_FWD)} (emit_forward_decl b i)"
  unfolding emit_forward_decl_def
proof (rule prints_with_type)
  fix t
  assume t: "known_type b i = Some t"
  let ?R = "{x. \<exists>t. known_type b i = Some t \<and> x = Forward i \<and> mch_btf_type_name b t \<noteq> []
      \<and> (is_record_kind (kind t) \<or> kind t = BTF_KIND_FWD)}"
  let ?f = "\<lambda>st. if mch_btf_type_name b t = [] \<or> ec_fwd_state st ! unat i \<noteq> 0 then success
      else run_all [put (record_keyword t @ '' '' @ mch_btf_type_name b t @ '';'' @ newline), set_fwd_state i 1]"
  have i: "i < type_cnt b" using known_type_some [OF t] by simp
  show "prints b rq N ?R
      (if kind t \<noteq> BTF_KIND_STRUCT \<and> kind t \<noteq> BTF_KIND_UNION \<and> kind t \<noteq> BTF_KIND_FWD then success
       else let name = mch_btf_type_name b t
            in reading (\<lambda>st. if name = [] \<or> ec_fwd_state st ! unat i \<noteq> 0 then success
                 else run_all [put (record_keyword t @ '' '' @ name @ '';'' @ newline), set_fwd_state i 1]))"
  proof (cases "mch_btf_type_name b t \<noteq> [] \<and> (is_record_kind (kind t) \<or> kind t = BTF_KIND_FWD)")
    case False
    then have "?R = {}" using t by auto
    then show ?thesis using False
      by (auto simp: prints_def reading_def success_def intro: emits_refl intro!: exI [of _ "[]"])
  next
    case True
    then have R: "?R = {Forward i}" using t by auto
    have "prints b rq N {Forward i} (reading ?f)"
    proof (rule printsI)
      fix st st'
      assume ok: "ctx_ok b st" and run: "reading ?f st = Some (True, st')"
      show "\<exists>xs. emits b rq N st xs st' \<and> (\<forall>r \<in> {Forward i}. printed b st' r \<or> pending b st' r)
          \<and> (\<forall>x \<in> set xs. \<exists>r \<in> {Forward i}. r = x \<or> leads (requires b rq) r x)"
      proof (cases "ec_fwd_state st ! unat i = 0")
        case False
        then have "st' = st" using run by (simp add: reading_def success_def)
        then show ?thesis using ok False i by (intro exI [of _ "[]"]) (simp add: emits_refl)
      next
        case fresh: True
        let ?s = "record_keyword t @ '' '' @ mch_btf_type_name b t @ '';'' @ newline"
        have st': "st' = st\<lparr>ec_out := ec_out st @ ?s, ec_fwd_state := (ec_fwd_state st)[unat i := 1]\<rparr>"
          using run True fresh by (simp add: reading_def put_def set_fwd_state_def)
        have pr: "printed b st' x \<longleftrightarrow> printed b st x \<or> x = Forward i" for x
          using ok i fresh by (cases x) (auto simp: st' ctx_ok_def updated_nth split: if_splits)
        moreover have "pending b st' x \<longleftrightarrow> pending b st x" for x by (cases x) (simp_all add: st')
        moreover have "ctx_ok b st'" using ok by (simp add: st' ctx_ok_def)
        ultimately have "emits b rq N st [Forward i] st'"
          using fresh pr by (simp add: emits_def st' t)
        moreover have "printed b st' (Forward i)" using pr by blast
        ultimately show ?thesis by (intro exI [of _ "[Forward i]"]) simp
      qed
    qed
    then show ?thesis using True unfolding R Let_def by auto
  qed
qed

text \<open>What the functions are asked for, one step unfolded.\<close>

definition typedef_items :: "btf \<Rightarrow> u32 \<Rightarrow> item set" where
  "typedef_items b i = (case known_type b i of None \<Rightarrow> {}
     | Some t \<Rightarrow> if kind t = BTF_KIND_TYPEDEF \<and> mch_btf_type_name b t \<noteq> [] then {Typedef_Of i} else {})"

definition record_items :: "btf \<Rightarrow> u32 \<Rightarrow> item set" where
  "record_items b i = (case known_type b i of None \<Rightarrow> {}
     | Some t \<Rightarrow> if is_named_record b t then {Record_Of i} else {})"

definition forward_items :: "btf \<Rightarrow> u32 \<Rightarrow> item set" where
  "forward_items b i = (case known_type b i of None \<Rightarrow> {}
     | Some t \<Rightarrow> if mch_btf_type_name b t \<noteq> [] \<and> (is_record_kind (kind t) \<or> kind t = BTF_KIND_FWD)
                then {Forward i} else {})"

lemma prints_forward_items: "prints b rq N (forward_items b i) (emit_forward_decl b i)"
proof -
  have "forward_items b i = {x. \<exists>t. known_type b i = Some t \<and> x = Forward i \<and> mch_btf_type_name b t \<noteq> []
      \<and> (is_record_kind (kind t) \<or> kind t = BTF_KIND_FWD)}"
    by (auto simp: forward_items_def split: option.splits if_splits)
  then show ?thesis by (simp only: prints_forward)
qed

lemma soft_items:
  assumes "known_type b i = Some t" and "i \<noteq> 0"
  shows "{x. soft_item b i x} = soft_here b i t \<union> (\<Union>j \<in> set (soft_targets t). {x. soft_item b j x})"
proof -
  have "soft_item b i x \<longleftrightarrow> x \<in> soft_here b i t \<or> (\<exists>j \<in> set (soft_targets t). soft_item b j x)" for x
  proof
    assume "soft_item b i x"
    then show "x \<in> soft_here b i t \<or> (\<exists>j \<in> set (soft_targets t). soft_item b j x)"
      by (rule soft_item.cases) (use assms in auto)
  next
    assume "x \<in> soft_here b i t \<or> (\<exists>j \<in> set (soft_targets t). soft_item b j x)"
    then show "soft_item b i x" using soft_item_here [OF assms] soft_item_through [OF assms] by blast
  qed
  then show ?thesis by auto
qed

lemma soft_items_void: "{x. soft_item b 0 x} = {}"
  unfolding soft_item_iff [of b 0] by simp

lemma hard_items:
  assumes "known_type b i = Some t"
  shows "{x. hard_item b rq i x} = hard_here b i t \<union> (\<Union>j \<in> set (hard_targets b rq i t). {x. hard_item b rq j x})"
proof -
  have "hard_item b rq i x \<longleftrightarrow> x \<in> hard_here b i t \<or> (\<exists>j \<in> set (hard_targets b rq i t). hard_item b rq j x)" for x
  proof
    assume "hard_item b rq i x"
    then show "x \<in> hard_here b i t \<or> (\<exists>j \<in> set (hard_targets b rq i t). hard_item b rq j x)"
      by (rule hard_item.cases) (use assms in auto)
  next
    assume "x \<in> hard_here b i t \<or> (\<exists>j \<in> set (hard_targets b rq i t). hard_item b rq j x)"
    then show "hard_item b rq i x" using hard_item_here [OF assms] hard_item_through [OF assms] by blast
  qed
  then show ?thesis by auto
qed

lemma error_only_hard_target: "error_only (typedef_target_needs_hard_deps b i)"
proof -
  have "error_only (hard_target_loop n b i)" for n
  proof (induction n arbitrary: i)
    case 0
    have "hard_target_loop 0 b i = (\<lambda>st. (True, st))" by (intro ext) simp
    then show ?case by (simp add: error_only_return)
  next
    case (Suc n)
    let ?rest = "\<lambda>t. case t of None \<Rightarrow> (\<lambda>st. (False, st)) | Some t \<Rightarrow>
        (if kind t \<in> {BTF_KIND_CONST, BTF_KIND_VOLATILE, BTF_KIND_RESTRICT, BTF_KIND_TYPE_TAG, BTF_KIND_DECL_TAG}
         then hard_target_loop n b (size_or_type t)
         else (\<lambda>st. (kind t = BTF_KIND_ARRAY \<or> is_record_kind (kind t) \<and> mch_btf_type_name b t = [], st)))"
    have "hard_target_loop (Suc n) b i = (\<lambda>st. let (t, st') = emit_type_by_id b i st in ?rest t st')"
      by (rule ext) (auto simp: Let_def split: option.split btf_kind.split prod.split)
    moreover have "error_only (?rest t)" for t
      using Suc.IH error_only_return by (auto split: option.split)
    then have "error_only (\<lambda>st. let (t, st') = emit_type_by_id b i st in ?rest t st')"
      by (rule error_only_bind [OF error_only_type])
    ultimately show ?case by (simp only:)
  qed
  then show ?thesis by (simp add: typedef_target_needs_hard_deps_def [abs_def])
qed

lemma prints_target:
  assumes "known_type b i = Some t"
    and "prints b rq N {x. hard_item b rq (size_or_type t) x} f"
    and "prints b rq N {x. soft_item b (size_or_type t) x} g"
  shows "prints b rq N (requires b rq (Typedef_Of i))
     (after (typedef_target_needs_hard_deps b (size_or_type t)) (\<lambda>hard. if hard then f else g))"
proof (rule prints_after [OF error_only_hard_target])
  show "prints b rq N (requires b rq (Typedef_Of i))
     (if fst (typedef_target_needs_hard_deps b (size_or_type t) blank_ctx) then f else g)"
    using assms by (simp add: hard_target_def)
qed

lemma prints_typedef:
  assumes "n \<le> N"
    and hard: "\<And>i. prints b rq N {x. hard_item b rq i x} (emit_hard_deps b rq n i)"
    and soft: "\<And>i. prints b rq N {x. soft_item b i x} (emit_soft_deps b rq n i)"
  shows "prints b rq N (typedef_items b i) (emit_typedef_definition b rq (Suc n) i)"
  unfolding emit_typedef_definition.simps
proof (rule prints_with_type)
  fix t
  assume t: "known_type b i = Some t"
  let ?deps = "after (typedef_target_needs_hard_deps b (size_or_type t))
      (\<lambda>hard. if hard then emit_hard_deps b rq n (size_or_type t) else emit_soft_deps b rq n (size_or_type t))"
  let ?run = "[set_typedef_state i 1, ?deps, put ''typedef '',
      emit_decl b rq n (size_or_type t) (mch_btf_type_name b t), put ('';'' @ newline @ newline),
      set_typedef_state i 2]"
  have i: "i < type_cnt b" using known_type_some [OF t] by simp
  have deps: "prints b rq N (requires b rq (Typedef_Of i)) ?deps" by (rule prints_target [OF t hard soft])
  have "prints b rq N (typedef_items b i)
      (reading (\<lambda>st. if ec_typedef_state st ! unat i = 2 then success
         else if ec_typedef_state st ! unat i = 1 then fail_with (''typedef dependency cycle at type id '' @ show_u i)
         else if mch_btf_type_name b t = [] then success else run_all ?run))" (is "prints b rq N _ ?f")
    if k: "kind t = BTF_KIND_TYPEDEF"
  proof (rule printsI)
    fix st st'
    assume ok: "ctx_ok b st" and run: "?f st = Some (True, st')"
    consider "ec_typedef_state st ! unat i = 2" | "mch_btf_type_name b t = []"
      | "ec_typedef_state st ! unat i \<noteq> 2" "ec_typedef_state st ! unat i \<noteq> 1" "mch_btf_type_name b t \<noteq> []"
      using run by (auto simp: reading_def fail_with_def split: if_splits)
    then show "\<exists>xs. emits b rq N st xs st' \<and> (\<forall>r \<in> typedef_items b i. printed b st' r \<or> pending b st' r)
        \<and> (\<forall>x \<in> set xs. \<exists>r \<in> typedef_items b i. r = x \<or> leads (requires b rq) r x)"
    proof cases
      case 1
      then have "st' = st" using run by (simp add: reading_def success_def)
      then show ?thesis using ok 1 i
        by (intro exI [of _ "[]"]) (simp add: emits_refl typedef_items_def t split: if_split)
    next
      case 2
      then have "st' = st" using run by (simp add: reading_def success_def fail_with_def split: if_splits)
      then show ?thesis using ok 2
        by (intro exI [of _ "[]"]) (simp add: emits_refl typedef_items_def t)
    next
      case 3
      have items: "typedef_items b i = {Typedef_Of i}" using 3 k by (simp add: typedef_items_def t)
      have step: "run_all [set_item (Typedef_Of i) 1, ?deps, put ''typedef '',
          emit_decl b rq n (size_or_type t) (mch_btf_type_name b t), put ('';'' @ newline @ newline),
          set_item (Typedef_Of i) 2] st = Some (True, st')"
        using run 3 by (simp only: reading_def if_False set_item.simps)
      show ?thesis
        unfolding items
        by (rule item_run [OF step ok _ _ _ _ deps writes_typedef [OF assms(1) t]])
          (use 3 i in \<open>simp_all add: is_forward_def\<close>)
    qed
  qed
  moreover have "typedef_items b i = {}" if "kind t \<noteq> BTF_KIND_TYPEDEF" using that by (simp add: typedef_items_def t)
  ultimately show "prints b rq N (typedef_items b i)
      (if kind t \<noteq> BTF_KIND_TYPEDEF then success
       else reading (\<lambda>st. if ec_typedef_state st ! unat i = 2 then success
         else if ec_typedef_state st ! unat i = 1 then fail_with (''typedef dependency cycle at type id '' @ show_u i)
         else if mch_btf_type_name b t = [] then success else run_all ?run))"
    by (auto intro: prints_success)
qed

lemma prints_record:
  assumes "n \<le> N"
    and hard: "\<And>i. prints b rq N {x. hard_item b rq i x} (emit_hard_deps b rq n i)"
  shows "prints b rq N (record_items b i) (emit_record_definition b rq (Suc n) i)"
  unfolding emit_record_definition.simps
proof (rule prints_with_type)
  fix t
  assume t: "known_type b i = Some t"
  let ?deps = "run_all (map (\<lambda>j. emit_hard_deps b rq n j) (shown_members rq i t))"
  let ?head = "put ((if kind t = BTF_KIND_STRUCT then ''struct'' else ''union'') @ '' '' @ mch_btf_type_name b t)"
  let ?body = "emit_record_body (emit_decl_ex b rq n) b rq i t"
  let ?run = "[set_record_state i 1, ?deps, ?head, ?body, put ('';'' @ newline @ newline), set_record_state i 2]"
  let ?f = "reading (\<lambda>st. if ec_record_state st ! unat i = 2 then success
      else if ec_record_state st ! unat i = 1 then success else run_all ?run)"
  have i: "i < type_cnt b" using known_type_some [OF t] by simp
  have "requires b rq (Record_Of i) = (\<Union>j \<in> set (shown_members rq i t). {x. hard_item b rq j x})"
    by (auto simp: t)
  moreover have "prints b rq N (\<Union>j \<in> set (shown_members rq i t). {x. hard_item b rq j x}) ?deps"
    by (rule prints_run_map) (rule hard)
  ultimately have deps: "prints b rq N (requires b rq (Record_Of i)) ?deps" by (simp only:)
  have "prints b rq N (record_items b i) ?f" if k: "is_named_record b t"
  proof (rule printsI)
    fix st st'
    assume ok: "ctx_ok b st" and run: "?f st = Some (True, st')"
    have items: "record_items b i = {Record_Of i}" using k by (simp add: record_items_def t)
    show "\<exists>xs. emits b rq N st xs st' \<and> (\<forall>r \<in> record_items b i. printed b st' r \<or> pending b st' r)
        \<and> (\<forall>x \<in> set xs. \<exists>r \<in> record_items b i. r = x \<or> leads (requires b rq) r x)"
    proof (cases "ec_record_state st ! unat i = 2 \<or> ec_record_state st ! unat i = 1")
      case True
      then have "st' = st" using run by (auto simp: reading_def success_def)
      then show ?thesis using ok True i by (intro exI [of _ "[]"]) (auto simp: emits_refl items)
    next
      case False
      have step: "run_all [set_item (Record_Of i) 1, ?deps, ?head, ?body, put ('';'' @ newline @ newline),
          set_item (Record_Of i) 2] st = Some (True, st')"
        using run False by (simp only: reading_def if_False set_item.simps de_Morgan_disj)
      show ?thesis
        unfolding items
        by (rule item_run [OF step ok _ _ _ _ deps writes_record [OF assms(1) t]])
          (use False i in \<open>simp_all add: is_forward_def\<close>)
    qed
  qed
  moreover have "record_items b i = {}" if "\<not> is_named_record b t" using that by (simp add: record_items_def t)
  ultimately show "prints b rq N (record_items b i) (if \<not> is_named_record b t then success else ?f)"
    by (auto intro: prints_success)
qed

lemma with_type_cong: "(\<And>t. f t = g t) \<Longrightarrow> with_type b i f = with_type b i g"
  by presburger

lemma prints_soft:
  assumes typedefs: "\<And>i. prints b rq N (typedef_items b i) (emit_typedef_definition b rq n i)"
    and soft: "\<And>i. prints b rq N {x. soft_item b i x} (emit_soft_deps b rq n i)"
  shows "prints b rq N {x. soft_item b i x} (emit_soft_deps b rq (Suc n) i)"
proof (cases "i = 0")
  case True
  then show ?thesis by (simp add: emit_soft_deps.simps soft_items_void prints_success del: Collect_empty_eq)
next
  case False
  let ?F = "\<lambda>t. case kind t of
       BTF_KIND_TYPEDEF \<Rightarrow> emit_typedef_definition b rq n i
     | BTF_KIND_FUNC_PROTO \<Rightarrow> run_all (map (emit_soft_deps b rq n) (soft_targets t))
     | BTF_KIND_STRUCT \<Rightarrow> emit_forward_decl b i | BTF_KIND_UNION \<Rightarrow> emit_forward_decl b i
     | BTF_KIND_FWD \<Rightarrow> emit_forward_decl b i
     | _ \<Rightarrow> (case soft_targets t of [j] \<Rightarrow> emit_soft_deps b rq n j | _ \<Rightarrow> success)"
  have "prints b rq N {x. soft_item b i x} (?F t)" if t: "known_type b i = Some t" for t
  proof -
    note items = soft_items [OF t False]
    have here: "soft_here b i t = typedef_items b i" if "kind t = BTF_KIND_TYPEDEF"
      using that by (simp add: soft_here_def typedef_items_def t)
    have fwd: "soft_here b i t = forward_items b i" if "is_record_kind (kind t) \<or> kind t = BTF_KIND_FWD"
      using that by (auto simp: soft_here_def forward_items_def t)
    have none: "soft_here b i t = {}"
      if "kind t \<noteq> BTF_KIND_TYPEDEF" "\<not> is_record_kind (kind t)" "kind t \<noteq> BTF_KIND_FWD"
      using that by (simp add: soft_here_def)
    have many: "prints b rq N (\<Union>j \<in> set (soft_targets t). {x. soft_item b j x})
        (run_all (map (emit_soft_deps b rq n) (soft_targets t)))"
      by (rule prints_run_map) (rule soft)
    show ?thesis
      unfolding items
      by (cases "kind t") (use many soft in \<open>simp_all add: here fwd none typedefs prints_forward_items prints_success
          soft_targets_def\<close>)
  qed
  moreover have "emit_soft_deps b rq (Suc n) i = with_type b i ?F"
    unfolding emit_soft_deps.simps if_not_P [OF False]
    by (rule with_type_cong) (auto simp: soft_targets_def o_def simp del: run_all.simps split: btf_kind.split)
  ultimately show ?thesis using prints_with_type by presburger
qed

lemma prints_hard:
  assumes typedefs: "\<And>i. prints b rq N (typedef_items b i) (emit_typedef_definition b rq n i)"
    and records: "\<And>i. prints b rq N (record_items b i) (emit_record_definition b rq n i)"
    and soft: "\<And>i. prints b rq N {x. soft_item b i x} (emit_soft_deps b rq n i)"
    and hard: "\<And>i. prints b rq N {x. hard_item b rq i x} (emit_hard_deps b rq n i)"
  shows "prints b rq N {x. hard_item b rq i x} (emit_hard_deps b rq (Suc n) i)"
proof -
  let ?members = "\<lambda>t. if is_named_record b t then emit_record_definition b rq n i
      else run_all (map (emit_hard_deps b rq n) (hard_targets b rq i t))"
  let ?F = "\<lambda>t. case kind t of
       BTF_KIND_PTR \<Rightarrow> emit_soft_deps b rq n i | BTF_KIND_FUNC_PROTO \<Rightarrow> emit_soft_deps b rq n i
     | BTF_KIND_FWD \<Rightarrow> emit_forward_decl b i
     | BTF_KIND_TYPEDEF \<Rightarrow>
         run_all [emit_hard_deps b rq n (size_or_type t), emit_typedef_definition b rq n i]
     | BTF_KIND_STRUCT \<Rightarrow> ?members t | BTF_KIND_UNION \<Rightarrow> ?members t
     | _ \<Rightarrow> (case hard_targets b rq i t of [j] \<Rightarrow> emit_hard_deps b rq n j | _ \<Rightarrow> success)"
  have "prints b rq N {x. hard_item b rq i x} (?F t)" if t: "known_type b i = Some t" for t
  proof -
    note items = hard_items [OF t, of rq]
    have fwd: "hard_here b i t = forward_items b i" if "kind t = BTF_KIND_FWD"
      using that by (auto simp: hard_here_def forward_items_def t)
    have many: "prints b rq N (\<Union>j \<in> set (hard_targets b rq i t). {x. hard_item b rq j x})
        (run_all (map (emit_hard_deps b rq n) (hard_targets b rq i t)))"
      by (rule prints_run_map) (rule hard)
    have members: "prints b rq N
        (hard_here b i t \<union> (\<Union>j \<in> set (hard_targets b rq i t). {x. hard_item b rq j x})) (?members t)"
      if k: "is_record_kind (kind t)"
    proof (cases "is_named_record b t")
      case True
      then have "hard_here b i t = record_items b i" "hard_targets b rq i t = []"
        using k by (auto simp: hard_here_def record_items_def is_named_record_def hard_targets_def t)
      then show ?thesis using True records by simp
    next
      case False
      then have "hard_here b i t = {}" using k by (auto simp: hard_here_def is_named_record_def)
      then show ?thesis using False many by (simp only: if_False Un_empty_left)
    qed
    have both: "prints b rq N (hard_here b i t \<union> {x. hard_item b rq (size_or_type t) x})
        (run_all [emit_hard_deps b rq n (size_or_type t), emit_typedef_definition b rq n i])"
      if k: "kind t = BTF_KIND_TYPEDEF"
    proof -
      have here: "hard_here b i t = typedef_items b i"
        using k by (simp add: hard_here_def typedef_items_def t)
      have last: "prints b rq N (typedef_items b i \<union> {}) (run_all [emit_typedef_definition b rq n i])"
        by (intro prints_cons typedefs) (simp add: prints_success [unfolded success_def [abs_def]]
            run_all.simps [abs_def])
      have union: "hard_here b i t \<union> {x. hard_item b rq (size_or_type t) x}
          = {x. hard_item b rq (size_or_type t) x} \<union> (typedef_items b i \<union> {})"
        by (auto simp: here)
      show ?thesis unfolding union by (rule prints_cons [OF hard last])
    qed
    show ?thesis
      unfolding items
    proof -
      consider "is_record_kind (kind t)" | "kind t = BTF_KIND_FWD" | "kind t = BTF_KIND_TYPEDEF"
        | "\<not> (is_record_kind (kind t) \<or> kind t = BTF_KIND_FWD \<or> kind t = BTF_KIND_TYPEDEF)" by blast
      then show "prints b rq N (hard_here b i t \<union> (\<Union>j \<in> set (hard_targets b rq i t). {x. hard_item b rq j x})) (?F t)"
      proof cases
        case 1
        have "?F t = ?members t" using 1 by auto
        then show ?thesis using members [OF 1] by (simp only:)
      next
        case 2
        then show ?thesis using prints_forward_items by (simp add: fwd hard_targets_def)
      next
        case 3
        have "(\<Union>j \<in> set (hard_targets b rq i t). {x. hard_item b rq j x}) = {x. hard_item b rq (size_or_type t) x}"
          using 3 by (simp add: hard_targets_def)
        moreover have "?F t = run_all [emit_hard_deps b rq n (size_or_type t), emit_typedef_definition b rq n i]"
          using 3 by (simp del: run_all.simps)
        ultimately show ?thesis using both [OF 3] by (simp only:)
      next
        case 4
        then show ?thesis using hard soft
          by (cases "kind t") (simp_all add: prints_success hard_targets_def hard_here_def)
      qed
    qed
  qed
  moreover have "emit_hard_deps b rq (Suc n) i = with_type b i ?F"
    unfolding emit_hard_deps.simps
    by (rule with_type_cong)
      (auto simp: hard_targets_def is_named_record_def simp del: run_all.simps split: btf_kind.split)
  ultimately show ?thesis using prints_with_type by presburger
qed

text \<open>All four together, at any depth that the texts' depth \<open>N\<close> covers.\<close>

lemma walk_prints:
  assumes "n \<le> N"
  shows "prints b rq N (typedef_items b i) (emit_typedef_definition b rq n i)"
    and "prints b rq N (record_items b j) (emit_record_definition b rq n j)"
    and "prints b rq N {x. soft_item b k x} (emit_soft_deps b rq n k)"
    and "prints b rq N {x. hard_item b rq l x} (emit_hard_deps b rq n l)"
  using assms
proof (induction n arbitrary: i j k l)
  case 0
  {
    case 1
    show ?case by (simp only: emit_typedef_definition.simps prints_vacuous)
  next
    case 2
    show ?case by (simp only: emit_record_definition.simps prints_vacuous)
  next
    case 3
    show ?case by (simp only: emit_soft_deps.simps prints_vacuous)
  next
    case 4
    show ?case by (simp only: emit_hard_deps.simps prints_vacuous)
  }
next
  case (Suc n)
  {
    case 1
    then show ?case by (intro prints_typedef Suc.IH) simp_all
  next
    case 2
    then show ?case by (intro prints_record Suc.IH) simp_all
  next
    case 3
    then show ?case by (intro prints_soft Suc.IH) simp_all
  next
    case 4
    then show ?case by (intro prints_hard Suc.IH) simp_all
  }
qed

end
