(* ===== verification/Emit_Header.thy ===== *)
theory Emit_Header
  imports Emit_Walk
begin

text \<open>
  The rest of \<^verbatim>\<open>src/emitter.c\<close>: the definitions of enums, the arrays in which the required types are
  sorted by what has to be printed for them, and the header as a whole.
\<close>

subsection \<open>Enums\<close>

text \<open>\<^verbatim>\<open>value_name == NULL ? "__anonymous" : value_name\<close>\<close>

definition value_name :: "btf \<Rightarrow> u32 \<Rightarrow> string" where
  "value_name b off = (case name_by_offset b off of None \<Rightarrow> ''__anonymous'' | Some name \<Rightarrow> name)"

definition enum64_number :: "btf_enum64 \<Rightarrow> u64" where
  "enum64_number v = push_bit 32 (ucast (e64_val_hi32 v)) OR ucast (e64_val_lo32 v)"

definition enum_line :: "btf \<Rightarrow> btf_type \<Rightarrow> nat \<Rightarrow> string" where
  "enum_line b t k =
     (let comma = (if k + 1 = nvlen t then '''' else '','')
      in if kind t = BTF_KIND_ENUM
         then ''  '' @ value_name b (e_name_off (enum_value t k)) @ '' = ''
                @ show_d (e_val (enum_value t k)) @ comma @ newline
         else ''  '' @ value_name b (e64_name_off (enum64_value t k)) @ '' = ''
                @ (if kflag t then show_d (enum64_number (enum64_value t k))
                   else show_u (enum64_number (enum64_value t k)) @ ''ULL'') @ comma @ newline)"

definition emit_enum_definition :: "btf \<Rightarrow> u32 \<Rightarrow> emitter" where
  "emit_enum_definition b i =
     with_type b i (\<lambda>t. run_all
       ([put (if mch_btf_type_name b t \<noteq> [] then ''enum '' @ mch_btf_type_name b t @ '' {'' @ newline
              else ''enum {'' @ newline)]
        @ map (\<lambda>k. put (enum_line b t k)) [0..<nvlen t]
        @ [put (''};'' @ newline @ newline)]))"

subsection \<open>The groups\<close>

text \<open>
  One allocation holds the four arrays, each of \<open>eg_capacity\<close> ids: \<^verbatim>\<open>groups->enums\<close> is
  \<^verbatim>\<open>groups->fwds + capacity\<close>, and so on. What \<^verbatim>\<open>malloc\<close> returns is uninitialised: \<open>None\<close> is
  an entry that has not been written.
\<close>

record emit_groups =
  eg_storage :: "u32 option list"
  eg_capacity :: size_t
  eg_fwd_count :: size_t
  eg_enum_count :: size_t
  eg_record_count :: size_t
  eg_typedef_count :: size_t

definition emit_groups_init :: "size_t \<Rightarrow> mch_error \<Rightarrow> heap \<Rightarrow> (emit_groups result) \<times> heap" where
  "emit_groups_init selected err h =
     (let capacity = (if selected = 0 then 1 else selected)
      in if capacity > 0xFFFFFFFFFFFFFFFF div 4 div 4
         then (Inl (mch_error_set ''header emission type order is too large'' err), h)
         else let (ok, h') = heap_alloc h
              in if \<not> ok
                 then (Inl (mch_error_set ''out of memory while preparing header emission order'' err), h')
                 else (Inr \<lparr>eg_storage = replicate (unat (capacity * 4)) None, eg_capacity = capacity,
                         eg_fwd_count = 0, eg_enum_count = 0, eg_record_count = 0, eg_typedef_count = 0\<rparr>, h'))"

text \<open>The first entry of each array, in the order of the storage.\<close>

definition eg_fwds :: "emit_groups \<Rightarrow> nat" where
  "eg_fwds g = 0"

definition eg_enums :: "emit_groups \<Rightarrow> nat" where
  "eg_enums g = eg_fwds g + unat (eg_capacity g)"

definition eg_records :: "emit_groups \<Rightarrow> nat" where
  "eg_records g = eg_enums g + unat (eg_capacity g)"

definition eg_typedefs :: "emit_groups \<Rightarrow> nat" where
  "eg_typedefs g = eg_records g + unat (eg_capacity g)"

definition group_ids :: "emit_groups \<Rightarrow> nat \<Rightarrow> size_t \<Rightarrow> u32 list" where
  "group_ids g start count = map (\<lambda>k. the (eg_storage g ! (start + k))) [0..<unat count]"

definition add_fwd :: "u32 \<Rightarrow> emit_groups \<Rightarrow> emit_groups" where
  "add_fwd i g = g\<lparr>eg_storage := (eg_storage g)[eg_fwds g + unat (eg_fwd_count g) := Some i],
     eg_fwd_count := eg_fwd_count g + 1\<rparr>"

definition add_enum :: "u32 \<Rightarrow> emit_groups \<Rightarrow> emit_groups" where
  "add_enum i g = g\<lparr>eg_storage := (eg_storage g)[eg_enums g + unat (eg_enum_count g) := Some i],
     eg_enum_count := eg_enum_count g + 1\<rparr>"

definition add_record :: "u32 \<Rightarrow> emit_groups \<Rightarrow> emit_groups" where
  "add_record i g = g\<lparr>eg_storage := (eg_storage g)[eg_records g + unat (eg_record_count g) := Some i],
     eg_record_count := eg_record_count g + 1\<rparr>"

definition add_typedef :: "u32 \<Rightarrow> emit_groups \<Rightarrow> emit_groups" where
  "add_typedef i g = g\<lparr>eg_storage := (eg_storage g)[eg_typedefs g + unat (eg_typedef_count g) := Some i],
     eg_typedef_count := eg_typedef_count g + 1\<rparr>"

text \<open>The body of the loop of \<^verbatim>\<open>collect_emit_groups\<close>.\<close>

definition collect_type :: "btf \<Rightarrow> u32 \<Rightarrow> btf_type \<Rightarrow> emit_groups \<Rightarrow> emit_groups" where
  "collect_type b i t g =
     (let g1 = (if (is_record_kind (kind t) \<or> kind t = BTF_KIND_FWD) \<and> mch_btf_type_name b t \<noteq> []
                then add_fwd i g else g);
          g2 = (if kind t = BTF_KIND_ENUM \<or> kind t = BTF_KIND_ENUM64 then add_enum i g1 else g1);
          g3 = (if is_named_record b t then add_record i g2 else g2)
      in if kind t = BTF_KIND_TYPEDEF then add_typedef i g3 else g3)"

partial_function (option) collect_loop ::
    "btf \<Rightarrow> mch_type_set \<Rightarrow> size_t \<Rightarrow> emit_ctx \<Rightarrow> emit_groups \<Rightarrow> (bool \<times> emit_ctx \<times> emit_groups) option" where
  "collect_loop b required cursor st g =
     (case mch_type_set_next required cursor of
        (None, _) \<Rightarrow> Some (True, st, g)
      | (Some required_id, cursor') \<Rightarrow>
          (case emit_type_by_id b (ucast required_id) st of
             (None, st') \<Rightarrow> Some (False, st', g)
           | (Some t, st') \<Rightarrow>
               collect_loop b required cursor' st' (collect_type b (ucast required_id) t g)))"

definition collect_emit_groups ::
    "btf \<Rightarrow> mch_type_set \<Rightarrow> emit_ctx \<Rightarrow> emit_groups \<Rightarrow> (bool \<times> emit_ctx \<times> emit_groups) option" where
  "collect_emit_groups b required st g = collect_loop b required 1 st g"

subsection \<open>The header\<close>

record mch_emit_options =
  eo_requirements :: "mch_requirements option"

definition preamble :: "string list" where
  "preamble =
     [''#ifndef MIN_COREHDR_GENERATED_VMLINUX_H'' @ newline,
      ''#define MIN_COREHDR_GENERATED_VMLINUX_H'' @ newline @ newline,
      ''#pragma clang attribute push (__attribute__((preserve_access_index)), apply_to = record)'' @ newline @ newline]"

definition postamble :: "string list" where
  "postamble = [''#pragma clang attribute pop'' @ newline @ newline, ''#endif'' @ newline]"

text \<open>What is written once the groups are there; \<open>n\<close> bounds the depth of the walk.\<close>

definition emit_groups_text :: "btf \<Rightarrow> mch_requirements option \<Rightarrow> nat \<Rightarrow> emit_groups \<Rightarrow> emitter" where
  "emit_groups_text b rq n g = run_all
     (map put preamble
      @ map (emit_forward_decl b) (group_ids g (eg_fwds g) (eg_fwd_count g))
      @ [put newline]
      @ map (emit_enum_definition b) (group_ids g (eg_enums g) (eg_enum_count g))
      @ map (emit_typedef_definition b rq n) (group_ids g (eg_typedefs g) (eg_typedef_count g))
      @ map (emit_record_definition b rq n) (group_ids g (eg_records g) (eg_record_count g))
      @ map put postamble)"

text \<open>
  The text that the stream holds is \<open>out\<close>; \<open>ferror\<close> answers whether writing a text has set the
  stream's error indicator. The result is the return code, the text and the error record.
\<close>

definition emit_with_states ::
    "nat \<Rightarrow> (string \<Rightarrow> bool) \<Rightarrow> btf \<Rightarrow> mch_type_set \<Rightarrow> mch_requirements option \<Rightarrow> emit_ctx \<Rightarrow> heap
      \<Rightarrow> (bool \<times> string \<times> mch_error \<times> heap) option" where
  "emit_with_states n ferror b required rq ctx h =
     (case emit_groups_init (ts_selected required) (ec_err ctx) h of
        (Inl e, h') \<Rightarrow> Some (False, ec_out ctx, e, h')
      | (Inr g0, h') \<Rightarrow>
          (case collect_emit_groups b required ctx g0 of
             None \<Rightarrow> None
           | Some (ok, ctx1, g) \<Rightarrow>
               if \<not> ok then Some (False, ec_out ctx1, ec_err ctx1, h')
               else (case emit_groups_text b rq n g ctx1 of
                       None \<Rightarrow> None
                     | Some (ok', ctx2) \<Rightarrow>
                         Some (ok' \<and> \<not> ferror (ec_out ctx2), ec_out ctx2, ec_err ctx2, h'))))"

definition mch_emit_header_with_options ::
    "nat \<Rightarrow> (string \<Rightarrow> bool) \<Rightarrow> string \<Rightarrow> btf \<Rightarrow> mch_type_set \<Rightarrow> mch_emit_options option \<Rightarrow> mch_error \<Rightarrow> heap
      \<Rightarrow> (bool \<times> string \<times> mch_error \<times> heap) option" where
  "mch_emit_header_with_options n ferror out b required options err h =
     (let type_count = ucast (type_cnt b) :: size_t;
          m = (if type_count = 0 then 1 else type_count);
          rq = (case options of None \<Rightarrow> None | Some opts \<Rightarrow> eo_requirements opts);
          (record_state, h1) = heap_calloc m 1 0 h
      in case record_state of
           None \<Rightarrow> Some (False, out, mch_error_set ''out of memory while preparing header emission'' err, h1)
         | Some rs \<Rightarrow>
             let (fwd_state, h2) = heap_calloc m 1 0 h1
             in case fwd_state of
                  None \<Rightarrow> Some (False, out,
                    mch_error_set ''out of memory while preparing header forward declarations'' err, h2)
                | Some fs \<Rightarrow>
                    let (typedef_state, h3) = heap_calloc m 1 0 h2
                    in case typedef_state of
                         None \<Rightarrow> Some (False, out,
                           mch_error_set ''out of memory while preparing header typedef declarations'' err, h3)
                       | Some ts \<Rightarrow>
                           emit_with_states n ferror b required rq
                             \<lparr>ec_out = out, ec_record_state = rs, ec_fwd_state = fs, ec_typedef_state = ts,
                              ec_err = err\<rparr> h3)"

definition mch_emit_header ::
    "nat \<Rightarrow> (string \<Rightarrow> bool) \<Rightarrow> string \<Rightarrow> btf \<Rightarrow> mch_type_set \<Rightarrow> mch_error \<Rightarrow> heap
      \<Rightarrow> (bool \<times> string \<times> mch_error \<times> heap) option" where
  "mch_emit_header n ferror out b required err h =
     mch_emit_header_with_options n ferror out b required None err h"

end
