(* ===== verification/Closure.thy ===== *)
theory Closure
  imports Sample
begin

text \<open>
  \<^verbatim>\<open>src/closure.c\<close>: the worklist computation that closes the set of required types under
  their dependencies. The model follows the code: an array of ids that grows by doubling, the
  set of required ids, and the index \<^verbatim>\<open>next\<close> of the first id not yet expanded. The
  specification is a graph, \<open>dep_edge\<close>; the result is the set of the types reachable from the
  given ones, or the error that a reachable dependency is out of range.
\<close>

subsection \<open>The code\<close>

record closure_worklist =
  wl_ids :: "u32 list"
  wl_len :: size_t
  wl_cap :: size_t

record mch_closure_stats =
  added_types :: size_t

record mch_closure_options =
  expand_pointers :: bool
  co_requirements :: "mch_requirements option"

text \<open>What the functions of the file update through their pointers.\<close>

record closure_state =
  cs_required :: mch_type_set
  cs_stats :: mch_closure_stats
  cs_worklist :: closure_worklist
  cs_heap :: heap

definition mch_closure_stats_init :: mch_closure_stats where
  "mch_closure_stats_init = \<lparr>added_types = 0\<rparr>"

definition worklist_init :: "size_t \<Rightarrow> mch_error \<Rightarrow> heap \<Rightarrow> (closure_worklist \<times> heap) result" where
  "worklist_init initial_cap err h =
     (let cap = (if initial_cap < 16 then 16 else initial_cap)
      in if cap > 0xFFFFFFFFFFFFFFFF div 4
         then Inl (mch_error_set ''dependency closure worklist is too large'' err)
         else let (ok, h') = heap_alloc h
              in if ok then Inr (\<lparr>wl_ids = [], wl_len = 0, wl_cap = cap\<rparr>, h')
                 else Inl (mch_error_set
                        ''out of memory while preparing dependency closure worklist'' err))"

definition worklist_push ::
    "closure_worklist \<Rightarrow> u32 \<Rightarrow> mch_error \<Rightarrow> heap \<Rightarrow> (closure_worklist \<times> heap) result" where
  "worklist_push wl i err h =
     bind_result
       (if wl_len wl = wl_cap wl then
          let next_cap = wl_cap wl * 2
          in if wl_cap wl > 0xFFFFFFFFFFFFFFFF div 2 \<or> next_cap > 0xFFFFFFFFFFFFFFFF div 4
             then Inl (mch_error_set ''dependency closure worklist is too large'' err)
             else let (ok, h') = heap_alloc h
                  in if ok then Inr (wl\<lparr>wl_cap := next_cap\<rparr>, h')
                     else Inl (mch_error_set
                            ''out of memory while growing dependency closure worklist'' err)
        else Inr (wl, h))
       (\<lambda>(wl', h'). Inr (wl'\<lparr>wl_ids := wl_ids wl' @ [i], wl_len := wl_len wl' + 1\<rparr>, h'))"

definition add_dep :: "btf \<Rightarrow> u32 \<Rightarrow> mch_error \<Rightarrow> closure_state \<Rightarrow> closure_state result" where
  "add_dep b i err st =
     (if i = 0 then Inr st
      else if i \<ge> type_cnt b
      then Inl (mch_error_set_hint (Some ''input BTF appears internally inconsistent'')
             (mch_error_set (''BTF dependency references invalid type id '' @ show_u i) err))
      else let (added, req) = mch_type_set_add (cs_required st) (ucast i)
           in if added
              then bind_result (worklist_push (cs_worklist st) i err (cs_heap st)) (\<lambda>(wl, h).
                Inr (st\<lparr>cs_required := req, cs_worklist := wl, cs_heap := h,
                        cs_stats := (cs_stats st)\<lparr>added_types := added_types (cs_stats st) + 1\<rparr>\<rparr>))
              else Inr (st\<lparr>cs_required := req\<rparr>))"

text \<open>A loop that calls \<^verbatim>\<open>add_dep\<close> for the given ids and stops at the first failure.\<close>

fun add_each :: "btf \<Rightarrow> u32 list \<Rightarrow> mch_error \<Rightarrow> closure_state \<Rightarrow> closure_state result" where
  "add_each b [] err st = Inr st"
| "add_each b (i # is) err st = bind_result (add_dep b i err st) (add_each b is err)"

text \<open>The condition of the \<^verbatim>\<open>continue\<close> in the loop over record members.\<close>

definition member_pruned :: "mch_closure_options option \<Rightarrow> u32 \<Rightarrow> nat \<Rightarrow> bool" where
  "member_pruned options type_id i =
     (case options of
        None \<Rightarrow> False
      | Some opts \<Rightarrow>
          co_requirements opts \<noteq> None
          \<and> mch_requirements_has_record_members (co_requirements opts) (ucast type_id)
          \<and> \<not> mch_requirements_contains_record_member (co_requirements opts) (ucast type_id) (of_nat i))"

definition add_type_deps ::
    "btf \<Rightarrow> u32 \<Rightarrow> btf_type \<Rightarrow> mch_closure_options option \<Rightarrow> mch_error \<Rightarrow> closure_state
      \<Rightarrow> closure_state result" where
  "add_type_deps b type_id t options err st =
     (case kind t of
        BTF_KIND_PTR \<Rightarrow>
          (case options of None \<Rightarrow> Inr st
           | Some opts \<Rightarrow> if expand_pointers opts then add_dep b (size_or_type t) err st else Inr st)
      | BTF_KIND_TYPEDEF \<Rightarrow> add_dep b (size_or_type t) err st
      | BTF_KIND_VOLATILE \<Rightarrow> add_dep b (size_or_type t) err st
      | BTF_KIND_CONST \<Rightarrow> add_dep b (size_or_type t) err st
      | BTF_KIND_RESTRICT \<Rightarrow> add_dep b (size_or_type t) err st
      | BTF_KIND_FUNC \<Rightarrow> add_dep b (size_or_type t) err st
      | BTF_KIND_VAR \<Rightarrow> add_dep b (size_or_type t) err st
      | BTF_KIND_DECL_TAG \<Rightarrow> add_dep b (size_or_type t) err st
      | BTF_KIND_TYPE_TAG \<Rightarrow> add_dep b (size_or_type t) err st
      | BTF_KIND_ARRAY \<Rightarrow>
          bind_result (add_dep b (a_type (array_of t)) err st)
            (add_dep b (a_index_type (array_of t)) err)
      | BTF_KIND_STRUCT \<Rightarrow>
          add_each b (map (\<lambda>i. m_type (member t i))
            (filter (\<lambda>i. \<not> member_pruned options type_id i) [0..<nvlen t])) err st
      | BTF_KIND_UNION \<Rightarrow>
          add_each b (map (\<lambda>i. m_type (member t i))
            (filter (\<lambda>i. \<not> member_pruned options type_id i) [0..<nvlen t])) err st
      | BTF_KIND_FUNC_PROTO \<Rightarrow>
          bind_result (add_dep b (size_or_type t) err st)
            (add_each b (map (\<lambda>i. p_type (param t i)) [0..<nvlen t]) err)
      | BTF_KIND_DATASEC \<Rightarrow>
          add_each b (map (\<lambda>i. s_type (secinfo t i)) [0..<nvlen t]) err st
      | _ \<Rightarrow> Inr st)"

text \<open>The two loops of \<^verbatim>\<open>mch_compute_dependency_closure_with_options\<close>.\<close>

partial_function (option) push_required ::
    "mch_type_set \<Rightarrow> size_t \<Rightarrow> mch_error \<Rightarrow> closure_worklist \<Rightarrow> heap
      \<Rightarrow> (closure_worklist \<times> heap) outcome" where
  "push_required req cursor err wl h =
     (case mch_type_set_next req cursor of
        (None, _) \<Rightarrow> Some (Inr (wl, h))
      | (Some i, cursor') \<Rightarrow>
          (case worklist_push wl (ucast i) err h of
             Inl e \<Rightarrow> Some (Inl e)
           | Inr (wl', h') \<Rightarrow> push_required req cursor' err wl' h'))"

partial_function (option) closure_loop ::
    "btf \<Rightarrow> mch_closure_options option \<Rightarrow> mch_error \<Rightarrow> closure_state \<Rightarrow> size_t
      \<Rightarrow> closure_state outcome" where
  "closure_loop b options err st next =
     (if next < wl_len (cs_worklist st) then
        let current = wl_ids (cs_worklist st) ! unat next
        in (case type_by_id b current of
              None \<Rightarrow> Some (Inl (mch_error_set
                        (''base BTF is missing required type id '' @ show_u current) err))
            | Some t \<Rightarrow>
                (case add_type_deps b current t options err st of
                   Inl e \<Rightarrow> Some (Inl e)
                 | Inr st' \<Rightarrow> closure_loop b options err st' (next + 1)))
      else Some (Inr st))"

definition mch_compute_dependency_closure_with_options ::
    "btf \<Rightarrow> mch_type_set \<Rightarrow> mch_closure_stats \<Rightarrow> mch_closure_options option \<Rightarrow> mch_error \<Rightarrow> heap
      \<Rightarrow> (mch_type_set \<times> mch_closure_stats \<times> heap) outcome" where
  "mch_compute_dependency_closure_with_options b required stats options err h =
     (case worklist_init (ts_selected required) err h of
        Inl e \<Rightarrow> Some (Inl e)
      | Inr (wl0, h0) \<Rightarrow>
          bind_outcome (push_required required 1 err wl0 h0) (\<lambda>(wl, h1).
          bind_outcome
            (closure_loop b options err
               \<lparr>cs_required = required, cs_stats = stats, cs_worklist = wl, cs_heap = h1\<rparr> 0)
            (\<lambda>st. Some (Inr (cs_required st, cs_stats st, cs_heap st)))))"

definition mch_compute_dependency_closure ::
    "btf \<Rightarrow> mch_type_set \<Rightarrow> mch_closure_stats \<Rightarrow> mch_error \<Rightarrow> heap
      \<Rightarrow> (mch_type_set \<times> mch_closure_stats \<times> heap) outcome" where
  "mch_compute_dependency_closure b required stats err h =
     mch_compute_dependency_closure_with_options b required stats None err h"

subsection \<open>The dependency graph\<close>

text \<open>The ids a type refers to, in the order in which the code adds them; 0 is void.\<close>

definition type_deps :: "mch_closure_options option \<Rightarrow> u32 \<Rightarrow> btf_type \<Rightarrow> u32 list" where
  "type_deps options type_id t =
     (if kind t = BTF_KIND_PTR then
        (case options of None \<Rightarrow> [] | Some opts \<Rightarrow> if expand_pointers opts then [size_or_type t] else [])
      else if kind t \<in> {BTF_KIND_TYPEDEF, BTF_KIND_VOLATILE, BTF_KIND_CONST, BTF_KIND_RESTRICT,
          BTF_KIND_FUNC, BTF_KIND_VAR, BTF_KIND_DECL_TAG, BTF_KIND_TYPE_TAG}
      then [size_or_type t]
      else if kind t = BTF_KIND_ARRAY then [a_type (array_of t), a_index_type (array_of t)]
      else if is_record_kind (kind t)
      then map (\<lambda>i. m_type (member t i)) (filter (\<lambda>i. \<not> member_pruned options type_id i) [0..<nvlen t])
      else if kind t = BTF_KIND_FUNC_PROTO
      then size_or_type t # map (\<lambda>i. p_type (param t i)) [0..<nvlen t]
      else if kind t = BTF_KIND_DATASEC then map (\<lambda>i. s_type (secinfo t i)) [0..<nvlen t]
      else [])"

definition dep_edge :: "btf \<Rightarrow> mch_closure_options option \<Rightarrow> u32 \<Rightarrow> u32 \<Rightarrow> bool" where
  "dep_edge b options i j \<longleftrightarrow> j \<noteq> 0 \<and> (\<exists>t. type_by_id b i = Some t \<and> j \<in> set (type_deps options i t))"

definition dep_reachable :: "btf \<Rightarrow> mch_closure_options option \<Rightarrow> u32 set \<Rightarrow> u32 set" where
  "dep_reachable b options S = {j. \<exists>i \<in> S. (dep_edge b options)\<^sup>*\<^sup>* i j}"

definition required_ids :: "mch_type_set \<Rightarrow> u32 set" where
  "required_ids s = {i. unat i \<in> ts_elems s}"

lemma bind_add_each_Nil [simp]: "bind_result m (add_each b [] err) = m"
  by (cases m) simp_all

lemma add_each_single: "add_each b [i] err = add_dep b i err"
  by (rule ext) simp

lemma add_type_deps_each: "add_type_deps b i t options err st = add_each b (type_deps options i t) err st"
  by (cases "kind t") (auto simp: add_type_deps_def type_deps_def add_each_single split: option.split)

subsection \<open>The state of the computation\<close>

definition worklist_invar :: "closure_worklist \<Rightarrow> bool" where
  "worklist_invar wl \<longleftrightarrow> unat (wl_len wl) = length (wl_ids wl) \<and> wl_len wl \<le> wl_cap wl
     \<and> 16 \<le> unat (wl_cap wl) \<and> unat (wl_cap wl) \<le> 2 ^ 34 \<and> distinct (wl_ids wl)"

text \<open>
  Between two steps: the worklist holds exactly the required ids, each once, so it is the
  log of the insertions; and the counter counts those made since the start, when the list had
  length \<open>n0\<close>.
\<close>

definition closure_invar :: "btf \<Rightarrow> nat \<Rightarrow> size_t \<Rightarrow> closure_state \<Rightarrow> bool" where
  "closure_invar b n0 c0 st \<longleftrightarrow> ts_invar (cs_required st)
     \<and> ts_count (cs_required st) = ucast (type_cnt b)
     \<and> worklist_invar (cs_worklist st)
     \<and> set (wl_ids (cs_worklist st)) = required_ids (cs_required st)
     \<and> 0 \<notin> required_ids (cs_required st)
     \<and> n0 \<le> length (wl_ids (cs_worklist st))
     \<and> added_types (cs_stats st) = c0 + of_nat (length (wl_ids (cs_worklist st)) - n0)"

lemma length_worklist:
  assumes "worklist_invar wl"
  shows "length (wl_ids wl) \<le> 2 ^ 32"
proof -
  have "card (set (wl_ids wl)) \<le> card (UNIV :: u32 set)" by (rule card_mono) simp_all
  then show ?thesis using assms by (simp add: worklist_invar_def distinct_card card_word)
qed

lemma worklist_push_Inr:
  assumes inv: "worklist_invar wl" and new: "i \<notin> set (wl_ids wl)"
    and push: "worklist_push wl i err h = Inr (wl', h')"
  shows "worklist_invar wl'" "wl_ids wl' = wl_ids wl @ [i]" "h = plenty \<Longrightarrow> h' = plenty"
proof -
  have len: "unat (wl_len wl) = length (wl_ids wl)" "wl_len wl \<le> wl_cap wl" "unat (wl_cap wl) \<le> 2 ^ 34"
    "16 \<le> unat (wl_cap wl)"
    using inv by (auto simp: worklist_invar_def)
  have "wl_ids wl' = wl_ids wl @ [i] \<and> wl_len wl' = wl_len wl + 1 \<and> wl_len wl < wl_cap wl'
      \<and> 16 \<le> unat (wl_cap wl') \<and> unat (wl_cap wl') \<le> 2 ^ 34 \<and> (h = plenty \<longrightarrow> h' = plenty)"
  proof (cases "wl_len wl = wl_cap wl")
    case False
    then have "wl' = wl\<lparr>wl_ids := wl_ids wl @ [i], wl_len := wl_len wl + 1\<rparr>" "h' = h"
      using push by (auto simp: worklist_push_def)
    moreover have "wl_len wl < wl_cap wl" using False len(2) by simp
    ultimately show ?thesis using len(3,4) by simp
  next
    case True
    have small: "unat (wl_cap wl) \<le> 2 ^ 32"
      using length_worklist [OF inv] len(1) True by simp
    then have dbl: "unat (wl_cap wl * 2) = unat (wl_cap wl) * 2" by (simp add: unat_mult_small)
    have grown: "wl' = wl\<lparr>wl_ids := wl_ids wl @ [i], wl_len := wl_len wl + 1, wl_cap := wl_cap wl * 2\<rparr>"
      "h' = stl h"
      using push True
      by (auto simp: worklist_push_def Let_def heap_alloc_def split: if_splits)
    show ?thesis using grown dbl small True len(4) by (auto simp: word_less_nat_alt)
  qed
  then show "worklist_invar wl'" "wl_ids wl' = wl_ids wl @ [i]" "h = plenty \<Longrightarrow> h' = plenty"
    using inv new unat_increment [of "wl_len wl" "wl_cap wl'"]
    by (auto simp: worklist_invar_def word_le_nat_alt word_less_nat_alt)
qed


lemma worklist_push_plenty:
  assumes inv: "worklist_invar wl"
  shows "\<exists>wl'. worklist_push wl i err plenty = Inr (wl', plenty)"
proof (cases "wl_len wl = wl_cap wl")
  case False
  then show ?thesis by (simp add: worklist_push_def)
next
  case True
  then have small: "unat (wl_cap wl) \<le> 2 ^ 32"
    using length_worklist [OF inv] inv by (simp add: worklist_invar_def)
  then have "unat (wl_cap wl * 2) = unat (wl_cap wl) * 2" by (simp add: unat_mult_small)
  then have "\<not> (wl_cap wl > 0xFFFFFFFFFFFFFFFF div 2 \<or> wl_cap wl * 2 > 0xFFFFFFFFFFFFFFFF div 4)"
    using small by (simp add: word_less_nat_alt unat_div)
  then show ?thesis using True by (simp add: worklist_push_def Let_def)
qed

lemma ucast_below_count:
  assumes "ts_count s = ucast (type_cnt b)"
  shows "unat (ucast i :: size_t) < unat (ts_count s) \<longleftrightarrow> i < type_cnt b"
  using assms by (simp add: word_nat word_less_nat_alt)

lemma required_ids_add:
  assumes "ts_invar s" and "ts_count s = ucast (type_cnt b)" and "i < type_cnt b"
  shows "required_ids (snd (mch_type_set_add s (ucast i))) = insert i (required_ids s)"
proof -
  have "ts_elems (snd (mch_type_set_add s (ucast i))) = insert (unat i) (ts_elems s)"
    using ts.add_elems [OF assms(1), of "ucast i"] ucast_below_count [OF assms(2)] assms(3)
    by (simp add: word_nat)
  then show ?thesis by (auto simp: required_ids_def word_unat_eq_iff)
qed

lemma fst_add_required:
  assumes "ts_invar s" and "ts_count s = ucast (type_cnt b)" and "i < type_cnt b"
  shows "fst (mch_type_set_add s (ucast i)) \<longleftrightarrow> i \<notin> required_ids s"
  using ts.add_fresh [OF assms(1), of "ucast i"] ucast_below_count [OF assms(2)] assms(3)
  by (simp add: required_ids_def word_nat)

lemma of_nat_diff_Suc: "n0 \<le> n \<Longrightarrow> (of_nat (Suc n - n0) :: size_t) = of_nat (n - n0) + 1"
  by (simp add: Suc_diff_le)

text \<open>One dependency: it is required afterwards, and logged if it was not before.\<close>

lemma add_dep_Inr:
  assumes inv: "closure_invar b n0 c0 st" and add: "add_dep b i err st = Inr st'"
  shows "closure_invar b n0 c0 st'"
    and "required_ids (cs_required st') = required_ids (cs_required st) \<union> ({i} - {0})"
    and "i = 0 \<or> i < type_cnt b"
    and "\<exists>zs. wl_ids (cs_worklist st') = wl_ids (cs_worklist st) @ zs"
    and "cs_heap st = plenty \<Longrightarrow> cs_heap st' = plenty"
proof -
  have all: "closure_invar b n0 c0 st'
      \<and> required_ids (cs_required st') = required_ids (cs_required st) \<union> ({i} - {0})
      \<and> (i = 0 \<or> i < type_cnt b)
      \<and> (\<exists>zs. wl_ids (cs_worklist st') = wl_ids (cs_worklist st) @ zs)
      \<and> (cs_heap st = plenty \<longrightarrow> cs_heap st' = plenty)"
  proof (cases "i = 0")
    case True
    then show ?thesis using add inv by (simp add: add_dep_def)
  next
    case False
    then have lt: "i < type_cnt b" using add by (auto simp: add_dep_def split: if_splits)
    then have nle: "\<not> type_cnt b \<le> i" by simp
    have ts: "ts_invar (cs_required st)" "ts_count (cs_required st) = ucast (type_cnt b)"
      and wl: "worklist_invar (cs_worklist st)"
      and log: "set (wl_ids (cs_worklist st)) = required_ids (cs_required st)"
      using inv by (auto simp: closure_invar_def)
    let ?add = "mch_type_set_add (cs_required st) (ucast i)"
    have req: "required_ids (snd ?add) = insert i (required_ids (cs_required st))"
      by (rule required_ids_add [OF ts lt])
    show ?thesis
    proof (cases "fst ?add")
      case stale: False
      then have "i \<in> required_ids (cs_required st)" using fst_add_required [OF ts lt] by simp
      moreover have "st' = st\<lparr>cs_required := snd ?add\<rparr>"
        using add False nle stale by (simp add: add_dep_def case_prod_unfold)
      ultimately show ?thesis
        using inv req ts.add_invar [OF ts(1)] False lt
        by (auto simp: closure_invar_def)
    next
      case True
      then have new: "i \<notin> required_ids (cs_required st)" using fst_add_required [OF ts lt] by simp
      obtain wl' h' where push: "worklist_push (cs_worklist st) i err (cs_heap st) = Inr (wl', h')"
        and st': "st' = st\<lparr>cs_required := snd ?add, cs_worklist := wl', cs_heap := h',
          cs_stats := (cs_stats st)\<lparr>added_types := added_types (cs_stats st) + 1\<rparr>\<rparr>"
        using add False nle True by (auto simp: add_dep_def bind_result_Inr case_prod_unfold)
      have "i \<notin> set (wl_ids (cs_worklist st))" using new log by simp
      note push = worklist_push_Inr [OF wl this push]
      show ?thesis
        using inv req ts.add_invar [OF ts(1)] push log False lt
        by (auto simp: closure_invar_def st' of_nat_diff_Suc)
    qed
  qed
  show "closure_invar b n0 c0 st'"
    "required_ids (cs_required st') = required_ids (cs_required st) \<union> ({i} - {0})"
    "i = 0 \<or> i < type_cnt b" "\<exists>zs. wl_ids (cs_worklist st') = wl_ids (cs_worklist st) @ zs"
    "cs_heap st = plenty \<Longrightarrow> cs_heap st' = plenty"
    using all by simp_all
qed

text \<open>The error of a dependency that is out of range, the only one when memory does not run out.\<close>

definition bad_dep_error :: "u32 \<Rightarrow> mch_error \<Rightarrow> mch_error" where
  "bad_dep_error i err =
     mch_error_set_hint (Some ''input BTF appears internally inconsistent'')
       (mch_error_set (''BTF dependency references invalid type id '' @ show_u i) err)"

lemma add_dep_bad: "i \<noteq> 0 \<Longrightarrow> i \<ge> type_cnt b \<Longrightarrow> add_dep b i err st = Inl (bad_dep_error i err)"
  by (simp add: add_dep_def bad_dep_error_def)

lemma add_dep_plenty:
  assumes inv: "closure_invar b n0 c0 st" and h: "cs_heap st = plenty"
    and fail: "add_dep b i err st = Inl e"
  shows "i \<noteq> 0 \<and> i \<ge> type_cnt b \<and> e = bad_dep_error i err"
proof -
  have nz: "i \<noteq> 0" using fail by (auto simp: add_dep_def)
  moreover have "i \<ge> type_cnt b"
  proof (rule ccontr)
    assume nle: "\<not> i \<ge> type_cnt b"
    have "worklist_invar (cs_worklist st)" using inv by (simp add: closure_invar_def)
    from worklist_push_plenty [OF this, of i err] h nz nle fail show False
      by (auto simp: add_dep_def case_prod_unfold Let_def split: if_splits)
  qed
  ultimately show ?thesis using fail add_dep_bad by simp
qed

lemma add_each_Inr:
  assumes "closure_invar b n0 c0 st" and "add_each b is err st = Inr st'"
  shows "closure_invar b n0 c0 st'
    \<and> required_ids (cs_required st') = required_ids (cs_required st) \<union> (set is - {0})
    \<and> (\<forall>i \<in> set is. i = 0 \<or> i < type_cnt b)
    \<and> (\<exists>zs. wl_ids (cs_worklist st') = wl_ids (cs_worklist st) @ zs)
    \<and> (cs_heap st = plenty \<longrightarrow> cs_heap st' = plenty)"
  using assms
proof (induction "is" arbitrary: st)
  case Nil
  then show ?case by simp
next
  case (Cons i "is")
  then obtain st1 where one: "add_dep b i err st = Inr st1" and rest: "add_each b is err st1 = Inr st'"
    by (auto simp: bind_result_Inr)
  note dep = add_dep_Inr [OF Cons.prems(1) one]
  show ?case using Cons.IH [OF dep(1) rest] dep(2-5) by auto
qed

lemma add_each_plenty:
  assumes "closure_invar b n0 c0 st" and "cs_heap st = plenty" and "add_each b is err st = Inl e"
  shows "\<exists>i \<in> set is. i \<noteq> 0 \<and> i \<ge> type_cnt b \<and> e = bad_dep_error i err"
  using assms
proof (induction "is" arbitrary: st)
  case Nil
  then show ?case by simp
next
  case (Cons i "is")
  show ?case
  proof (cases "add_dep b i err st")
    case (Inl e')
    then have "e' = e" using Cons.prems(3) by simp
    with add_dep_plenty [OF Cons.prems(1,2) Inl] show ?thesis by auto
  next
    case (Inr st1)
    note dep = add_dep_Inr [OF Cons.prems(1) Inr]
    have "add_each b is err st1 = Inl e" using Cons.prems(3) Inr by simp
    from Cons.IH [OF dep(1) dep(5) [OF Cons.prems(2)] this] show ?thesis by simp
  qed
qed

subsection \<open>The two loops\<close>

text \<open>The set with which the computation may start.\<close>

definition closure_start :: "btf \<Rightarrow> mch_type_set \<Rightarrow> bool" where
  "closure_start b s \<longleftrightarrow> ts_invar s \<and> ts_count s = ucast (type_cnt b) \<and> 0 \<notin> required_ids s"

lemma required_below:
  assumes "closure_start b s"
  shows "required_ids s \<subseteq> {0 <..< type_cnt b}"
proof
  fix i
  assume i: "i \<in> required_ids s"
  then have "unat i < unat (ts_count s)" using ts_elems_subset [of s] by (auto simp: required_ids_def)
  then have "i < type_cnt b" using assms by (simp add: closure_start_def word_less_nat_alt word_nat)
  moreover have "i \<noteq> 0" using i assms by (auto simp: closure_start_def)
  ultimately show "i \<in> {0 <..< type_cnt b}" by (simp add: word_gt_0)
qed

lemma dep_reachable_refl: "S \<subseteq> dep_reachable b options S"
  by (auto simp: dep_reachable_def)

lemma dep_reachable_step:
  "i \<in> dep_reachable b options S \<Longrightarrow> dep_edge b options i j \<Longrightarrow> j \<in> dep_reachable b options S"
  unfolding dep_reachable_def by (blast intro: rtranclp.rtrancl_into_rtrancl)

lemma dep_reachable_least:
  assumes "S \<subseteq> R" and "\<And>i j. i \<in> R \<Longrightarrow> dep_edge b options i j \<Longrightarrow> j \<in> R"
  shows "dep_reachable b options S \<subseteq> R"
proof
  fix j
  assume "j \<in> dep_reachable b options S"
  then obtain i where "i \<in> S" and "(dep_edge b options)\<^sup>*\<^sup>* i j" by (auto simp: dep_reachable_def)
  from this(2) show "j \<in> R"
    by (induction rule: rtranclp_induct) (use \<open>i \<in> S\<close> assms in auto)
qed

text \<open>
  The second loop between two steps: every id is reachable from the first ones, and the
  dependencies of the ids before \<open>next\<close> are required.
\<close>

definition loop_invar ::
    "btf \<Rightarrow> mch_closure_options option \<Rightarrow> u32 set \<Rightarrow> closure_state \<Rightarrow> nat \<Rightarrow> bool" where
  "loop_invar b options S st k \<longleftrightarrow>
     S \<subseteq> required_ids (cs_required st) \<and> required_ids (cs_required st) \<subseteq> dep_reachable b options S
     \<and> (\<forall>m < k. \<forall>j. dep_edge b options (wl_ids (cs_worklist st) ! m) j
          \<longrightarrow> j \<in> required_ids (cs_required st))
     \<and> (\<forall>m < k. type_by_id b (wl_ids (cs_worklist st) ! m) \<noteq> None)"

lemma loop_invar_step:
  assumes inv: "closure_invar b n0 c0 st" and loop: "loop_invar b options S st k"
    and k: "k < length (wl_ids (cs_worklist st))"
    and t: "type_by_id b (wl_ids (cs_worklist st) ! k) = Some t"
    and add: "add_type_deps b (wl_ids (cs_worklist st) ! k) t options err st = Inr st'"
  shows "loop_invar b options S st' (Suc k)"
proof -
  let ?c = "wl_ids (cs_worklist st) ! k"
  have added: "required_ids (cs_required st')
      = required_ids (cs_required st) \<union> (set (type_deps options ?c t) - {0})"
    and ex: "\<exists>zs. wl_ids (cs_worklist st') = wl_ids (cs_worklist st) @ zs"
    using add_each_Inr [OF inv add [unfolded add_type_deps_each]] by simp_all
  have set: "set (wl_ids (cs_worklist st)) = required_ids (cs_required st)"
    using inv by (simp add: closure_invar_def)
  from ex obtain zs where log: "wl_ids (cs_worklist st') = wl_ids (cs_worklist st) @ zs" by blast
  have "?c \<in> set (wl_ids (cs_worklist st))" using k by (rule nth_mem)
  then have c: "?c \<in> dep_reachable b options S" using set loop by (auto simp: loop_invar_def)
  have edge: "dep_edge b options ?c j \<longleftrightarrow> j \<in> set (type_deps options ?c t) - {0}" for j
    using t by (auto simp: dep_edge_def)
  have "set (type_deps options ?c t) - {0} \<subseteq> dep_reachable b options S"
    using dep_reachable_step [OF c] edge by blast
  moreover have "j \<in> required_ids (cs_required st')"
    if "m < Suc k" and "dep_edge b options (wl_ids (cs_worklist st') ! m) j" for m j
    using that loop k edge added by (auto simp: log nth_append less_Suc_eq loop_invar_def)
  moreover have "type_by_id b (wl_ids (cs_worklist st') ! m) \<noteq> None" if "m < Suc k" for m
    using that loop k t by (auto simp: log nth_append less_Suc_eq loop_invar_def)
  ultimately show ?thesis using loop added by (auto simp: loop_invar_def)
qed

lemma loop_invar_end:
  assumes inv: "closure_invar b n0 c0 st" and loop: "loop_invar b options S st k"
    and k: "length (wl_ids (cs_worklist st)) \<le> k"
  shows "required_ids (cs_required st) = dep_reachable b options S"
    and "\<forall>i \<in> required_ids (cs_required st). type_by_id b i \<noteq> None"
proof -
  have logged: "\<exists>m < k. wl_ids (cs_worklist st) ! m = i" if "i \<in> required_ids (cs_required st)" for i
  proof -
    have "i \<in> set (wl_ids (cs_worklist st))" using inv that by (simp add: closure_invar_def)
    then obtain m where "m < length (wl_ids (cs_worklist st))" "wl_ids (cs_worklist st) ! m = i"
      by (auto simp: in_set_conv_nth)
    with k show ?thesis by (intro exI [of _ m]) simp
  qed
  then show "\<forall>i \<in> required_ids (cs_required st). type_by_id b i \<noteq> None"
    using loop by (fastforce simp: loop_invar_def)
  have "required_ids (cs_required st) \<subseteq> dep_reachable b options S"
    using loop by (simp add: loop_invar_def)
  moreover have "dep_reachable b options S \<subseteq> required_ids (cs_required st)"
  proof (rule dep_reachable_least)
    show "S \<subseteq> required_ids (cs_required st)" using loop by (simp add: loop_invar_def)
  next
    fix i j
    assume "i \<in> required_ids (cs_required st)" and "dep_edge b options i j"
    then show "j \<in> required_ids (cs_required st)"
      using logged [of i] loop by (auto simp: loop_invar_def)
  qed
  ultimately show "required_ids (cs_required st) = dep_reachable b options S" by blast
qed

text \<open>An error of the second loop when memory does not run out.\<close>

definition closure_fault ::
    "btf \<Rightarrow> mch_closure_options option \<Rightarrow> u32 set \<Rightarrow> mch_error \<Rightarrow> mch_error \<Rightarrow> bool" where
  "closure_fault b options S err e \<longleftrightarrow>
     (\<exists>i \<in> dep_reachable b options S.
        (i < type_cnt b \<and> type_by_id b i = None
          \<and> e = mch_error_set (''base BTF is missing required type id '' @ show_u i) err)
        \<or> (\<exists>j. dep_edge b options i j \<and> j \<ge> type_cnt b \<and> e = bad_dep_error j err))"

definition loop_post ::
    "btf \<Rightarrow> mch_closure_options option \<Rightarrow> u32 set \<Rightarrow> nat \<Rightarrow> size_t \<Rightarrow> mch_error \<Rightarrow> heap
      \<Rightarrow> closure_state result \<Rightarrow> bool" where
  "loop_post b options S n0 c0 err h r \<longleftrightarrow>
     (case r of
        Inr st' \<Rightarrow> closure_invar b n0 c0 st'
          \<and> required_ids (cs_required st') = dep_reachable b options S
          \<and> (\<forall>i \<in> required_ids (cs_required st'). type_by_id b i \<noteq> None)
          \<and> (h = plenty \<longrightarrow> cs_heap st' = plenty)
      | Inl e \<Rightarrow> h = plenty \<longrightarrow> closure_fault b options S err e)"

lemma loop_post_heap:
  "loop_post b options S n0 c0 err h' r \<Longrightarrow> (h = plenty \<Longrightarrow> h' = plenty)
    \<Longrightarrow> loop_post b options S n0 c0 err h r"
  by (auto simp: loop_post_def split: sum.splits)

lemma closure_loop_total:
  assumes "closure_invar b n0 c0 st" and "loop_invar b options S st (unat next)"
    and "unat next \<le> length (wl_ids (cs_worklist st))"
  shows "\<exists>r. closure_loop b options err st next = Some r \<and> loop_post b options S n0 c0 err (cs_heap st) r"
  using assms
proof (induction "2 ^ 32 - unat next" arbitrary: st "next" rule: less_induct)
  case less
  note inv = less.prems(1) and loop = less.prems(2)
  let ?W = "wl_ids (cs_worklist st)"
  have wl: "worklist_invar (cs_worklist st)" and set: "set ?W = required_ids (cs_required st)"
    using inv by (simp_all add: closure_invar_def)
  have len: "unat (wl_len (cs_worklist st)) = length ?W" using wl by (simp add: worklist_invar_def)
  show ?case
  proof (cases "next < wl_len (cs_worklist st)")
    case False
    then have "length ?W \<le> unat next" using len by (simp add: word_less_nat_alt)
    from loop_invar_end [OF inv loop this] inv False show ?thesis
      by (subst closure_loop.simps) (simp add: loop_post_def)
  next
    case True
    then have k: "unat next < length ?W" using len by (simp add: word_less_nat_alt)
    have next1: "unat (next + 1) = Suc (unat next)" using True by (rule unat_increment)
    have "closure_start b (cs_required st)" using inv by (simp add: closure_start_def closure_invar_def)
    then have below: "?W ! unat next < type_cnt b"
      using required_below nth_mem [OF k] set by fastforce
    have c: "?W ! unat next \<in> dep_reachable b options S"
      using nth_mem [OF k] set loop by (auto simp: loop_invar_def)
    show ?thesis
    proof (cases "type_by_id b (?W ! unat next)")
      case None
      then have "closure_fault b options S err
          (mch_error_set (''base BTF is missing required type id '' @ show_u (?W ! unat next)) err)"
        using c None below by (auto simp: closure_fault_def)
      with True None show ?thesis by (subst closure_loop.simps) (simp add: Let_def loop_post_def)
    next
      case t: (Some t)
      show ?thesis
      proof (cases "add_type_deps b (?W ! unat next) t options err st")
        case (Inl e)
        have "closure_fault b options S err e" if h: "cs_heap st = plenty"
        proof -
          from add_each_plenty [OF inv h Inl [unfolded add_type_deps_each]] t
          have "\<exists>j. dep_edge b options (?W ! unat next) j \<and> j \<ge> type_cnt b \<and> e = bad_dep_error j err"
            by (auto simp: dep_edge_def)
          with c show ?thesis by (auto simp: closure_fault_def)
        qed
        with True t Inl show ?thesis by (subst closure_loop.simps) (simp add: Let_def loop_post_def)
      next
        case (Inr st')
        have inv': "closure_invar b n0 c0 st'" and h: "cs_heap st = plenty \<Longrightarrow> cs_heap st' = plenty"
          and len': "length ?W \<le> length (wl_ids (cs_worklist st'))"
          using add_each_Inr [OF inv Inr [unfolded add_type_deps_each]] by auto
        have "unat next < 2 ^ 32" using k length_worklist [OF wl] by simp
        then have "2 ^ 32 - unat (next + 1) < 2 ^ 32 - unat next" using next1 by simp
        moreover have "loop_invar b options S st' (unat (next + 1))"
          using loop_invar_step [OF inv loop k t Inr] next1 by simp
        moreover have "unat (next + 1) \<le> length (wl_ids (cs_worklist st'))"
          using k len' next1 by simp
        ultimately obtain r where "closure_loop b options err st' (next + 1) = Some r"
          and "loop_post b options S n0 c0 err (cs_heap st') r"
          using less.hyps inv' by blast
        with True t Inr h show ?thesis
          by (subst closure_loop.simps) (auto simp: Let_def intro: loop_post_heap)
      qed
    qed
  qed
qed

text \<open>The first loop fills the worklist with the ids that are required at the start.\<close>

lemma push_required_drains:
  assumes req: "ts_invar req" and "ts.drains req c xs" and "worklist_invar wl"
    and "distinct (wl_ids wl @ map ucast xs)"
  shows "\<exists>r. push_required req c err wl h = Some r
    \<and> (case r of
         Inr (wl', h') \<Rightarrow> worklist_invar wl' \<and> wl_ids wl' = wl_ids wl @ map ucast xs
           \<and> (h = plenty \<longrightarrow> h' = plenty)
       | Inl e \<Rightarrow> h \<noteq> plenty)"
  using assms(2-4)
proof (induction arbitrary: wl h rule: ts.drains.induct)
  case (drain_end c c')
  then show ?case by (subst push_required.simps) simp
next
  case (drain_step c i c' xs)
  have new: "ucast i \<notin> set (wl_ids wl)" using drain_step.prems(2) by auto
  show ?case
  proof (cases "worklist_push wl (ucast i) err h")
    case (Inl e)
    then have "h \<noteq> plenty"
      using worklist_push_plenty [OF drain_step.prems(1), of "ucast i" err] by auto
    with Inl drain_step.hyps(1) show ?thesis by (subst push_required.simps) simp
  next
    case (Inr x)
    then obtain wl1 h1 where push: "worklist_push wl (ucast i) err h = Inr (wl1, h1)" by (cases x) auto
    note wl1 = worklist_push_Inr [OF drain_step.prems(1) new push]
    have "distinct (wl_ids wl1 @ map ucast xs)" using drain_step.prems(2) wl1(2) by simp
    from drain_step.IH [OF wl1(1) this, of h1] obtain r where
      "push_required req c' err wl1 h1 = Some r"
      "case r of Inr (wl', h') \<Rightarrow> worklist_invar wl' \<and> wl_ids wl' = wl_ids wl1 @ map ucast xs
           \<and> (h1 = plenty \<longrightarrow> h' = plenty) | Inl e \<Rightarrow> h1 \<noteq> plenty" by blast
    with push drain_step.hyps(1) wl1(2,3) show ?thesis
      by (subst push_required.simps) (auto split: sum.splits)
  qed
qed

lemma required_ids_drains:
  assumes s: "closure_start b s" and xs: "ts.drains s 1 xs"
  shows "distinct (map (ucast :: size_t \<Rightarrow> u32) xs)"
    and "set (map (ucast :: size_t \<Rightarrow> u32) xs) = required_ids s"
proof -
  have inv: "ts_invar s" using s by (simp add: closure_start_def)
  have below: "ts_elems s \<subseteq> {..< 2 ^ 32}"
    using ts_elems_subset [of s] s unat_u32_less [of "type_cnt b"]
    by (fastforce simp: closure_start_def word_nat)
  have zero: "0 \<notin> ts_elems s" using s by (simp add: closure_start_def required_ids_def)
  then have pos: "{j \<in> ts_elems s. 1 \<le> j} = ts_elems s" by (auto simp: Suc_le_eq intro: Nat.gr0I)
  have unat_xs: "map unat xs = sorted_list_of_set (ts_elems s)"
    using ts.drains_sorted_list [OF inv xs] pos by simp
  then have elems: "unat ` set xs = ts_elems s"
    using ts.finite_elems [OF inv] by (metis list.set_map set_sorted_list_of_set)
  then have cast: "unat (ucast x :: u32) = unat x" if "x \<in> set xs" for x
    using that below by (intro unat_ucast_u64_u32) auto
  have "map unat (map (ucast :: size_t \<Rightarrow> u32) xs) = map unat xs" using cast by simp
  with unat_xs have map: "map unat (map (ucast :: size_t \<Rightarrow> u32) xs) = sorted_list_of_set (ts_elems s)"
    by simp
  then show "distinct (map (ucast :: size_t \<Rightarrow> u32) xs)"
    by (metis distinct_map distinct_sorted_list_of_set)
  have "unat ` set (map (ucast :: size_t \<Rightarrow> u32) xs) = ts_elems s"
    using map ts.finite_elems [OF inv] by (metis list.set_map set_sorted_list_of_set)
  then show "set (map (ucast :: size_t \<Rightarrow> u32) xs) = required_ids s"
    by (force simp: required_ids_def word_unat_eq_iff)
qed

lemma worklist_init_start:
  assumes s: "closure_start b s"
  shows "case worklist_init (ts_selected s) err h of
      Inr (wl, h') \<Rightarrow> worklist_invar wl \<and> wl_ids wl = [] \<and> h' = stl h
    | Inl e \<Rightarrow> \<not> shd h"
proof -
  let ?cap = "if ts_selected s < 16 then 16 else ts_selected s"
  have "card (ts_elems s) \<le> unat (ts_count s)" by (rule card_ts_elems)
  then have "unat (ts_selected s) \<le> unat (type_cnt b)"
    using s by (simp add: closure_start_def ts_invar_def word_nat)
  then have "unat (ts_selected s) \<le> 2 ^ 32" using unat_u32_less [of "type_cnt b"] by simp
  then have cap: "16 \<le> unat ?cap" "unat ?cap \<le> 2 ^ 34" by (auto simp: word_less_nat_alt)
  then have "\<not> ?cap > 0xFFFFFFFFFFFFFFFF div 4" by (simp add: word_less_nat_alt unat_div)
  then show ?thesis
    using cap by (simp add: worklist_init_def Let_def heap_alloc_def worklist_invar_def)
qed

lemma card_required_ids:
  assumes "ts_invar s" and "ts_count s = ucast (type_cnt b)"
  shows "card (required_ids s) = unat (ts_selected s)"
proof -
  have below: "n < 2 ^ 32" if "n \<in> ts_elems s" for n
    using that ts_elems_subset [of s] assms(2) unat_u32_less [of "type_cnt b"]
    by (fastforce simp: word_nat)
  have "unat ` required_ids s = ts_elems s"
  proof
    show "ts_elems s \<subseteq> unat ` required_ids s"
    proof
      fix n assume n: "n \<in> ts_elems s"
      then have "unat (of_nat n :: u32) = n" using below by (intro unat_of_nat_small) simp
      with n show "n \<in> unat ` required_ids s"
        by (metis imageI mem_Collect_eq required_ids_def)
    qed
  qed (auto simp: required_ids_def)
  then have "card (ts_elems s) = card (required_ids s)"
    by (metis card_image inj_on_def word_unat_eq_iff)
  then show ?thesis using assms(1) by (simp add: ts_invar_def)
qed

text \<open>What the computation promises, whatever memory it is given.\<close>

lemma closure_total:
  assumes s: "closure_start b s"
  shows "\<exists>r. mch_compute_dependency_closure_with_options b s stats options err h = Some r
    \<and> (case r of
         Inr (s', stats', h') \<Rightarrow> closure_start b s'
           \<and> required_ids s' = dep_reachable b options (required_ids s)
           \<and> (\<forall>i \<in> required_ids s'. type_by_id b i \<noteq> None)
           \<and> added_types stats' = added_types stats + (ts_selected s' - ts_selected s)
           \<and> (h = plenty \<longrightarrow> h' = plenty)
       | Inl e \<Rightarrow> h = plenty \<longrightarrow> closure_fault b options (required_ids s) err e)"
proof -
  have inv: "ts_invar s" and cnt: "ts_count s = ucast (type_cnt b)" and zero: "0 \<notin> required_ids s"
    using s by (simp_all add: closure_start_def)
  show ?thesis
  proof (cases "worklist_init (ts_selected s) err h")
    case (Inl e)
    then have "h \<noteq> plenty" using worklist_init_start [OF s, of h err] by auto
    with Inl show ?thesis by (simp add: mch_compute_dependency_closure_with_options_def)
  next
    case (Inr x)
    then obtain wl0 where init: "worklist_init (ts_selected s) err h = Inr (wl0, stl h)"
      and wl0: "worklist_invar wl0" "wl_ids wl0 = []"
      using worklist_init_start [OF s, of h err] by (cases x) auto
    obtain xs where xs: "ts.drains s 1 xs" using ts.drains_exists [OF inv] by blast
    note ids = required_ids_drains [OF s xs]
    have dist: "distinct (wl_ids wl0 @ map ucast xs)" using ids(1) wl0(2) by simp
    from push_required_drains [OF inv xs wl0(1) dist, of err "stl h"] obtain r where
      push: "push_required s 1 err wl0 (stl h) = Some r"
      and r: "case r of
         Inr (wl', h') \<Rightarrow> worklist_invar wl' \<and> wl_ids wl' = wl_ids wl0 @ map ucast xs
           \<and> (stl h = plenty \<longrightarrow> h' = plenty)
       | Inl e \<Rightarrow> stl h \<noteq> plenty" by blast
    show ?thesis
    proof (cases r)
      case (Inl e)
      with push r init show ?thesis
        by (auto simp: mch_compute_dependency_closure_with_options_def)
    next
      case r': (Inr y)
      then obtain wl h1 where y: "y = (wl, h1)" by (cases y)
      have wl: "worklist_invar wl" "wl_ids wl = map ucast xs" and h1: "h = plenty \<Longrightarrow> h1 = plenty"
        using r r' y wl0(2) by auto
      define st where "st = \<lparr>cs_required = s, cs_stats = stats, cs_worklist = wl, cs_heap = h1\<rparr>"
      have start: "closure_invar b (length xs) (added_types stats) st"
        using inv cnt zero wl ids(2) by (simp add: closure_invar_def st_def)
      have "loop_invar b options (required_ids s) st (unat (0 :: size_t))"
        by (simp add: loop_invar_def st_def dep_reachable_refl)
      from closure_loop_total [OF start this, of err] obtain r2 where
        loop: "closure_loop b options err st 0 = Some r2"
        and r2: "loop_post b options (required_ids s) (length xs) (added_types stats) err h1 r2"
        by (auto simp: st_def)
      have code: "mch_compute_dependency_closure_with_options b s stats options err h
          = bind_outcome (Some r2) (\<lambda>st. Some (Inr (cs_required st, cs_stats st, cs_heap st)))"
        using init push r' y loop
        by (simp add: mch_compute_dependency_closure_with_options_def st_def)
      show ?thesis
      proof (cases r2)
        case (Inl e)
        with code r2 h1 show ?thesis by (auto simp: loop_post_def)
      next
        case (Inr st')
        have inv': "closure_invar b (length xs) (added_types stats) st'"
          using r2 Inr by (simp add: loop_post_def)
        have "length xs = card (required_ids s)"
          using ids by (metis distinct_card length_map)
        then have n0: "length xs = unat (ts_selected s)" using card_required_ids [OF inv cnt] by simp
        have "length (wl_ids (cs_worklist st')) = card (required_ids (cs_required st'))"
          using inv' distinct_card [of "wl_ids (cs_worklist st')"]
          by (simp add: closure_invar_def worklist_invar_def)
        then have n1: "length (wl_ids (cs_worklist st')) = unat (ts_selected (cs_required st'))"
          using card_required_ids [of "cs_required st'" b] inv' by (simp add: closure_invar_def)
        have "(of_nat (length (wl_ids (cs_worklist st')) - length xs) :: size_t)
            = ts_selected (cs_required st') - ts_selected s"
          using n0 n1 inv' by (simp add: closure_invar_def of_nat_diff)
        with inv' r2 Inr code h1 show ?thesis
          by (auto simp: loop_post_def closure_invar_def closure_start_def)
      qed
    qed
  qed
qed

end
