(* ===== verification/Emit_Groups.thy ===== *)
theory Emit_Groups
  imports Emit_Header Closure
begin

text \<open>
  The collection of the required types: the four arrays keep to their quarters of the storage and
  hold the required ids of their kind, in ascending order.
\<close>

subsection \<open>The four arrays\<close>

definition stored :: "u32 option list \<Rightarrow> nat \<Rightarrow> size_t \<Rightarrow> u32 list \<Rightarrow> bool" where
  "stored xs start count ys \<longleftrightarrow> unat count = length ys \<and> (\<forall>k < length ys. xs ! (start + k) = Some (ys ! k))"

lemma stored_elsewhere:
  "stored xs start count ys \<Longrightarrow> j < start \<or> start + length ys \<le> j \<Longrightarrow> stored (xs[j := v]) start count ys"
  by (auto simp: stored_def nth_list_update)

lemma stored_append:
  assumes "stored xs start count ys" and "start + length ys < length xs" and "length xs < 2 ^ 64"
  shows "stored (xs[start + unat count := Some i]) start (count + 1) (ys @ [i])"
proof -
  have "unat count + unat (1 :: size_t) < 2 ^ 64" using assms by (simp add: stored_def)
  then have "unat (count + 1) = unat count + 1" using unat_add_small [of count 1] by simp
  then show ?thesis using assms by (auto simp: stored_def nth_list_update nth_append less_Suc_eq)
qed

lemma group_ids_stored: "stored (eg_storage g) start count ys \<Longrightarrow> group_ids g start count = ys"
  by (auto simp: stored_def group_ids_def intro!: nth_equalityI)

definition holds :: "emit_groups \<Rightarrow> u32 list \<Rightarrow> u32 list \<Rightarrow> u32 list \<Rightarrow> u32 list \<Rightarrow> bool" where
  "holds g fs es rs ts \<longleftrightarrow>
     length (eg_storage g) = 4 * unat (eg_capacity g) \<and> 4 * unat (eg_capacity g) < 2 ^ 64
     \<and> length fs \<le> unat (eg_capacity g) \<and> length es \<le> unat (eg_capacity g)
     \<and> length rs \<le> unat (eg_capacity g) \<and> length ts \<le> unat (eg_capacity g)
     \<and> stored (eg_storage g) (eg_fwds g) (eg_fwd_count g) fs
     \<and> stored (eg_storage g) (eg_enums g) (eg_enum_count g) es
     \<and> stored (eg_storage g) (eg_records g) (eg_record_count g) rs
     \<and> stored (eg_storage g) (eg_typedefs g) (eg_typedef_count g) ts"

lemmas array_starts = eg_fwds_def eg_enums_def eg_records_def eg_typedefs_def

lemma holds_add:
  assumes "holds g fs es rs ts"
  shows "length fs < unat (eg_capacity g) \<Longrightarrow> holds (add_fwd i g) (fs @ [i]) es rs ts"
    and "length es < unat (eg_capacity g) \<Longrightarrow> holds (add_enum i g) fs (es @ [i]) rs ts"
    and "length rs < unat (eg_capacity g) \<Longrightarrow> holds (add_record i g) fs es (rs @ [i]) ts"
    and "length ts < unat (eg_capacity g) \<Longrightarrow> holds (add_typedef i g) fs es rs (ts @ [i])"
proof -
  have count: "unat (eg_fwd_count g) = length fs" "unat (eg_enum_count g) = length es"
    "unat (eg_record_count g) = length rs" "unat (eg_typedef_count g) = length ts"
    using assms by (simp_all add: holds_def stored_def)
  note defs = holds_def array_starts
  show "holds (add_fwd i g) (fs @ [i]) es rs ts" if "length fs < unat (eg_capacity g)"
    using assms that stored_append [of "eg_storage g" "eg_fwds g" "eg_fwd_count g" fs i]
    by (auto simp: defs add_fwd_def count intro!: stored_elsewhere)
  show "holds (add_enum i g) fs (es @ [i]) rs ts" if "length es < unat (eg_capacity g)"
    using assms that stored_append [of "eg_storage g" "eg_enums g" "eg_enum_count g" es i]
    by (auto simp: defs add_enum_def count intro!: stored_elsewhere)
  show "holds (add_record i g) fs es (rs @ [i]) ts" if "length rs < unat (eg_capacity g)"
    using assms that stored_append [of "eg_storage g" "eg_records g" "eg_record_count g" rs i]
    by (auto simp: defs add_record_def count intro!: stored_elsewhere)
  show "holds (add_typedef i g) fs es rs (ts @ [i])" if "length ts < unat (eg_capacity g)"
    using assms that stored_append [of "eg_storage g" "eg_typedefs g" "eg_typedef_count g" ts i]
    by (auto simp: defs add_typedef_def count intro!: stored_elsewhere)
qed

lemma add_capacity [simp]:
  "eg_capacity (add_fwd i g) = eg_capacity g" "eg_capacity (add_enum i g) = eg_capacity g"
  "eg_capacity (add_record i g) = eg_capacity g" "eg_capacity (add_typedef i g) = eg_capacity g"
  by (simp_all add: add_fwd_def add_enum_def add_record_def add_typedef_def)

subsection \<open>Which array a type belongs to\<close>

definition of_type :: "(btf_type \<Rightarrow> bool) \<Rightarrow> btf \<Rightarrow> u32 \<Rightarrow> bool" where
  "of_type P b i \<longleftrightarrow> (case known_type b i of None \<Rightarrow> False | Some t \<Rightarrow> P t)"

definition named_forward :: "btf \<Rightarrow> u32 \<Rightarrow> bool" where
  "named_forward b = of_type (\<lambda>t. (is_record_kind (kind t) \<or> kind t = BTF_KIND_FWD) \<and> mch_btf_type_name b t \<noteq> []) b"

definition is_enum :: "btf \<Rightarrow> u32 \<Rightarrow> bool" where
  "is_enum b = of_type (\<lambda>t. kind t = BTF_KIND_ENUM \<or> kind t = BTF_KIND_ENUM64) b"

definition named_record :: "btf \<Rightarrow> u32 \<Rightarrow> bool" where
  "named_record b = of_type (is_named_record b) b"

definition is_typedef :: "btf \<Rightarrow> u32 \<Rightarrow> bool" where
  "is_typedef b = of_type (\<lambda>t. kind t = BTF_KIND_TYPEDEF) b"

definition collected :: "btf \<Rightarrow> emit_groups \<Rightarrow> u32 list \<Rightarrow> bool" where
  "collected b g ids \<longleftrightarrow> holds g (filter (named_forward b) ids) (filter (is_enum b) ids)
     (filter (named_record b) ids) (filter (is_typedef b) ids)"

lemma collect_type_collected:
  assumes ids: "collected b g ids" and len: "length ids < unat (eg_capacity g)" and t: "known_type b i = Some t"
  shows "collected b (collect_type b i t g) (ids @ [i])" "eg_capacity (collect_type b i t g) = eg_capacity g"
proof -
  have short: "length (filter P ids) < unat (eg_capacity g)" for P
    using len length_filter_le [of P ids] by linarith
  have kinds: "named_forward b i \<longleftrightarrow> (is_record_kind (kind t) \<or> kind t = BTF_KIND_FWD) \<and> mch_btf_type_name b t \<noteq> []"
    "is_enum b i \<longleftrightarrow> kind t = BTF_KIND_ENUM \<or> kind t = BTF_KIND_ENUM64"
    "named_record b i \<longleftrightarrow> is_named_record b t" "is_typedef b i \<longleftrightarrow> kind t = BTF_KIND_TYPEDEF"
    by (simp_all add: named_forward_def is_enum_def named_record_def is_typedef_def of_type_def t)
  have steps: "collect_type b i t g =
      (let g1 = (if named_forward b i then add_fwd i g else g); g2 = (if is_enum b i then add_enum i g1 else g1);
           g3 = (if named_record b i then add_record i g2 else g2)
       in if is_typedef b i then add_typedef i g3 else g3)"
    by (simp add: collect_type_def kinds)
  show "collected b (collect_type b i t g) (ids @ [i])"
    using ids short unfolding steps collected_def Let_def
    by (auto intro!: holds_add)
  show "eg_capacity (collect_type b i t g) = eg_capacity g"
    unfolding steps Let_def by simp
qed

subsection \<open>The loop\<close>

lemma emit_type_known:
  "known_type b i = Some t \<Longrightarrow> emit_type_by_id b i st = (Some t, st)"
  "known_type b i = None \<Longrightarrow> fst (emit_type_by_id b i st) = None"
  by (auto simp: known_type_def emit_type_by_id_def not_le [symmetric] split: if_splits)

lemma collect_loop_drains:
  assumes "ts.drains s c xs" and "collected b g ids" and "length ids + length xs \<le> unat (eg_capacity g)"
  shows "\<exists>ok st' g'. collect_loop b s c st g = Some (ok, st', g')
    \<and> (ok \<longleftrightarrow> (\<forall>x \<in> set xs. known_type b (ucast x) \<noteq> None))
    \<and> (ok \<longrightarrow> st' = st \<and> collected b g' (ids @ map ucast xs)) \<and> ec_out st' = ec_out st"
  using assms
proof (induction arbitrary: g ids rule: ts.drains.induct)
  case (drain_end c c')
  then show ?case by (subst collect_loop.simps) auto
next
  case (drain_step c i c' xs)
  show ?case
  proof (cases "known_type b (ucast i)")
    case None
    obtain st' where "emit_type_by_id b (ucast i) st = (None, st')" "ec_out st' = ec_out st"
      using emit_type_known(2) [OF None, of st] that error_only_type [of b "ucast i"]
      by (cases "emit_type_by_id b (ucast i) st") (fastforce simp: error_only_def)
    then show ?thesis using None drain_step.hyps(1) by (subst collect_loop.simps) auto
  next
    case (Some t)
    have len: "length ids < unat (eg_capacity g)" using drain_step.prems(2) by simp
    note step = collect_type_collected [OF drain_step.prems(1) len Some]
    have "length (ids @ [ucast i]) + length xs \<le> unat (eg_capacity (collect_type b (ucast i) t g))"
      using drain_step.prems(2) step(2) by simp
    from drain_step.IH [OF step(1) this] obtain ok st' g' where
      "collect_loop b s c' st (collect_type b (ucast i) t g) = Some (ok, st', g')"
      "ok \<longleftrightarrow> (\<forall>x \<in> set xs. known_type b (ucast x) \<noteq> None)"
      "ok \<longrightarrow> st' = st \<and> collected b g' ((ids @ [ucast i]) @ map ucast xs)" "ec_out st' = ec_out st" by blast
    then show ?thesis
      using drain_step.hyps(1) Some by (subst collect_loop.simps) (simp add: emit_type_known(1))
  qed
qed

text \<open>The required ids in ascending order, which is the order in which the loop visits them.\<close>

definition required_list :: "mch_type_set \<Rightarrow> u32 list" where
  "required_list s = sorted_list_of_set (required_ids s)"

lemma finite_required_ids: "ts_invar s \<Longrightarrow> finite (required_ids s)"
  by (rule finite_subset [of _ UNIV]) simp_all

lemma required_list_drains:
  assumes s: "closure_start b s" and xs: "ts.drains s 1 xs"
  shows "map ucast xs = required_list s"
proof -
  have inv: "ts_invar s" using s by (simp add: closure_start_def)
  note list = ts.drains_sorted_list [OF inv xs]
  have "unat ` set xs = set (sorted_list_of_set {j \<in> ts_elems s. unat (1 :: size_t) \<le> j})"
    using list by (simp only: list.set_map [symmetric])
  then have "unat ` set xs \<subseteq> ts_elems s" using ts.finite_elems [OF inv] by auto
  then have below: "unat x < 2 ^ 32" if "x \<in> set xs" for x
    using that ts_elems_subset [of s] s unat_u32_less [of "type_cnt b"]
    by (fastforce simp: closure_start_def word_nat)
  have "map unat (map (ucast :: size_t \<Rightarrow> u32) xs) = map unat xs"
    using below by (simp add: unat_ucast_u64_u32)
  then have "sorted (map unat (map (ucast :: size_t \<Rightarrow> u32) xs))"
    unfolding list by (simp only: sorted_list_of_set.sorted_sorted_key_list_of_set)
  then have "sorted (map (ucast :: size_t \<Rightarrow> u32) xs)"
    by (simp add: sorted_map word_le_nat_alt)
  then show ?thesis
    unfolding required_list_def required_ids_drains(2) [OF s xs, symmetric]
    by (simp only: required_ids_drains(1) [OF s xs] sorted_list_of_set.idem_if_sorted_distinct)
qed

lemma groups_init_start:
  assumes "closure_start b s"
  shows "case emit_groups_init (ts_selected s) err h of
      (Inr g, h') \<Rightarrow> shd h \<and> collected b g [] \<and> unat (ts_selected s) \<le> unat (eg_capacity g) \<and> h' = stl h
    | (Inl e, h') \<Rightarrow> \<not> shd h \<and> h' = stl h"
proof -
  have "unat (ts_selected s) \<le> unat (type_cnt b)"
    using assms card_ts_elems [of s] by (simp add: closure_start_def ts_invar_def word_nat)
  then have small: "unat (ts_selected s) < 2 ^ 32" using unat_u32_less [of "type_cnt b"] by simp
  let ?cap = "if ts_selected s = 0 then 1 else ts_selected s"
  have cap: "unat ?cap < 2 ^ 32" "unat (ts_selected s) \<le> unat ?cap" using small by auto
  then have "\<not> ?cap > 0xFFFFFFFFFFFFFFFF div 4 div 4" by (simp add: word_less_nat_alt unat_div)
  moreover have "unat (?cap * 4) = 4 * unat ?cap"
    using cap unat_mult_small [of ?cap 4] by (auto split: if_splits)
  ultimately show ?thesis using cap
    by (simp add: emit_groups_init_def Let_def heap_alloc_def collected_def holds_def stored_def split: if_splits)
qed

end
