(* ===== verification/Emit_Result.thy ===== *)
theory Emit_Result
  imports Emit_Groups
begin

text \<open>
  The header as a whole: the sections of its text, the items that it consists of, and that the bound on
  the depth does not matter once it is large enough.
\<close>

subsection \<open>Sections\<close>

lemma run_all_append:
  "run_all (fs @ gs) st = (case run_all fs st of None \<Rightarrow> None
     | Some (ok, st1) \<Rightarrow> if ok then run_all gs st1 else Some (False, st1))"
  by (induction fs arbitrary: st) (auto split: option.split)

lemma run_all_append_True:
  assumes "run_all (fs @ gs) st = Some (True, st')"
  obtains st1 where "run_all fs st = Some (True, st1)" "run_all gs st1 = Some (True, st')"
  using assms by (auto simp: run_all_append split: option.splits if_splits)

lemma writes_puts: "writes (run_all (map put ss)) (concat ss)"
  by (intro writes_run_all) (simp add: list_all2_conv_all_nth writes_put)

lemma writes_map:
  "(\<And>x. x \<in> set xs \<Longrightarrow> writes (f x) (s x)) \<Longrightarrow> writes (run_all (map f xs)) (concat (map s xs))"
  by (intro writes_run_all) (simp add: list_all2_conv_all_nth)

text \<open>The definition of an enum.\<close>

definition enum_text :: "btf \<Rightarrow> btf_type \<Rightarrow> string" where
  "enum_text b t =
     (if mch_btf_type_name b t \<noteq> [] then ''enum '' @ mch_btf_type_name b t @ '' {'' @ newline
      else ''enum {'' @ newline)
     @ concat (map (enum_line b t) [0..<nvlen t]) @ ''};'' @ newline @ newline"

lemma writes_enum: "known_type b i = Some t \<Longrightarrow> writes (emit_enum_definition b i) (enum_text b t)"
proof -
  assume t: "known_type b i = Some t"
  let ?head = "if mch_btf_type_name b t \<noteq> [] then ''enum '' @ mch_btf_type_name b t @ '' {'' @ newline
      else ''enum {'' @ newline"
  let ?parts = "[?head] @ map (enum_line b t) [0..<nvlen t] @ [''};'' @ newline @ newline]"
  have "emit_enum_definition b i = run_all (map put ?parts)"
    by (rule ext) (simp add: emit_enum_definition_def with_type_def after_def emit_type_known(1) [OF t] o_def)
  moreover have "concat ?parts = enum_text b t" by (simp add: enum_text_def)
  ultimately show ?thesis using writes_puts [of ?parts] by (simp only:)
qed

lemma writes_state:
  assumes "writes f s" and "f st = Some (True, st')"
  shows "ec_out st' = ec_out st @ s" "ctx_ok b st' \<longleftrightarrow> ctx_ok b st" "printed b st' x \<longleftrightarrow> printed b st x"
    "pending b st' x \<longleftrightarrow> pending b st x"
proof -
  obtain e where st': "st' = st\<lparr>ec_out := ec_out st @ s, ec_err := e\<rparr>" using assms by (rule writesE)
  show "ec_out st' = ec_out st @ s" "ctx_ok b st' \<longleftrightarrow> ctx_ok b st" "printed b st' x \<longleftrightarrow> printed b st x"
    "pending b st' x \<longleftrightarrow> pending b st x" by (simp_all add: st')
qed

text \<open>The forward declarations at the top come in the order of the array.\<close>

lemma forward_leads_nothing: "\<not> leads (requires b rq) (Forward i) x"
  unfolding leads_def by (auto dest: tranclD)

lemma emits_forward:
  assumes ok: "ctx_ok b st" and run: "emit_forward_decl b i st = Some (True, st')"
    and i: "named_forward b i" "\<not> printed b st (Forward i)"
  shows "emits b rq N st [Forward i] st'"
proof -
  have items: "forward_items b i = {Forward i}"
    using i(1) by (auto simp: named_forward_def of_type_def forward_items_def split: option.splits)
  from prints_forward_items [of b rq N i] ok run obtain xs where xs: "emits b rq N st xs st'"
    "\<forall>r \<in> {Forward i}. printed b st' r \<or> pending b st' r"
    "\<forall>x \<in> set xs. \<exists>r \<in> {Forward i}. r = x \<or> leads (requires b rq) r x"
    unfolding items by (rule printsE)
  have all: "x = Forward i" if "x \<in> set xs" for x
    using bspec [OF xs(3) that] by (auto simp: forward_leads_nothing)
  have "printed b st' (Forward i)" using xs(2) by (simp del: printed.simps)
  then have "Forward i \<in> set xs" "distinct xs" using xs(1) i(2) by (simp_all add: emits_def del: printed.simps)
  moreover have "set xs \<subseteq> {Forward i}" using all by blast
  ultimately have "xs = [Forward i]" by (cases xs; cases "tl xs") auto
  with xs(1) show ?thesis by simp
qed

lemma emits_forwards:
  assumes "ctx_ok b st" and "run_all (map (emit_forward_decl b) is) st = Some (True, st')"
    and "\<forall>i \<in> set is. named_forward b i \<and> \<not> printed b st (Forward i)" and "distinct is"
  shows "emits b rq N st (map Forward is) st'"
  using assms
proof (induction "is" arbitrary: st)
  case Nil
  then show ?case by (simp add: emits_refl)
next
  case (Cons i "is")
  obtain st1 where one: "emit_forward_decl b i st = Some (True, st1)"
    and rest: "run_all (map (emit_forward_decl b) is) st1 = Some (True, st')"
    using Cons.prems(2) by (auto split: option.splits if_splits)
  have first: "emits b rq N st [Forward i] st1" using Cons.prems one by (intro emits_forward) simp_all
  have "ctx_ok b st1" using first by (simp add: emits_def)
  moreover have "\<forall>j \<in> set is. named_forward b j \<and> \<not> printed b st1 (Forward j)"
    using first Cons.prems(3,4) by (auto simp: emits_def simp del: printed.simps)
  ultimately have "emits b rq N st1 (map Forward is) st'" using rest Cons.prems(4) by (intro Cons.IH) simp_all
  then show ?case using emits_trans [OF first] by simp
qed

subsection \<open>The text of a header\<close>

text \<open>The items that the required types stand for.\<close>

definition root_items :: "btf \<Rightarrow> mch_type_set \<Rightarrow> item set" where
  "root_items b s = (\<Union>i \<in> required_ids s. typedef_items b i \<union> record_items b i)"

definition header_text :: "btf \<Rightarrow> mch_requirements option \<Rightarrow> nat \<Rightarrow> mch_type_set \<Rightarrow> item list \<Rightarrow> string" where
  "header_text b rq n s xs =
     concat preamble
     @ concat (map (item_text b rq n \<circ> Forward) (filter (named_forward b) (required_list s)))
     @ newline
     @ concat (map (\<lambda>i. enum_text b (the (known_type b i))) (filter (is_enum b) (required_list s)))
     @ concat (map (item_text b rq n) xs)
     @ concat postamble"

lemma ids_of_groups:
  assumes "collected b g ids"
  shows "group_ids g (eg_fwds g) (eg_fwd_count g) = filter (named_forward b) ids"
    and "group_ids g (eg_enums g) (eg_enum_count g) = filter (is_enum b) ids"
    and "group_ids g (eg_records g) (eg_record_count g) = filter (named_record b) ids"
    and "group_ids g (eg_typedefs g) (eg_typedef_count g) = filter (is_typedef b) ids"
  using assms by (auto simp: collected_def holds_def intro: group_ids_stored)

lemma prints_roots:
  "prints b rq n (\<Union>i \<in> set ids. typedef_items b i \<union> record_items b i)
     (run_all (map (emit_typedef_definition b rq n) (filter (is_typedef b) ids)
        @ map (emit_record_definition b rq n) (filter (named_record b) ids)))"
proof -
  let ?ts = "filter (is_typedef b) ids" and ?rs = "filter (named_record b) ids"
  let ?f = "\<lambda>(k, i). if k then emit_typedef_definition b rq n i else emit_record_definition b rq n i"
  let ?R = "\<lambda>(k, i). if k then typedef_items b i else record_items b i"
  let ?xs = "map (Pair True) ?ts @ map (Pair False) ?rs"
  have "prints b rq n (\<Union>x \<in> set ?xs. ?R x) (run_all (map ?f ?xs))"
    by (rule prints_run_map) (auto intro: walk_prints)
  moreover have "map ?f ?xs = map (emit_typedef_definition b rq n) ?ts @ map (emit_record_definition b rq n) ?rs"
    by simp
  moreover have "(\<Union>x \<in> set ?xs. ?R x) = (\<Union>i \<in> set ids. typedef_items b i \<union> record_items b i)"
  proof -
    have "is_typedef b i" if "x \<in> typedef_items b i" for x i
      using that by (auto simp: typedef_items_def is_typedef_def of_type_def split: option.splits if_splits)
    moreover have "named_record b i" if "x \<in> record_items b i" for x i
      using that by (auto simp: record_items_def named_record_def of_type_def split: option.splits if_splits)
    ultimately show ?thesis by (auto 4 4)
  qed
  ultimately show ?thesis by (simp only:)
qed

lemma groups_text:
  assumes ctx: "ctx_ok b st" "\<And>x. \<not> printed b st x" "\<And>x. \<not> pending b st x"
    and g: "collected b g ids" "distinct ids"
    and run: "emit_groups_text b rq n g st = Some (True, st')"
  shows "\<exists>xs. ec_out st' = ec_out st @ concat preamble
       @ concat (map (item_text b rq n \<circ> Forward) (filter (named_forward b) ids)) @ newline
       @ concat (map (\<lambda>i. enum_text b (the (known_type b i))) (filter (is_enum b) ids))
       @ concat (map (item_text b rq n) xs) @ concat postamble
     \<and> distinct (map Forward (filter (named_forward b) ids) @ xs)
     \<and> (\<Union>i \<in> set ids. typedef_items b i \<union> record_items b i) \<subseteq> set xs
     \<and> (\<forall>x \<in> set xs. \<exists>r \<in> \<Union>i \<in> set ids. typedef_items b i \<union> record_items b i.
          r = x \<or> leads (requires b rq) r x)
     \<and> placed (requires b rq) {} (map Forward (filter (named_forward b) ids) @ xs)"
proof -
  let ?fs = "filter (named_forward b) ids" and ?es = "filter (is_enum b) ids"
  let ?R = "\<Union>i \<in> set ids. typedef_items b i \<union> record_items b i"
  define roots where "roots = map (emit_typedef_definition b rq n) (filter (is_typedef b) ids)
      @ map (emit_record_definition b rq n) (filter (named_record b) ids)"
  have "run_all (map put preamble @ (map (emit_forward_decl b) ?fs @ ([put newline]
      @ (map (emit_enum_definition b) ?es @ (roots @ map put postamble))))) st = Some (True, st')"
    using run by (simp only: roots_def emit_groups_text_def ids_of_groups [OF g(1)] append_assoc)
  then obtain st1 st2 st3 st4 st5 where
    pre: "run_all (map put preamble) st = Some (True, st1)" and
    fwd: "run_all (map (emit_forward_decl b) ?fs) st1 = Some (True, st2)" and
    nl: "run_all [put newline] st2 = Some (True, st3)" and
    enums: "run_all (map (emit_enum_definition b) ?es) st3 = Some (True, st4)" and
    roots: "run_all roots st4 = Some (True, st5)" and
    post: "run_all (map put postamble) st5 = Some (True, st')"
    by (elim run_all_append_True)
  note s1 = writes_state [OF writes_puts pre]
  have fs: "emits b rq n st1 (map Forward ?fs) st2"
    using fwd ctx g(2) s1 by (intro emits_forwards) (simp_all del: printed.simps)
  have "run_all (map put [newline]) st2 = Some (True, st3)" using nl by simp
  note s3 = writes_state [OF writes_puts this]
  have "writes (run_all (map (emit_enum_definition b) ?es))
      (concat (map (\<lambda>i. enum_text b (the (known_type b i))) ?es))"
    by (intro writes_map) (auto simp: is_enum_def of_type_def intro: writes_enum split: option.splits)
  note s4 = writes_state [OF this enums]
  have "ctx_ok b st4" using s4 s3 fs by (simp add: emits_def)
  from prints_roots [of b rq n ids, folded roots_def] this roots obtain xs where
    xs: "emits b rq n st4 xs st5" "\<forall>r \<in> ?R. printed b st5 r \<or> pending b st5 r"
    "\<forall>x \<in> set xs. \<exists>r \<in> ?R. r = x \<or> leads (requires b rq) r x" by (rule printsE)
  note s5 = writes_state [OF writes_puts post]
  have printed4: "printed b st4 x \<longleftrightarrow> x \<in> Forward ` set ?fs" "\<not> pending b st4 x" for x
    using s4 s3 s1 fs ctx by (auto simp: emits_def)
  have "ec_out st' = ec_out st @ concat preamble @ concat (map (item_text b rq n \<circ> Forward) ?fs) @ newline
       @ concat (map (\<lambda>i. enum_text b (the (known_type b i))) ?es)
       @ concat (map (item_text b rq n) xs) @ concat postamble"
    using s1(1) s3(1) s4(1) s5(1) fs xs(1) by (simp add: emits_def del: item_text.simps)
  moreover have "distinct (map Forward ?fs @ xs)"
    using fs xs(1) printed4 by (auto simp: emits_def)
  moreover have "?R \<subseteq> set xs"
  proof
    fix r assume r: "r \<in> ?R"
    then have "printed b st4 r \<or> r \<in> set xs" using xs(1,2) printed4(2) unfolding emits_def by blast
    moreover have "r \<notin> Forward ` set ?fs"
      using r by (auto simp: typedef_items_def record_items_def split: option.splits if_splits)
    ultimately show "r \<in> set xs" using printed4(1) by blast
  qed
  moreover have "placed (requires b rq) {} (map Forward ?fs @ xs)"
  proof (rule placed_append)
    have "{x. printed b st1 x \<or> pending b st1 x} = {}" using s1 ctx by simp
    then show "placed (requires b rq) {} (map Forward ?fs)" using fs unfolding emits_def by simp
    have "{x. printed b st4 x \<or> pending b st4 x} = {} \<union> set (map Forward ?fs)" using printed4 by auto
    then show "placed (requires b rq) ({} \<union> set (map Forward ?fs)) xs" using xs(1) unfolding emits_def by simp
  qed
  ultimately show ?thesis using xs(3) by blast
qed

definition option_requirements :: "mch_emit_options option \<Rightarrow> mch_requirements option" where
  "option_requirements options = (case options of None \<Rightarrow> None | Some opts \<Rightarrow> eo_requirements opts)"

definition fresh_ctx :: "string \<Rightarrow> btf \<Rightarrow> mch_error \<Rightarrow> emit_ctx" where
  "fresh_ctx out b err = (let zeros = replicate (if type_cnt b = 0 then 1 else unat (type_cnt b)) 0
     in \<lparr>ec_out = out, ec_record_state = zeros, ec_fwd_state = zeros, ec_typedef_state = zeros, ec_err = err\<rparr>)"

lemma fresh_ctx_ok:
  "ctx_ok b (fresh_ctx out b err)" "\<not> printed b (fresh_ctx out b err) x" "\<not> pending b (fresh_ctx out b err) x"
  by (cases x; auto simp: fresh_ctx_def ctx_ok_def Let_def word_less_nat_alt)+

lemma ucast_eq_0_iff: "(ucast (i :: u32) :: size_t) = 0 \<longleftrightarrow> i = 0"
  by (metis unat_eq_0 unat_ucast_u32_u64)

text \<open>Either an allocation fails, or the states are fresh.\<close>

lemma header_run:
  "mch_emit_header_with_options n ferror out b s options err h =
     (if shd h \<and> shd (stl h) \<and> shd (stl (stl h))
      then emit_with_states n ferror b s (option_requirements options) (fresh_ctx out b err) (stl (stl (stl h)))
      else Some (False, out,
        mch_error_set (if \<not> shd h then ''out of memory while preparing header emission''
          else if \<not> shd (stl h) then ''out of memory while preparing header forward declarations''
          else ''out of memory while preparing header typedef declarations'') err,
        if \<not> shd h then stl h else if \<not> shd (stl h) then stl (stl h) else stl (stl (stl h))))"
proof -
  have "unat (ucast (type_cnt b) :: size_t) < 2 ^ 64" by (rule unat_u64_less)
  then show ?thesis
    by (auto simp: mch_emit_header_with_options_def heap_calloc_def option_requirements_def fresh_ctx_def
        Let_def unat_ucast_u32_u64 ucast_eq_0_iff split: option.split)
qed

lemma collect_start:
  assumes s: "closure_start b s" and g: "collected b g []" "unat (ts_selected s) \<le> unat (eg_capacity g)"
  shows "\<exists>ok st' g'. collect_emit_groups b s st g = Some (ok, st', g')
    \<and> (ok \<longleftrightarrow> (\<forall>i \<in> required_ids s. known_type b i \<noteq> None))
    \<and> (ok \<longrightarrow> st' = st \<and> collected b g' (required_list s)) \<and> ec_out st' = ec_out st"
proof -
  have inv: "ts_invar s" and cnt: "ts_count s = ucast (type_cnt b)" using s by (simp_all add: closure_start_def)
  obtain xs where xs: "ts.drains s 1 xs" using ts.drains_exists [OF inv] by blast
  note ids = required_ids_drains [OF s xs]
  have "length xs = card (required_ids s)" using ids by (metis distinct_card length_map)
  then have "length xs \<le> unat (eg_capacity g)" using card_required_ids [OF inv cnt] g(2) by simp
  then have "length [] + length xs \<le> unat (eg_capacity g)" by simp
  from collect_loop_drains [OF xs g(1) this, of st] obtain ok st' g' where
    "collect_loop b s 1 st g = Some (ok, st', g')"
    "ok \<longleftrightarrow> (\<forall>x \<in> set xs. known_type b (ucast x) \<noteq> None)"
    "ok \<longrightarrow> st' = st \<and> collected b g' ([] @ map ucast xs)" "ec_out st' = ec_out st" by blast
  moreover have "(\<forall>x \<in> set xs. known_type b (ucast x) \<noteq> None) \<longleftrightarrow> (\<forall>i \<in> required_ids s. known_type b i \<noteq> None)"
    unfolding ids(2) [symmetric] by simp
  ultimately show ?thesis
    using required_list_drains [OF s xs] unfolding collect_emit_groups_def by auto
qed

lemma set_required_list: "closure_start b s \<Longrightarrow> set (required_list s) = required_ids s"
  and distinct_required_list: "distinct (required_list s)"
  by (simp_all add: required_list_def finite_required_ids closure_start_def)

lemma header_success:
  assumes s: "closure_start b s"
    and run: "mch_emit_header_with_options n ferror out b s options err h = Some (True, out', err', h')"
  shows "\<exists>xs. out' = out @ header_text b (option_requirements options) n s xs \<and> \<not> ferror out'
     \<and> (\<forall>i \<in> required_ids s. known_type b i \<noteq> None)
     \<and> distinct (map Forward (filter (named_forward b) (required_list s)) @ xs)
     \<and> root_items b s \<subseteq> set xs
     \<and> (\<forall>x \<in> set xs. \<exists>r \<in> root_items b s. r = x \<or> leads (requires b (option_requirements options)) r x)
     \<and> placed (requires b (option_requirements options)) {}
          (map Forward (filter (named_forward b) (required_list s)) @ xs)"
proof -
  let ?rq = "option_requirements options" and ?ctx = "fresh_ctx out b err" and ?h = "stl (stl (stl h))"
  have states: "emit_with_states n ferror b s ?rq ?ctx ?h = Some (True, out', err', h')"
    using run by (simp add: header_run split: if_splits)
  obtain g0 h1 where init: "emit_groups_init (ts_selected s) (ec_err ?ctx) ?h = (Inr g0, h1)"
    using states by (cases "emit_groups_init (ts_selected s) (ec_err ?ctx) ?h" rule: prod.exhaust)
      (auto simp: emit_with_states_def split: sum.splits)
  have g0: "collected b g0 []" "unat (ts_selected s) \<le> unat (eg_capacity g0)"
    using groups_init_start [OF s, of ?h "ec_err ?ctx"] init by simp_all
  from collect_start [OF s g0, of ?ctx] obtain ok st1 g where
    collect: "collect_emit_groups b s ?ctx g0 = Some (ok, st1, g)"
    and ok: "ok \<longleftrightarrow> (\<forall>i \<in> required_ids s. known_type b i \<noteq> None)"
    and st1: "ok \<longrightarrow> st1 = ?ctx \<and> collected b g (required_list s)" by blast
  have "ok" using states init collect by (auto simp: emit_with_states_def split: if_splits)
  then have g: "st1 = ?ctx" "collected b g (required_list s)" using st1 by simp_all
  obtain st2 where wr: "emit_groups_text b ?rq n g ?ctx = Some (True, st2)"
    and out': "out' = ec_out st2" "\<not> ferror (ec_out st2)"
    using states init collect \<open>ok\<close> g(1) by (auto simp: emit_with_states_def split: option.splits)
  have start: "ec_out ?ctx = out" by (simp add: fresh_ctx_def Let_def)
  from groups_text [OF fresh_ctx_ok g(2) distinct_required_list wr] ok \<open>ok\<close> out' start
  show ?thesis
    unfolding header_text_def root_items_def set_required_list [OF s] by auto
qed

text \<open>With enough memory and every required id known, the header is what the walk over the ids gives.\<close>

definition emit_ids_text :: "btf \<Rightarrow> mch_requirements option \<Rightarrow> nat \<Rightarrow> u32 list \<Rightarrow> emitter" where
  "emit_ids_text b rq n ids = run_all
     (map put preamble
      @ map (emit_forward_decl b) (filter (named_forward b) ids)
      @ [put newline]
      @ map (emit_enum_definition b) (filter (is_enum b) ids)
      @ map (emit_typedef_definition b rq n) (filter (is_typedef b) ids)
      @ map (emit_record_definition b rq n) (filter (named_record b) ids)
      @ map put postamble)"

lemma header_plenty:
  assumes s: "closure_start b s" and known: "\<forall>i \<in> required_ids s. known_type b i \<noteq> None"
  shows "mch_emit_header_with_options n ferror out b s options err plenty =
     map_option (\<lambda>(ok, st). (ok \<and> \<not> ferror (ec_out st), ec_out st, ec_err st, plenty))
       (emit_ids_text b (option_requirements options) n (required_list s) (fresh_ctx out b err))"
proof -
  let ?ctx = "fresh_ctx out b err"
  obtain g0 where init: "emit_groups_init (ts_selected s) (ec_err ?ctx) plenty = (Inr g0, plenty)"
    using groups_init_start [OF s, of plenty "ec_err ?ctx"]
    by (cases "emit_groups_init (ts_selected s) (ec_err ?ctx) plenty") (auto split: sum.splits)
  have g0: "collected b g0 []" "unat (ts_selected s) \<le> unat (eg_capacity g0)"
    using groups_init_start [OF s, of plenty "ec_err ?ctx"] init by simp_all
  from collect_start [OF s g0, of ?ctx] known obtain g where
    collect: "collect_emit_groups b s ?ctx g0 = Some (True, ?ctx, g)" and g: "collected b g (required_list s)"
    by auto
  have "emit_groups_text b rq n g = emit_ids_text b rq n (required_list s)" for rq
    by (simp only: emit_groups_text_def emit_ids_text_def ids_of_groups [OF g])
  then show ?thesis
    using init collect
    by (auto simp: header_run emit_with_states_def split: option.split)
qed

end
