(* ===== verification/Output_File.thy ===== *)
theory Output_File
  imports Emit_Result
begin

text \<open>
  The first half of \<^verbatim>\<open>src/main.c\<close>: writing the header to a file. The file system is a map from
  directory entries to contents, and \<open>os_entry\<close> gives the entry that a path names: two paths may be
  spellings of one entry, such as \<open>out.h\<close> and \<open>./out.h\<close>. What the calls answer besides, a
  failure for a reason of their own, is in the same record \<open>os\<close>. The
  header goes to a new file beside the output and replaces the output by \<^verbatim>\<open>rename\<close>, so a failure leaves
  the output as it was.
\<close>

subsection \<open>The calls of the C library\<close>

type_synonym files = "string \<Rightarrow> string option"

text \<open>
  \<open>os_open path\<close> is the reason for which \<^verbatim>\<open>open\<close> fails although no file is in the way; \<open>os_stored\<close> is
  what a file holds whose stream has failed.
\<close>

record os =
  os_pid :: int
  os_entry :: "string \<Rightarrow> string"
  os_open :: "string \<Rightarrow> int option"
  os_fdopen :: "int option"
  os_write_fails :: "string \<Rightarrow> bool"
  os_fclose :: "int option"
  os_stored :: "string \<Rightarrow> string"
  os_rename :: "int option"
  os_remove_fails :: "string \<Rightarrow> bool"
  os_strerror :: "int \<Rightarrow> string"

definition EEXIST :: int where
  "EEXIST = 17"

text \<open>\<^verbatim>\<open>open\<close> with \<^verbatim>\<open>O_CREAT | O_EXCL\<close>: \<open>Inl\<close> the error number.\<close>

definition c_open_new :: "os \<Rightarrow> string \<Rightarrow> files \<Rightarrow> (int + unit) \<times> files" where
  "c_open_new env path fs =
     (case os_open env path of
        Some errno \<Rightarrow> (Inl errno, fs)
      | None \<Rightarrow> if fs (os_entry env path) \<noteq> None then (Inl EEXIST, fs)
        else (Inr (), fs(os_entry env path \<mapsto> [])))"

definition c_remove :: "os \<Rightarrow> string \<Rightarrow> files \<Rightarrow> files" where
  "c_remove env path fs = (if os_remove_fails env path then fs else fs(os_entry env path := None))"

text \<open>Renaming an entry to itself does nothing and succeeds.\<close>

definition c_rename :: "os \<Rightarrow> string \<Rightarrow> string \<Rightarrow> files \<Rightarrow> int option \<times> files" where
  "c_rename env old new fs =
     (case os_rename env of
        Some errno \<Rightarrow> (Some errno, fs)
      | None \<Rightarrow>
          if os_entry env old = os_entry env new then (None, fs)
          else (None, fs(os_entry env new := fs (os_entry env old), os_entry env old := None)))"

text \<open>What is on the disk when the stream with the text is closed.\<close>

definition c_fclose :: "os \<Rightarrow> string \<Rightarrow> string \<Rightarrow> files \<Rightarrow> int option \<times> files" where
  "c_fclose env path written fs =
     (os_fclose env,
      fs(os_entry env path \<mapsto>
        if os_fclose env = None \<and> \<not> os_write_fails env written then written else os_stored env written))"

subsection \<open>The code\<close>

definition show_int :: "int \<Rightarrow> string" where
  "show_int i = (if i < 0 then ''-'' @ show_nat (nat (- i)) else show_nat (nat i))"

text \<open>\<^verbatim>\<open>"%s.tmp.%ld.%u"\<close>\<close>

definition tmp_path :: "os \<Rightarrow> string \<Rightarrow> nat \<Rightarrow> string" where
  "tmp_path env path attempt = path @ ''.tmp.'' @ show_int (os_pid env) @ ''.'' @ show_nat attempt"

text \<open>The loop over the attempts; the result is the path of the new file.\<close>

fun open_attempts :: "os \<Rightarrow> string \<Rightarrow> nat list \<Rightarrow> mch_error \<Rightarrow> files \<Rightarrow> string result \<times> files" where
  "open_attempts env path [] err fs =
     (Inl (mch_error_set_file (Some path) (mch_error_set ''failed to create a unique temporary output path'' err)), fs)"
| "open_attempts env path (attempt # attempts) err fs =
     (let tmp = tmp_path env path attempt
      in if length tmp \<ge> 1024
         then (Inl (mch_error_set_file (Some path) (mch_error_set ''output path is too long'' err)), fs)
         else case c_open_new env tmp fs of
                (Inr _, fs1) \<Rightarrow>
                  (case os_fdopen env of
                     Some errno \<Rightarrow>
                       (Inl (mch_error_set_file (Some path)
                          (mch_error_set (''failed to open output: '' @ os_strerror env errno) err)),
                        c_remove env tmp fs1)
                   | None \<Rightarrow> (Inr tmp, fs1))
              | (Inl errno, fs1) \<Rightarrow>
                  if errno \<noteq> EEXIST
                  then (Inl (mch_error_set_file (Some path)
                          (mch_error_set (''failed to open output: '' @ os_strerror env errno) err)), fs1)
                  else open_attempts env path attempts err fs1)"

definition open_temp_output :: "os \<Rightarrow> string \<Rightarrow> mch_error \<Rightarrow> files \<Rightarrow> string result \<times> files" where
  "open_temp_output env path err fs = open_attempts env path [0..<128] err fs"

text \<open>The result is the return code, the error record, the heap and the files.\<close>

definition write_header_to_path ::
    "os \<Rightarrow> nat \<Rightarrow> string \<Rightarrow> btf \<Rightarrow> mch_type_set \<Rightarrow> mch_emit_options option \<Rightarrow> mch_error \<Rightarrow> heap \<Rightarrow> files
      \<Rightarrow> (bool \<times> mch_error \<times> heap \<times> files) option" where
  "write_header_to_path env n path b required options err h fs =
     (case open_temp_output env path err fs of
        (Inl e, fs1) \<Rightarrow> Some (False, e, h, fs1)
      | (Inr tmp, fs1) \<Rightarrow>
          (case mch_emit_header_with_options n (os_write_fails env) [] b required options err h of
             None \<Rightarrow> None
           | Some (rc, written, err1, h1) \<Rightarrow>
               let (closed, fs2) = c_fclose env tmp written fs1;
                   (rc2, err2) =
                     (case closed of
                        Some errno \<Rightarrow>
                          if rc then (False, mch_error_set_file (Some path)
                            (mch_error_set (''failed to close output: '' @ os_strerror env errno) err1))
                          else (rc, err1)
                      | None \<Rightarrow> (rc, err1))
               in if \<not> rc2 then Some (False, err2, h1, c_remove env tmp fs2)
                  else case c_rename env tmp path fs2 of
                         (Some errno, fs3) \<Rightarrow>
                           Some (False, mch_error_set_file (Some path)
                             (mch_error_set (''failed to replace output: '' @ os_strerror env errno) err2),
                             h1, c_remove env tmp fs3)
                       | (None, fs3) \<Rightarrow> Some (True, err2, h1, fs3)))"

subsection \<open>The temporary file\<close>

text \<open>The stream's own state decides at the end of the emission only.\<close>

lemma emission_stream:
  "mch_emit_header_with_options n ferror out b s options err h =
     map_option (\<lambda>(ok, written, e, h'). (ok \<and> \<not> ferror written, written, e, h'))
       (mch_emit_header_with_options n (\<lambda>_. False) out b s options err h)"
proof -
  have "emit_with_states n ferror b s rq ctx h =
     map_option (\<lambda>(ok, written, e, h'). (ok \<and> \<not> ferror written, written, e, h'))
       (emit_with_states n (\<lambda>_. False) b s rq ctx h)" for rq ctx h
    by (auto simp: emit_with_states_def split: option.split sum.split prod.split)
  then show ?thesis by (simp add: header_run)
qed

lemma emission_sound_stream:
  "mch_emit_header_with_options n ferror out b s options err h = Some (True, written, e, h') \<Longrightarrow> \<not> ferror written"
  by (subst (asm) emission_stream) auto

text \<open>A file appears under a free name, or nothing changes but for a new file that could not be removed.\<close>

definition leftovers :: "os \<Rightarrow> string \<Rightarrow> files \<Rightarrow> files \<Rightarrow> bool" where
  "leftovers env path fs fs' \<longleftrightarrow>
     (\<forall>p. fs' p \<noteq> fs p \<longrightarrow> fs p = None
       \<and> (\<exists>k < 128. p = os_entry env (tmp_path env path k) \<and> os_remove_fails env (tmp_path env path k)))"

lemma leftovers_refl [simp]: "leftovers env path fs fs"
  by (simp add: leftovers_def)

lemma leftovers_keep: "leftovers env path fs fs' \<Longrightarrow> fs p \<noteq> None \<Longrightarrow> fs' p = fs p"
  by (rule ccontr) (simp add: leftovers_def)

lemma leftovers_remove:
  "fs (os_entry env tmp) = None \<Longrightarrow> k < 128 \<Longrightarrow> tmp = tmp_path env path k
    \<Longrightarrow> leftovers env path fs (c_remove env tmp (fs(os_entry env tmp := c)))"
  by (auto simp: leftovers_def c_remove_def)

lemma open_attempts_result:
  assumes "\<forall>k \<in> set ks. k < 128" "open_attempts env path ks err fs = (r, fs')"
  shows "case r of
      Inl e \<Rightarrow> leftovers env path fs fs'
    | Inr tmp \<Rightarrow> (\<exists>k < 128. tmp = tmp_path env path k) \<and> fs (os_entry env tmp) = None
        \<and> fs' = fs(os_entry env tmp \<mapsto> [])"
  using assms
proof (induction ks)
  case (Cons k ks)
  let ?tmp = "tmp_path env path k"
  show ?case
  proof (cases "1024 \<le> length ?tmp \<or> (\<exists>e. os_open env ?tmp = Some e \<and> e \<noteq> EEXIST)")
    case True
    then show ?thesis using Cons.prems by (auto simp: c_open_new_def Let_def split: if_split_asm)
  next
    case False
    then consider "open_attempts env path (k # ks) err fs = open_attempts env path ks err fs"
      | "fs (os_entry env ?tmp) = None" "os_open env ?tmp = None" "length ?tmp < 1024"
      by (cases "os_open env ?tmp"; cases "fs (os_entry env ?tmp)") (auto simp: c_open_new_def Let_def)
    then show ?thesis
    proof cases
      case 1
      then show ?thesis using Cons by simp
    next
      case 2
      then show ?thesis using Cons.prems leftovers_remove [of fs env ?tmp k path]
        by (auto simp: c_open_new_def Let_def split: option.split_asm)
    qed
  qed
qed auto

text \<open>The first attempt whose name is free succeeds.\<close>

lemma open_attempts_first:
  assumes "\<forall>j < k. fs (os_entry env (tmp_path env path j)) \<noteq> None"
    "fs (os_entry env (tmp_path env path k)) = None" "i \<le> k" "k < n"
    "\<forall>j \<le> k. os_open env (tmp_path env path j) = None \<and> length (tmp_path env path j) < 1024" "os_fdopen env = None"
  shows "open_attempts env path [i..<n] err fs
    = (Inr (tmp_path env path k), fs(os_entry env (tmp_path env path k) \<mapsto> []))"
  using assms(3)
proof (induction "k - i" arbitrary: i)
  case 0
  then have "i = k" by simp
  then show ?case using assms by (simp add: upt_conv_Cons c_open_new_def Let_def not_le fun_eq_iff)
next
  case (Suc d)
  then have "i < k" "d = k - Suc i" by auto
  then show ?case using Suc.hyps(1) [of "Suc i"] assms(1,4,5)
    by (auto simp: upt_conv_Cons c_open_new_def Let_def not_le)
qed

lemma open_attempts_exhausted:
  assumes "\<forall>k \<in> set ks. fs (os_entry env (tmp_path env path k)) \<noteq> None \<and> os_open env (tmp_path env path k) = None
    \<and> length (tmp_path env path k) < 1024"
  shows "open_attempts env path ks err fs =
    (Inl (mch_error_set_file (Some path) (mch_error_set ''failed to create a unique temporary output path'' err)), fs)"
  using assms by (induction ks) (auto simp: c_open_new_def)

subsection \<open>The output\<close>

lemma write_header_result:
  assumes "write_header_to_path env n path b required options err h fs = Some (ok, err', h', fs')"
  shows "if ok then \<exists>written. mch_emit_header_with_options n (os_write_fails env) [] b required options err h
              = Some (True, written, err', h') \<and> fs' = fs(os_entry env path \<mapsto> written)
         else leftovers env path fs fs'"
proof (cases "open_temp_output env path err fs")
  case (Pair r fs1)
  show ?thesis
  proof (cases r)
    case (Inl e)
    then show ?thesis using assms Pair open_attempts_result [of "[0..<128]" env path err fs r fs1]
      by (auto simp: write_header_to_path_def open_temp_output_def)
  next
    case (Inr tmp)
    obtain k where k: "k < 128" "tmp = tmp_path env path k" and tmp: "fs (os_entry env tmp) = None" "fs1 = fs(os_entry env tmp \<mapsto> [])"
      using open_attempts_result [of "[0..<128]" env path err fs r fs1] Pair Inr by (auto simp: open_temp_output_def)
    obtain rc written err1 h1 where emit: "mch_emit_header_with_options n (os_write_fails env) [] b required options err h
        = Some (rc, written, err1, h1)"
      using assms Pair Inr by (auto simp: write_header_to_path_def split: option.split_asm)
    have left: "leftovers env path fs (c_remove env tmp (fs(os_entry env tmp \<mapsto> c)))" for c
      using leftovers_remove tmp(1) k by blast
    have stored: "snd (c_rename env tmp path (fs(os_entry env tmp \<mapsto> c))) = fs(os_entry env path \<mapsto> c)"
      if "os_rename env = None" for c
      using tmp(1) that by (auto simp: c_rename_def fun_upd_def)
    have nofail: "\<not> os_write_fails env written" if rc using that emit emission_sound_stream by simp
    show ?thesis
      using assms Pair Inr emit tmp(2) left stored nofail k(2)
      by (auto simp: write_header_to_path_def c_fclose_def c_rename_def Let_def split: option.split_asm if_split_asm)
  qed
qed

end
