(* ===== verification/Cli.thy ===== *)
theory Cli
  imports Error
begin

text \<open>
  \<^verbatim>\<open>src/cli.c\<close>: the command line. The loop over \<^verbatim>\<open>argv\<close> is a recursion over the arguments that are
  left, so that the index of the code is the number of arguments taken; an argument is a string without its
  terminator. The specification is a grammar of command lines, which gives a list of settings, and the
  meaning of such a list.
\<close>

subsection \<open>The code\<close>

record mch_cli_options =
  cl_btf_path :: "string option"
  cl_output_path :: "string option"
  cl_objects :: "string list"
  cl_object_count :: size_t
  cl_verbose :: int
  cl_quiet :: bool
  cl_stats :: bool
  cl_explain :: bool
  cl_expand_pointers :: bool
  cl_help :: bool
  cl_version :: bool

definition mch_cli_options_init :: mch_cli_options where
  "mch_cli_options_init = \<lparr>cl_btf_path = None, cl_output_path = None, cl_objects = [], cl_object_count = 0,
     cl_verbose = 0, cl_quiet = False, cl_stats = False, cl_explain = False, cl_expand_pointers = False,
     cl_help = False, cl_version = False\<rparr>"

definition mch_cli_options_destroy :: "mch_cli_options \<Rightarrow> mch_cli_options" where
  "mch_cli_options_destroy opts = opts\<lparr>cl_objects := [], cl_object_count := 0\<rparr>"

definition add_object :: "mch_cli_options \<Rightarrow> string \<Rightarrow> mch_error \<Rightarrow> heap \<Rightarrow> (mch_cli_options \<times> heap) result" where
  "add_object opts path err h =
     (let (ok, h') = heap_alloc h
      in if \<not> ok then Inl (mch_error_set ''out of memory while parsing object inputs'' err)
         else Inr (opts\<lparr>cl_objects := cl_objects opts @ [path], cl_object_count := cl_object_count opts + 1\<rparr>, h'))"

text \<open>The value of an option is the next argument.\<close>

definition require_value :: "string list \<Rightarrow> string \<Rightarrow> mch_error \<Rightarrow> (string \<times> string list) result" where
  "require_value rest option err =
     (case rest of
        [] \<Rightarrow> Inl (mch_error_set (''missing value for '' @ option) err)
      | value # rest' \<Rightarrow> Inr (value, rest'))"

definition set_btf_path :: "mch_cli_options \<Rightarrow> string \<Rightarrow> mch_error \<Rightarrow> mch_cli_options result" where
  "set_btf_path opts path err =
     (if cl_btf_path opts \<noteq> None then Inl (mch_error_set ''duplicate --btf option'' err)
      else Inr (opts\<lparr>cl_btf_path := Some path\<rparr>))"

definition set_output_path :: "mch_cli_options \<Rightarrow> string \<Rightarrow> mch_error \<Rightarrow> mch_cli_options result" where
  "set_output_path opts path err =
     (if cl_output_path opts \<noteq> None then Inl (mch_error_set ''duplicate --output option'' err)
      else if path = [] then Inl (mch_error_set ''empty --output FILE'' err)
      else Inr (opts\<lparr>cl_output_path := Some path\<rparr>))"

definition be_verbose :: "mch_cli_options \<Rightarrow> mch_cli_options" where
  "be_verbose opts = opts\<lparr>cl_quiet := False, cl_verbose := cl_verbose opts + 1\<rparr>"

definition be_quiet :: "mch_cli_options \<Rightarrow> mch_cli_options" where
  "be_quiet opts = opts\<lparr>cl_quiet := True, cl_verbose := 0\<rparr>"

text \<open>The loop over the letters of an argument with one dash.\<close>

fun short_options ::
    "string \<Rightarrow> string list \<Rightarrow> mch_cli_options \<Rightarrow> mch_error \<Rightarrow> (string list \<times> mch_cli_options) result" where
  "short_options [] rest opts err = Inr (rest, opts)"
| "short_options (c # cs) rest opts err =
     (if c = CHR ''h'' then short_options cs rest (opts\<lparr>cl_help := True\<rparr>) err
      else if c = CHR ''V'' then short_options cs rest (opts\<lparr>cl_version := True\<rparr>) err
      else if c = CHR ''v'' then short_options cs rest (be_verbose opts) err
      else if c = CHR ''q'' then short_options cs rest (be_quiet opts) err
      else if c = CHR ''o'' then
        (if cs \<noteq> [] then bind_result (set_output_path opts cs err) (\<lambda>opts'. Inr (rest, opts'))
         else bind_result (require_value rest ''-o'' err) (\<lambda>(path, rest').
              bind_result (set_output_path opts path err) (\<lambda>opts'. Inr (rest', opts'))))
      else Inl (mch_error_set (''unknown option -'' @ [c]) err))"

text \<open>One argument before \<^verbatim>\<open>--\<close>, from the test for \<^verbatim>\<open>--help\<close> on.\<close>

definition parse_argument ::
    "string \<Rightarrow> string list \<Rightarrow> mch_cli_options \<Rightarrow> mch_error \<Rightarrow> heap \<Rightarrow> (string list \<times> mch_cli_options \<times> heap) result" where
  "parse_argument arg rest opts err h =
     (if arg = ''--help'' then Inr (rest, opts\<lparr>cl_help := True\<rparr>, h)
      else if arg = ''--version'' then Inr (rest, opts\<lparr>cl_version := True\<rparr>, h)
      else if arg = ''--verbose'' then Inr (rest, be_verbose opts, h)
      else if arg = ''--quiet'' then Inr (rest, be_quiet opts, h)
      else if arg = ''--stats'' then Inr (rest, opts\<lparr>cl_stats := True\<rparr>, h)
      else if arg = ''--explain'' then Inr (rest, opts\<lparr>cl_explain := True\<rparr>, h)
      else if arg = ''--expand-pointers'' then Inr (rest, opts\<lparr>cl_expand_pointers := True\<rparr>, h)
      else if take 6 arg = ''--btf='' then
        bind_result (set_btf_path opts (drop 6 arg) err) (\<lambda>opts'. Inr (rest, opts', h))
      else if arg = ''--btf'' then
        bind_result (require_value rest ''--btf'' err) (\<lambda>(path, rest').
        bind_result (set_btf_path opts path err) (\<lambda>opts'. Inr (rest', opts', h)))
      else if take 9 arg = ''--output='' then
        bind_result (set_output_path opts (drop 9 arg) err) (\<lambda>opts'. Inr (rest, opts', h))
      else if arg = ''--output'' then
        bind_result (require_value rest ''--output'' err) (\<lambda>(path, rest').
        bind_result (set_output_path opts path err) (\<lambda>opts'. Inr (rest', opts', h)))
      else if 1 < length arg \<and> arg ! 0 = CHR ''-'' then
        (if arg ! 1 = CHR ''-'' \<and> 2 < length arg then Inl (mch_error_set (''unknown option '' @ arg) err)
         else bind_result (short_options (tl arg) rest opts err) (\<lambda>(rest', opts'). Inr (rest', opts', h)))
      else bind_result (add_object opts arg err h) (\<lambda>(opts', h'). Inr (rest, opts', h')))"

lemma short_options_length: "short_options cs rest opts err = Inr (rest', opts') \<Longrightarrow> length rest' \<le> length rest"
  by (induction cs arbitrary: opts)
    (auto simp: bind_result_Inr require_value_def split: if_split_asm list.split_asm)

text \<open>What a result keeps of the arguments that were left.\<close>

definition takes :: "string list \<Rightarrow> (string list \<times> 'a) result \<Rightarrow> bool" where
  "takes rest r \<longleftrightarrow> (\<forall>rest' x. r = Inr (rest', x) \<longrightarrow> length rest' \<le> length rest)"

lemma takes_intros:
  "takes rest (Inl e)" "takes rest (Inr (rest, x))"
  "(c \<Longrightarrow> takes rest r) \<Longrightarrow> (\<not> c \<Longrightarrow> takes rest r') \<Longrightarrow> takes rest (if c then r else r')"
  "takes rest (bind_result m (\<lambda>y. Inr (rest, f y)))"
  "takes rest (bind_result m2 (\<lambda>(y, z). Inr (rest, g y z)))"
  "takes rest (bind_result (require_value rest s e) (\<lambda>(path, rest'). bind_result (m' path) (\<lambda>y. Inr (rest', k' y))))"
  "takes rest (bind_result (short_options cs rest opts e) (\<lambda>(rest', y). Inr (rest', k y)))"
  by (auto simp: takes_def bind_result_Inr require_value_def dest: short_options_length split: list.split_asm)

lemma parse_argument_length:
  "parse_argument arg rest opts err h = Inr (rest', opts', h') \<Longrightarrow> length rest' \<le> length rest"
proof -
  have "takes rest (parse_argument arg rest opts err h)"
    unfolding parse_argument_def by (intro takes_intros)
  then show "parse_argument arg rest opts err h = Inr (rest', opts', h') \<Longrightarrow> length rest' \<le> length rest"
    by (simp add: takes_def)
qed

text \<open>The loop of \<^verbatim>\<open>mch_cli_parse\<close>; the flag is \<^verbatim>\<open>end_of_options\<close>.\<close>

function parse_loop ::
    "bool \<Rightarrow> string list \<Rightarrow> mch_cli_options \<Rightarrow> mch_error \<Rightarrow> heap \<Rightarrow> (mch_cli_options \<times> heap) result" where
  "parse_loop end_of_options [] opts err h = Inr (opts, h)"
| "parse_loop end_of_options (arg # rest) opts err h =
     (if end_of_options then
        (case add_object opts arg err h of
           Inl e \<Rightarrow> Inl e
         | Inr (opts', h') \<Rightarrow> parse_loop True rest opts' err h')
      else if arg = ''--'' then parse_loop True rest opts err h
      else (case parse_argument arg rest opts err h of
              Inl e \<Rightarrow> Inl e
            | Inr (rest', opts', h') \<Rightarrow> parse_loop False rest' opts' err h'))"
  by pat_completeness auto
termination
  by (relation "measure (\<lambda>(e, args, _). length args)") (auto dest: parse_argument_length)

declare parse_loop.simps(2) [simp del]

text \<open>The checks at the end.\<close>

definition check_options :: "mch_cli_options \<Rightarrow> mch_error \<Rightarrow> mch_cli_options result" where
  "check_options opts err =
     (if cl_help opts \<or> cl_version opts then Inr opts
      else if cl_btf_path opts = None \<or> cl_btf_path opts = Some [] then
        Inl (mch_error_set ''missing required --btf FILE'' err)
      else if cl_object_count opts = 0 then Inl (mch_error_set ''missing OBJECT input'' err)
      else (case cl_output_path opts of
              None \<Rightarrow> Inr opts
            | Some out \<Rightarrow>
                if out = the (cl_btf_path opts) then
                  Inl (mch_error_set ''output path must not match --btf input'' err)
                else if out \<in> set (cl_objects opts) then
                  Inl (mch_error_set ''output path must not match OBJECT input'' err)
                else Inr opts))"

definition mch_cli_parse ::
    "string list \<Rightarrow> mch_cli_options \<Rightarrow> mch_error \<Rightarrow> heap \<Rightarrow> (mch_cli_options \<times> heap) result" where
  "mch_cli_parse argv opts err h =
     bind_result (parse_loop False (tl argv) opts err h) (\<lambda>(opts', h').
     bind_result (check_options opts' err) (\<lambda>opts''. Inr (opts'', h')))"

subsection \<open>Help and version\<close>

definition program_name :: "string option \<Rightarrow> string" where
  "program_name argv0 = (case argv0 of None \<Rightarrow> ''min-corehdr'' | Some name \<Rightarrow> if name \<noteq> [] then name else ''min-corehdr'')"

definition mch_cli_print_help :: "string option \<Rightarrow> string" where
  "mch_cli_print_help argv0 =
     (let prog = program_name argv0 in concat
       [''min-corehdr - generate a compile-complete minimal local CO-RE header from .bpf.o inputs'', newline,
        ''Usage:'', newline,
        ''  '', prog, '' [OPTIONS] --btf FILE OBJECT...'', newline,
        ''  '', prog, '' --help'', newline,
        ''  '', prog, '' --version'', newline,
        newline, ''Global options:'', newline,
        ''  -h, --help       Show this help and exit'', newline,
        ''  -V, --version    Show version information and exit'', newline,
        ''  -v, --verbose    Increase stderr diagnostics; repeatable'', newline,
        ''  -q, --quiet      Suppress non-error diagnostics'', newline,
        newline, ''Main options:'', newline,
        ''      --btf FILE   Base BTF file used as the kernel type source'', newline,
        ''  -o, --output FILE'', newline,
        ''                  Write the generated header to FILE'', newline,
        ''      --expand-pointers'', newline,
        ''                  Also include pointee types in dependency closure'', newline,
        ''      --explain   Print a requirement witness to stderr'', newline,
        ''      --stats      Print a short generation summary to stderr'', newline,
        newline, ''Example:'', newline,
        ''  '', prog, '' --btf /sys/kernel/btf/vmlinux -o vmlinux.h foo.bpf.o'', newline])"

text \<open>The version and the revision come from the build, the version of libbpf from that library.\<close>

record versions =
  MIN_COREHDR_VERSION :: string
  MIN_COREHDR_GIT_REVISION :: string
  libbpf_version_string :: string

definition mch_cli_print_version :: "versions \<Rightarrow> string" where
  "mch_cli_print_version vs = concat
     [''min-corehdr '', MIN_COREHDR_VERSION vs, newline,
      ''git '', MIN_COREHDR_GIT_REVISION vs, newline,
      ''libbpf '', libbpf_version_string vs, newline]"

end
