(* ===== verification/Resolve.thy ===== *)
theory Resolve
  imports Sample
begin

text \<open>
  The first half of \<^verbatim>\<open>src/seeds.c\<close>: the resolution of a type of a BPF object to a type
  of the base BTF, and the seeds taken from the object's own BTF. The resolution follows the chain of
  typedefs and modifiers for at most 32 types and asks the index at each of them; its
  specification separates the walk (\<open>walk\<close>) from the question (\<open>base_hits\<close>).
\<close>

subsection \<open>The code\<close>

definition is_seedable_kind :: "btf_kind \<Rightarrow> bool" where
  "is_seedable_kind k \<longleftrightarrow> k = BTF_KIND_STRUCT \<or> k = BTF_KIND_UNION \<or> k = BTF_KIND_ENUM
     \<or> k = BTF_KIND_ENUM64 \<or> k = BTF_KIND_TYPEDEF \<or> k = BTF_KIND_FWD"

definition is_chain_kind :: "btf_kind \<Rightarrow> bool" where
  "is_chain_kind k \<longleftrightarrow> k = BTF_KIND_TYPEDEF \<or> k = BTF_KIND_VOLATILE \<or> k = BTF_KIND_CONST
     \<or> k = BTF_KIND_RESTRICT \<or> k = BTF_KIND_TYPE_TAG"

text \<open>\<^verbatim>\<open>'%s'\<close>\<close>

definition quoted :: "string \<Rightarrow> string" where
  "quoted s = CHR 0x27 # s @ [CHR 0x27]"

definition set_resolution_detail ::
    "btf \<Rightarrow> u32 \<Rightarrow> u32 \<Rightarrow> string option \<Rightarrow> btf_kind \<Rightarrow> string \<Rightarrow> string \<Rightarrow> mch_error \<Rightarrow> mch_error" where
  "set_resolution_detail ob root_type_id query_type_id query_name query_kind reference base_result err =
     (let query_label = (case query_name of None \<Rightarrow> ''<anonymous>''
                         | Some n \<Rightarrow> if n \<noteq> [] then n else ''<anonymous>'');
          root_type = (if root_type_id < type_cnt ob then type_by_id ob root_type_id else None);
          root_name = (case root_type of None \<Rightarrow> ''<invalid>''
                       | Some t \<Rightarrow> let name = mch_btf_type_name ob t
                                   in if name \<noteq> [] then name else ''<anonymous>'');
          root_kind = (case root_type of None \<Rightarrow> ''<invalid>'' | Some t \<Rightarrow> mch_btf_kind_name (kind t))
      in mch_error_set_detail
           (reference @ '' object type: id '' @ show_u root_type_id @ '' '' @ root_kind @ '' ''
            @ quoted root_name @ ''; base BTF query: id '' @ show_u query_type_id @ '' ''
            @ mch_btf_kind_name query_kind @ '' '' @ quoted query_label @ '' -> '' @ base_result)
           err)"

text \<open>The locals that \<^verbatim>\<open>resolve_object_type_to_base\<close> keeps for its diagnostics.\<close>

record resolution =
  root_name :: "string option"
  query_name :: "string option"
  query_kind :: btf_kind
  query_id :: u32

definition ask_as :: "u32 \<Rightarrow> string \<Rightarrow> btf_kind \<Rightarrow> resolution \<Rightarrow> resolution" where
  "ask_as i name k q = q\<lparr>query_id := i, query_name := Some name, query_kind := k\<rparr>"

definition ambiguous_name_error ::
    "btf \<Rightarrow> u32 \<Rightarrow> string option \<Rightarrow> string \<Rightarrow> string \<Rightarrow> btf_kind \<Rightarrow> resolution \<Rightarrow> mch_error \<Rightarrow> mch_error" where
  "ambiguous_name_error ob root path reference name k q err =
     mch_error_set_hint (Some ''v0.1 requires exactly one same-name, same-kind base BTF match'')
       (set_resolution_detail ob root (query_id q) (query_name q) (query_kind q) reference
          ''ambiguous base matches''
          (mch_error_set_file path
             (mch_error_set (''ambiguous kernel type '' @ quoted name @ '' ('' @ mch_btf_kind_name k @ '')'')
                err)))"

definition ambiguous_enum_error ::
    "btf \<Rightarrow> u32 \<Rightarrow> string option \<Rightarrow> string \<Rightarrow> resolution \<Rightarrow> mch_error \<Rightarrow> mch_error" where
  "ambiguous_enum_error ob root path reference q err =
     mch_error_set_hint (Some ''v0.1 requires exactly one base BTF match for anonymous enums'')
       (set_resolution_detail ob root (query_id q) (query_name q) (query_kind q) reference
          ''ambiguous base matches''
          (mch_error_set_file path (mch_error_set ''ambiguous anonymous kernel enum'' err)))"

definition unresolved_error ::
    "btf \<Rightarrow> u32 \<Rightarrow> string option \<Rightarrow> string \<Rightarrow> u32 \<Rightarrow> btf_type \<Rightarrow> resolution \<Rightarrow> mch_error \<Rightarrow> mch_error" where
  "unresolved_error ob root path reference i t q err =
     (let e1 = mch_error_set (''failed to resolve kernel type ''
                 @ quoted (case root_name q of Some n \<Rightarrow> n | None \<Rightarrow> ''<anonymous>'')) err;
          e2 = mch_error_set_file path e1;
          q' = (if query_name q = None then ask_as i (mch_btf_type_name ob t) (kind t) q else q);
          e3 = set_resolution_detail ob root (query_id q') (query_name q') (query_kind q') reference
                 ''no same-name, same-kind match'' e2
      in mch_error_set_hint (Some ''verify that --btf points to the intended target kernel BTF'') e3)"

definition too_deep_error ::
    "btf \<Rightarrow> u32 \<Rightarrow> string option \<Rightarrow> string \<Rightarrow> resolution \<Rightarrow> mch_error \<Rightarrow> mch_error" where
  "too_deep_error ob root path reference q err =
     mch_error_set_hint (Some ''check for an unexpected typedef or modifier cycle'')
       (set_resolution_detail ob root (query_id q) (query_name q) (query_kind q) reference
          ''type chain too deep before base lookup''
          (mch_error_set_file path
             (mch_error_set (''object BTF type chain is too deep at type id '' @ show_u root) err)))"

text \<open>
  The two lookups of an iteration: the answer, the updated locals, and the diagnostics for an ambiguous
  answer.
\<close>

definition query_base ::
    "mch_btf_index \<Rightarrow> btf \<Rightarrow> u32 \<Rightarrow> string option \<Rightarrow> string \<Rightarrow> u32 \<Rightarrow> btf_type \<Rightarrow> resolution
      \<Rightarrow> mch_error \<Rightarrow> index_match option \<times> resolution \<times> mch_error" where
  "query_base idx ob root path reference i t q err =
     (let k = kind t; name = mch_btf_type_name ob t
      in if is_seedable_kind k \<and> name \<noteq> [] then
           let q' = ask_as i name k q
           in (mch_btf_index_lookup idx name k, q', ambiguous_name_error ob root path reference name k q' err)
         else if (k = BTF_KIND_ENUM \<or> k = BTF_KIND_ENUM64) \<and> name = [] then
           let q' = ask_as i name k q
           in (Some (mch_btf_index_lookup_anonymous_enum idx ob t), q',
               ambiguous_enum_error ob root path reference q' err)
         else (Some No_Match, q, err))"

fun resolve_loop ::
    "mch_btf_index \<Rightarrow> btf \<Rightarrow> u32 \<Rightarrow> string option \<Rightarrow> string \<Rightarrow> bool \<Rightarrow> mch_error \<Rightarrow> nat \<Rightarrow> resolution
      \<Rightarrow> u32 \<Rightarrow> u32 option outcome" where
  "resolve_loop idx ob root path reference allow err 0 q i =
     Some (Inl (too_deep_error ob root path reference q err))"
| "resolve_loop idx ob root path reference allow err (Suc n) q i =
     (if i = 0 \<or> i \<ge> type_cnt ob
      then Some (Inl (mch_error_set_file path
             (mch_error_set (reference @ '' references invalid object type id '' @ show_u i) err)))
      else
        (case type_by_id ob i of
           None \<Rightarrow> Some (Inl (mch_error_set_file path
                     (mch_error_set (''object BTF is missing type id '' @ show_u i) err)))
         | Some t \<Rightarrow>
             let name = mch_btf_type_name ob t;
                 q1 = (if root_name q = None \<and> name \<noteq> [] then q\<lparr>root_name := Some name\<rparr> else q);
                 (answer, q2, ambiguous) = query_base idx ob root path reference i t q1 err
             in (case answer of
                   None \<Rightarrow> None
                 | Some Ambiguous_Match \<Rightarrow> Some (Inl ambiguous)
                 | Some (Match j) \<Rightarrow> Some (Inr (Some j))
                 | Some No_Match \<Rightarrow>
                     if is_chain_kind (kind t)
                     then resolve_loop idx ob root path reference allow err n q2 (size_or_type t)
                     else if allow then Some (Inr None)
                     else Some (Inl (unresolved_error ob root path reference i t q2 err)))))"

text \<open>\<open>Inr (Some j)\<close> is 1 with \<^verbatim>\<open>*base_id = j\<close>, \<open>Inr None\<close> is 0, \<open>Inl\<close> is -1.\<close>

definition resolve_object_type_to_base ::
    "mch_btf_index \<Rightarrow> btf \<Rightarrow> u32 \<Rightarrow> string option \<Rightarrow> string \<Rightarrow> bool \<Rightarrow> mch_error \<Rightarrow> u32 option outcome" where
  "resolve_object_type_to_base idx ob object_type_id path reference allow err =
     resolve_loop idx ob object_type_id path reference allow err 32
       \<lparr>root_name = None, query_name = None, query_kind = BTF_KIND_UNKN, query_id = object_type_id\<rparr>
       object_type_id"

record mch_seed_stats =
  seed_candidates :: size_t
  kernel_types :: size_t
  program_local_types :: size_t
  core_relocations :: size_t
  core_kernel_types :: size_t

definition mch_seed_stats_init :: mch_seed_stats where
  "mch_seed_stats_init = \<lparr>seed_candidates = 0, kernel_types = 0, program_local_types = 0,
     core_relocations = 0, core_kernel_types = 0\<rparr>"

text \<open>What the extraction of seeds updates through its pointers.\<close>

record seed_state =
  ss_seeds :: mch_type_set
  ss_requirements :: "mch_requirements option"
  ss_stats :: mch_seed_stats
  ss_heap :: heap

definition seed_origin :: "string option \<Rightarrow> mch_requirement_origin" where
  "seed_origin path = \<lparr>o_source = MCH_REQUIREMENT_SOURCE_OBJECT_BTF, o_object_path = path,
     o_detail = Some ''seed'', o_access = None, o_location = None\<rparr>"

text \<open>One iteration of the loop over the object's types.\<close>

definition extract_object_seed ::
    "mch_btf_index \<Rightarrow> btf \<Rightarrow> string option \<Rightarrow> mch_error \<Rightarrow> u32 \<Rightarrow> seed_state \<Rightarrow> seed_state outcome" where
  "extract_object_seed idx ob path err i st =
     (case type_by_id ob i of
        None \<Rightarrow> Some (Inl (mch_error_set_file path
                  (mch_error_set (''object BTF is missing type id '' @ show_u i) err)))
      | Some t \<Rightarrow>
          if \<not> is_seedable_kind (kind t) then Some (Inr st)
          else if mch_btf_type_name ob t = [] \<and> kind t \<noteq> BTF_KIND_ENUM \<and> kind t \<noteq> BTF_KIND_ENUM64
          then Some (Inr st)
          else
            bind_outcome (resolve_object_type_to_base idx ob i path ''object BTF seed'' True err)
              (\<lambda>res. case res of
                 None \<Rightarrow> Some (Inr (st\<lparr>ss_stats := (ss_stats st)
                   \<lparr>seed_candidates := seed_candidates (ss_stats st) + 1,
                    program_local_types := program_local_types (ss_stats st) + 1\<rparr>\<rparr>))
               | Some base_id \<Rightarrow>
                   let stats = (ss_stats st)\<lparr>seed_candidates := seed_candidates (ss_stats st) + 1\<rparr>
                   in Some (bind_result
                        (mch_requirements_add_type_root (ss_requirements st) (ucast base_id)
                           (Some (seed_origin path)) err (ss_heap st))
                        (\<lambda>(req, h).
                           let (added, seeds) = mch_type_set_add (ss_seeds st) (ucast base_id)
                           in Inr (st\<lparr>ss_seeds := seeds, ss_requirements := req, ss_heap := h,
                                ss_stats := (if added then stats\<lparr>kernel_types := kernel_types stats + 1\<rparr>
                                             else stats)\<rparr>)))))"

fun extract_object_seeds_loop ::
    "mch_btf_index \<Rightarrow> btf \<Rightarrow> string option \<Rightarrow> mch_error \<Rightarrow> u32 list \<Rightarrow> seed_state \<Rightarrow> seed_state outcome" where
  "extract_object_seeds_loop idx ob path err [] st = Some (Inr st)"
| "extract_object_seeds_loop idx ob path err (i # ids) st =
     bind_outcome (extract_object_seed idx ob path err i st)
       (extract_object_seeds_loop idx ob path err ids)"

definition mch_extract_object_seeds_with_requirements ::
    "mch_btf_index \<Rightarrow> btf \<Rightarrow> string option \<Rightarrow> mch_error \<Rightarrow> seed_state \<Rightarrow> seed_state outcome" where
  "mch_extract_object_seeds_with_requirements idx ob path err st =
     extract_object_seeds_loop idx ob path err (type_ids ob) st"

definition mch_extract_object_seeds ::
    "mch_btf_index \<Rightarrow> btf \<Rightarrow> string option \<Rightarrow> mch_error \<Rightarrow> seed_state \<Rightarrow> seed_state outcome" where
  "mch_extract_object_seeds idx ob path err st =
     map_option (map_sum id (\<lambda>st'. st'\<lparr>ss_requirements := ss_requirements st\<rparr>))
       (mch_extract_object_seeds_with_requirements idx ob path err (st\<lparr>ss_requirements := None\<rparr>))"

subsection \<open>The walk along the chain\<close>

text \<open>How the chain of a type ends.\<close>

datatype chain_end = Invalid_Id u32 | Missing_Type u32 | Stops_At u32 | Too_Deep

fun walk :: "btf \<Rightarrow> nat \<Rightarrow> u32 \<Rightarrow> u32 list \<times> chain_end" where
  "walk ob 0 i = ([], Too_Deep)"
| "walk ob (Suc n) i =
     (if i = 0 \<or> i \<ge> type_cnt ob then ([], Invalid_Id i)
      else case type_by_id ob i of
             None \<Rightarrow> ([], Missing_Type i)
           | Some t \<Rightarrow>
               if is_chain_kind (kind t)
               then (let (is, e) = walk ob n (size_or_type t) in (i # is, e))
               else ([i], Stops_At i))"

text \<open>The types of the base BTF that answer for a type of the object.\<close>

definition base_hits :: "btf \<Rightarrow> btf \<Rightarrow> u32 \<Rightarrow> u32 set" where
  "base_hits b ob i =
     (case type_by_id ob i of
        None \<Rightarrow> {}
      | Some t \<Rightarrow>
          if is_seedable_kind (kind t) \<and> mch_btf_type_name ob t \<noteq> []
          then candidates b (mch_btf_type_name ob t) (kind t)
          else enum_candidates b ob t)"

definition first_hit :: "btf \<Rightarrow> btf \<Rightarrow> u32 list \<Rightarrow> u32 option" where
  "first_hit b ob = List.find (\<lambda>i. base_hits b ob i \<noteq> {})"

lemma is_seedable_indexed: "is_seedable_kind k \<longleftrightarrow> is_indexed_kind k"
  by (simp add: is_seedable_kind_def is_indexed_kind_def)

lemma query_base_hits:
  assumes idx: "index_for b idx" and t: "type_by_id ob i = Some t"
  shows "\<exists>m. fst (query_base idx ob root path reference i t q err) = Some m
    \<and> (m = No_Match \<longleftrightarrow> base_hits b ob i = {}) \<and> (\<forall>j. m = Match j \<longleftrightarrow> base_hits b ob i = {j})"
proof -
  have valid: "\<exists>b. index_for b idx" and b: "the (index_btf idx) = b"
    using idx by (auto simp: index_for_def)
  let ?name = "mch_btf_type_name ob t"
  show ?thesis
  proof (cases "is_seedable_kind (kind t) \<and> ?name \<noteq> []")
    case True
    then have "fst (query_base idx ob root path reference i t q err) = mch_btf_index_lookup idx ?name (kind t)"
      and hits: "base_hits b ob i = candidates b ?name (kind t)"
      using t by (simp_all add: query_base_def base_hits_def Let_def)
    moreover obtain m where "mch_btf_index_lookup idx ?name (kind t) = Some m"
      using by_name.search_returns [OF valid, of "(?name, kind t)"] by auto
    ultimately show ?thesis
      using by_name.no_match_iff [OF valid, of "(?name, kind t)"]
        by_name.match_iff [OF valid, of "(?name, kind t)"] by (auto simp: b)
  next
    case False
    then have hits: "base_hits b ob i = enum_candidates b ob t" using t by (auto simp: base_hits_def)
    show ?thesis
    proof (cases "(kind t = BTF_KIND_ENUM \<or> kind t = BTF_KIND_ENUM64) \<and> ?name = []")
      case True
      then have "fst (query_base idx ob root path reference i t q err)
          = Some (mch_btf_index_lookup_anonymous_enum idx ob t)"
        using False by (auto simp: query_base_def Let_def)
      with hits show ?thesis
        using by_enum.no_match_iff [OF valid, of "(ob, t)"] by_enum.match_iff [OF valid, of "(ob, t)"]
        by (auto simp: b)
    next
      case noenum: False
      then have "fst (query_base idx ob root path reference i t q err) = Some No_Match"
        using False by (auto simp: query_base_def Let_def)
      moreover have "enum_candidates b ob t = {}" using noenum by (auto simp: enum_candidates_def)
      ultimately show ?thesis using hits by auto
    qed
  qed
qed


text \<open>The result of the resolution, read off the walk.\<close>

fun end_message :: "btf \<Rightarrow> u32 \<Rightarrow> string \<Rightarrow> chain_end \<Rightarrow> string \<Rightarrow> bool" where
  "end_message ob root reference (Invalid_Id k) m \<longleftrightarrow>
     m = c_snprintf 256 (reference @ '' references invalid object type id '' @ show_u k)"
| "end_message ob root reference (Missing_Type k) m \<longleftrightarrow>
     m = c_snprintf 256 (''object BTF is missing type id '' @ show_u k)"
| "end_message ob root reference (Stops_At k) m \<longleftrightarrow>
     (\<exists>name. m = c_snprintf 256 (''failed to resolve kernel type '' @ quoted name))"
| "end_message ob root reference Too_Deep m \<longleftrightarrow>
     m = c_snprintf 256 (''object BTF type chain is too deep at type id '' @ show_u root)"

definition resolves ::
    "btf \<Rightarrow> btf \<Rightarrow> u32 \<Rightarrow> string \<Rightarrow> bool \<Rightarrow> u32 list \<times> chain_end \<Rightarrow> u32 option result \<Rightarrow> bool" where
  "resolves b ob root reference allow w r \<longleftrightarrow>
     (case first_hit b ob (fst w) of
        Some k \<Rightarrow>
          (\<exists>j. base_hits b ob k = {j} \<and> r = Inr (Some j))
          \<or> ((\<forall>j. base_hits b ob k \<noteq> {j}) \<and> (\<exists>e. r = Inl e \<and> take 9 (message e) = ''ambiguous''))
      | None \<Rightarrow>
          if allow \<and> (\<exists>k. snd w = Stops_At k) then r = Inr None
          else (\<exists>e. r = Inl e \<and> end_message ob root reference (snd w) (message e)))"

lemma message_resolution_errors [simp]:
  "message (set_resolution_detail ob root qi qn qk reference res err) = message err"
  "message (too_deep_error ob root path reference q err)
    = c_snprintf 256 (''object BTF type chain is too deep at type id '' @ show_u root)"
  by (simp_all add: set_resolution_detail_def too_deep_error_def Let_def)

lemma message_unresolved_error:
  "\<exists>name. message (unresolved_error ob root path reference i t q err)
    = c_snprintf 256 (''failed to resolve kernel type '' @ quoted name)"
  by (auto simp: unresolved_error_def Let_def)

lemma message_ambiguous_errors:
  "take 9 (message (ambiguous_name_error ob root path reference name k q err)) = ''ambiguous''"
  "take 9 (message (ambiguous_enum_error ob root path reference q err)) = ''ambiguous''"
  by (simp_all add: ambiguous_name_error_def ambiguous_enum_error_def c_snprintf_def)

lemma query_base_ambiguous:
  assumes "fst (query_base idx ob root path reference i t q err) = Some Ambiguous_Match"
  shows "take 9 (message (snd (snd (query_base idx ob root path reference i t q err)))) = ''ambiguous''"
  using assms by (auto simp: query_base_def Let_def message_ambiguous_errors split: if_splits)

lemma resolve_loop_walk:
  assumes idx: "index_for b idx"
  shows "\<exists>r. resolve_loop idx ob root path reference allow err n q i = Some r
    \<and> resolves b ob root reference allow (walk ob n i) r"
proof (induction n arbitrary: q i)
  case 0
  then show ?case by (simp add: resolves_def first_hit_def)
next
  case (Suc n)
  show ?case
  proof (cases "i = 0 \<or> i \<ge> type_cnt ob")
    case True
    then show ?thesis by (simp add: resolves_def first_hit_def)
  next
    case ok: False
    show ?thesis
    proof (cases "type_by_id ob i")
      case None
      with ok show ?thesis by (simp add: resolves_def first_hit_def)
    next
      case t: (Some t)
      let ?q1 = "if root_name q = None \<and> mch_btf_type_name ob t \<noteq> []
        then q\<lparr>root_name := Some (mch_btf_type_name ob t)\<rparr> else q"
      obtain a q2 amb where ask: "query_base idx ob root path reference i t ?q1 err = (a, q2, amb)"
        by (metis prod_cases3)
      obtain m where m: "a = Some m" "m = No_Match \<longleftrightarrow> base_hits b ob i = {}"
        "\<And>j. m = Match j \<longleftrightarrow> base_hits b ob i = {j}"
        using query_base_hits [OF idx t, of root path reference ?q1 err] ask by auto
      have code: "resolve_loop idx ob root path reference allow err (Suc n) q i
          = (case m of Ambiguous_Match \<Rightarrow> Some (Inl amb) | Match j \<Rightarrow> Some (Inr (Some j))
             | No_Match \<Rightarrow> if is_chain_kind (kind t)
                 then resolve_loop idx ob root path reference allow err n q2 (size_or_type t)
                 else if allow then Some (Inr None)
                 else Some (Inl (unresolved_error ob root path reference i t q2 err)))"
        using ok t ask m(1) by (simp add: Let_def)
      have visited: "\<exists>is e. walk ob (Suc n) i = (i # is, e)"
        using ok t by (cases "walk ob n (size_or_type t)") (auto simp: Let_def)
      show ?thesis
      proof (cases m)
        case (Match j)
        with m have hit: "base_hits b ob i = {j}" by blast
        with visited have "first_hit b ob (fst (walk ob (Suc n) i)) = Some i"
          by (auto simp: first_hit_def)
        with hit show ?thesis by (simp only: code Match resolves_def) simp
      next
        case Ambiguous_Match
        then have "base_hits b ob i \<noteq> {}" and several: "\<forall>j. base_hits b ob i \<noteq> {j}"
          using m by auto
        with visited have "first_hit b ob (fst (walk ob (Suc n) i)) = Some i"
          by (auto simp: first_hit_def)
        moreover have "take 9 (message amb) = ''ambiguous''"
          using query_base_ambiguous [of idx ob root path reference i t ?q1 err] ask m(1)
            Ambiguous_Match by simp
        ultimately show ?thesis using several by (simp only: code Ambiguous_Match resolves_def) simp
      next
        case No_Match
        then have none: "base_hits b ob i = {}" using m by blast
        show ?thesis
        proof (cases "is_chain_kind (kind t)")
          case True
          obtain r where r: "resolve_loop idx ob root path reference allow err n q2 (size_or_type t) = Some r"
            "resolves b ob root reference allow (walk ob n (size_or_type t)) r" using Suc.IH by blast
          have walk: "walk ob (Suc n) i
              = (i # fst (walk ob n (size_or_type t)), snd (walk ob n (size_or_type t)))"
            using ok t True by (simp add: Let_def case_prod_unfold)
          have "first_hit b ob (i # is) = first_hit b ob is" for "is"
            using none by (simp add: first_hit_def)
          then have "resolves b ob root reference allow (walk ob (Suc n) i) r"
            using r(2) by (simp only: walk resolves_def fst_conv snd_conv)
          with r(1) show ?thesis by (simp only: code No_Match True) simp
        next
          case False
          then have "walk ob (Suc n) i = ([i], Stops_At i)" using ok t by simp
          then have "resolves b ob root reference allow (walk ob (Suc n) i)
              (if allow then Inr None else Inl (unresolved_error ob root path reference i t q2 err))"
            using none message_unresolved_error by (simp add: resolves_def first_hit_def)
          then show ?thesis by (simp only: code No_Match False) auto
        qed
      qed
    qed
  qed
qed

lemma resolve_walk:
  assumes "index_for b idx"
  shows "\<exists>r. resolve_object_type_to_base idx ob i path reference allow err = Some r
    \<and> resolves b ob i reference allow (walk ob 32 i) r"
  unfolding resolve_object_type_to_base_def by (rule resolve_loop_walk [OF assms])

text \<open>What a match is, without the order of the search.\<close>

lemma base_hits_below: "base_hits b ob i \<subseteq> {0 <..< type_cnt b}"
  by (auto simp: base_hits_def candidates_def enum_candidates_def set_type_ids split: option.splits if_splits)

lemma resolve_Some_hit:
  assumes "index_for b idx"
    and "resolve_object_type_to_base idx ob i path reference allow err = Some (Inr (Some j))"
  shows "0 < j \<and> j < type_cnt b \<and> (\<exists>k \<in> set (fst (walk ob 32 i)). base_hits b ob k = {j})"
proof -
  have "resolves b ob i reference allow (walk ob 32 i) (Inr (Some j))"
    using resolve_walk [OF assms(1), of ob i path reference allow err] assms(2) by simp
  then obtain k where k: "first_hit b ob (fst (walk ob 32 i)) = Some k" "base_hits b ob k = {j}"
    by (auto simp: resolves_def split: option.splits if_splits)
  have "k \<in> set (fst (walk ob 32 i))" using k(1) by (auto simp: first_hit_def find_Some_iff)
  with k(2) base_hits_below [of b ob k] show ?thesis by auto
qed


subsection \<open>The seeds of an object's own BTF\<close>

text \<open>
  What holds of the state throughout the extraction: the seeds are ids of the base BTF, void not among
  them, and the requirements speak of seeds only.
\<close>

definition seed_invar :: "btf \<Rightarrow> seed_state \<Rightarrow> bool" where
  "seed_invar b st \<longleftrightarrow> ts_invar (ss_seeds st) \<and> ts_count (ss_seeds st) = ucast (type_cnt b)
     \<and> 0 \<notin> ts_elems (ss_seeds st)
     \<and> (\<forall>r. ss_requirements st = Some r \<longrightarrow>
          req_invar b r \<and> type_count r = ucast (type_cnt b)
          \<and> req_roots r \<subseteq> ts_elems (ss_seeds st) \<and> fst ` req_members r \<subseteq> ts_elems (ss_seeds st))"

definition is_candidate :: "btf \<Rightarrow> u32 \<Rightarrow> bool" where
  "is_candidate ob i = (case type_by_id ob i of None \<Rightarrow> False
     | Some t \<Rightarrow> is_seedable_kind (kind t)
         \<and> (mch_btf_type_name ob t \<noteq> [] \<or> kind t = BTF_KIND_ENUM \<or> kind t = BTF_KIND_ENUM64))"

definition base_matches :: "btf \<Rightarrow> btf \<Rightarrow> u32 \<Rightarrow> u32 set" where
  "base_matches b ob i = (case first_hit b ob (fst (walk ob 32 i)) of None \<Rightarrow> {} | Some k \<Rightarrow> base_hits b ob k)"

definition object_seeds :: "btf \<Rightarrow> btf \<Rightarrow> u32 \<Rightarrow> u32 set" where
  "object_seeds b ob i = (if is_candidate ob i then base_matches b ob i else {})"

lemma base_matches_below: "base_matches b ob i \<subseteq> {0 <..< type_cnt b}"
  using base_hits_below by (auto simp: base_matches_def split: option.splits)

lemma resolves_Inr:
  assumes "resolves b ob root reference allow (walk ob 32 i) (Inr res)"
  shows "base_matches b ob i = set_option res" "res = None \<Longrightarrow> allow"
  using assms by (auto simp: resolves_def base_matches_def split: option.splits if_splits)

text \<open>One type added to the roots and to the seeds.\<close>

lemma seed_base_id:
  assumes inv: "seed_invar b st" and j: "0 < j" "j < type_cnt b"
    and req: "mch_requirements_add_type_root (ss_requirements st) (ucast j) og err (ss_heap st) = Inr (rq, h)"
  defines "st' \<equiv> st\<lparr>ss_seeds := snd (mch_type_set_add (ss_seeds st) (ucast j)), ss_requirements := rq,
      ss_heap := h\<rparr>"
  shows "seed_invar b st'" "ts_elems (ss_seeds st') = insert (unat j) (ts_elems (ss_seeds st))"
    "rq = None \<longleftrightarrow> ss_requirements st = None"
    "ss_requirements st = Some r \<Longrightarrow> \<exists>r'. rq = Some r' \<and> req_roots r' = insert (unat j) (req_roots r)
      \<and> req_members r' = req_members r"
proof -
  have ts: "ts_invar (ss_seeds st)" "ts_count (ss_seeds st) = ucast (type_cnt b)" "0 \<notin> ts_elems (ss_seeds st)"
    using inv by (auto simp: seed_invar_def)
  have below: "unat (ucast j :: size_t) < unat (ts_count (ss_seeds st))"
    using ts(2) j(2) by (simp add: word_nat word_less_nat_alt)
  show elems: "ts_elems (ss_seeds st') = insert (unat j) (ts_elems (ss_seeds st))"
    using ts.add_elems [OF ts(1), of "ucast j"] below by (simp add: st'_def word_nat)
  have pos: "unat j \<noteq> 0" using j(1) by (simp add: word_less_nat_alt)
  have seeds: "ts_invar (ss_seeds st')" "ts_count (ss_seeds st') = ucast (type_cnt b)"
    "0 \<notin> ts_elems (ss_seeds st')"
    using ts.add_invar [OF ts(1)] ts(2,3) elems pos by (simp_all add: st'_def)
  have none: "rq = None" if "ss_requirements st = None"
    using req that by (simp add: mch_requirements_add_type_root_def)
  have some: "\<exists>r'. rq = Some r' \<and> req_invar b r' \<and> type_count r' = type_count r
      \<and> req_roots r' = insert (unat j) (req_roots r) \<and> req_members r' = req_members r"
    if r: "ss_requirements st = Some r" for r
  proof -
    have rinv: "req_invar b r" using inv r by (simp add: seed_invar_def)
    from add_type_root_spec [OF rinv req [unfolded r]] show ?thesis by (auto simp: word_nat)
  qed
  show "rq = None \<longleftrightarrow> ss_requirements st = None"
    using none some by (cases "ss_requirements st") auto
  show "\<exists>r'. rq = Some r' \<and> req_roots r' = insert (unat j) (req_roots r) \<and> req_members r' = req_members r"
    if "ss_requirements st = Some r" using some [OF that] by blast
  show "seed_invar b st'"
  proof (cases "ss_requirements st")
    case None
    then show ?thesis using none seeds by (simp add: seed_invar_def st'_def)
  next
    case (Some r)
    from some [OF Some] obtain r' where "rq = Some r'" "req_invar b r'" "type_count r' = type_count r"
      "req_roots r' = insert (unat j) (req_roots r)" "req_members r' = req_members r" by blast
    then show ?thesis using seeds inv elems Some by (auto simp: seed_invar_def st'_def)
  qed
qed

definition seeds_counted :: "seed_state \<Rightarrow> nat \<Rightarrow> nat \<Rightarrow> seed_state \<Rightarrow> bool" where
  "seeds_counted st n l st' \<longleftrightarrow>
     ss_stats st' = (ss_stats st)\<lparr>seed_candidates := seed_candidates (ss_stats st) + of_nat n,
       program_local_types := program_local_types (ss_stats st) + of_nat l,
       kernel_types := kernel_types (ss_stats st)
         + (ts_selected (ss_seeds st') - ts_selected (ss_seeds st))\<rparr>"

definition extends_roots :: "seed_state \<Rightarrow> u32 set \<Rightarrow> seed_state \<Rightarrow> bool" where
  "extends_roots st J st' \<longleftrightarrow>
     ts_elems (ss_seeds st') = ts_elems (ss_seeds st) \<union> unat ` J
     \<and> (case ss_requirements st of
          None \<Rightarrow> ss_requirements st' = None
        | Some r \<Rightarrow> (\<exists>r'. ss_requirements st' = Some r'
            \<and> req_roots r' = req_roots r \<union> unat ` J \<and> req_members r' = req_members r))"

lemma extends_roots_refl [simp]: "extends_roots st {} st"
  by (auto simp: extends_roots_def split: option.split)

lemma extends_roots_trans:
  "extends_roots st J st1 \<Longrightarrow> extends_roots st1 K st2 \<Longrightarrow> extends_roots st (J \<union> K) st2"
  by (auto simp: extends_roots_def image_Un split: option.splits)

lemma selected_add:
  "ts_selected (snd (mch_type_set_add s i)) = ts_selected s + (if fst (mch_type_set_add s i) then 1 else 0)"
  by (simp add: mch_type_set_add_def Let_def)


text \<open>When the extraction stops at a type, memory apart.\<close>

definition seed_fails :: "btf \<Rightarrow> btf \<Rightarrow> u32 \<Rightarrow> bool" where
  "seed_fails b ob i \<longleftrightarrow> type_by_id ob i = None
     \<or> is_candidate ob i \<and> (\<forall>j. base_matches b ob i \<noteq> {j})
       \<and> (base_matches b ob i = {} \<longrightarrow> (\<forall>k. snd (walk ob 32 i) \<noteq> Stops_At k))"

text \<open>The branches of an iteration.\<close>

lemma extract_object_seed_missing:
  "type_by_id ob i = None \<Longrightarrow> \<exists>e. extract_object_seed idx ob path err i st = Some (Inl e)"
  by (simp add: extract_object_seed_def)

lemma extract_object_seed_skip:
  assumes "type_by_id ob i = Some t" and "\<not> is_candidate ob i"
  shows "extract_object_seed idx ob path err i st = Some (Inr st)"
  using assms by (simp add: extract_object_seed_def is_candidate_def)

abbreviation resolve_seed :: "mch_btf_index \<Rightarrow> btf \<Rightarrow> string option \<Rightarrow> mch_error \<Rightarrow> u32 \<Rightarrow> u32 option outcome" where
  "resolve_seed idx ob path err i \<equiv>
     resolve_object_type_to_base idx ob i path ''object BTF seed'' True err"

lemma extract_object_seed_fault:
  assumes "is_candidate ob i" and "resolve_seed idx ob path err i = Some (Inl e)"
  shows "extract_object_seed idx ob path err i st = Some (Inl e)"
  using assms by (auto simp: extract_object_seed_def is_candidate_def split: option.splits)

lemma extract_object_seed_local:
  assumes "is_candidate ob i" and "resolve_seed idx ob path err i = Some (Inr None)"
  shows "extract_object_seed idx ob path err i st = Some (Inr (st\<lparr>ss_stats := (ss_stats st)
    \<lparr>seed_candidates := seed_candidates (ss_stats st) + 1,
     program_local_types := program_local_types (ss_stats st) + 1\<rparr>\<rparr>))"
  using assms by (auto simp: extract_object_seed_def is_candidate_def split: option.splits)

lemma extract_object_seed_root:
  assumes "is_candidate ob i" and "resolve_seed idx ob path err i = Some (Inr (Some j))"
  shows "extract_object_seed idx ob path err i st = Some (bind_result
    (mch_requirements_add_type_root (ss_requirements st) (ucast j) (Some (seed_origin path)) err (ss_heap st))
    (\<lambda>(rq, h). Inr (st\<lparr>ss_seeds := snd (mch_type_set_add (ss_seeds st) (ucast j)),
       ss_requirements := rq, ss_heap := h,
       ss_stats := (ss_stats st)\<lparr>seed_candidates := seed_candidates (ss_stats st) + 1,
         kernel_types := kernel_types (ss_stats st)
           + (if fst (mch_type_set_add (ss_seeds st) (ucast j)) then 1 else 0)\<rparr>\<rparr>)))"
proof -
  obtain t where t: "type_by_id ob i = Some t" using assms(1) by (auto simp: is_candidate_def split: option.splits)
  have "is_seedable_kind (kind t)"
    and "\<not> (mch_btf_type_name ob t = [] \<and> kind t \<noteq> BTF_KIND_ENUM \<and> kind t \<noteq> BTF_KIND_ENUM64)"
    using assms(1) t by (simp_all add: is_candidate_def)
  then show ?thesis
    using assms(2) t by (simp add: extract_object_seed_def Let_def case_prod_unfold cong: if_cong) auto
qed

lemma first_hit_Some: "first_hit b ob is = Some k \<Longrightarrow> base_hits b ob k \<noteq> {}"
  by (auto simp: first_hit_def find_Some_iff)

lemma candidate_type: "is_candidate ob i \<Longrightarrow> type_by_id ob i \<noteq> None"
  by (auto simp: is_candidate_def split: option.splits)

lemma resolve_seed_cases:
  assumes idx: "index_for b idx" and cand: "is_candidate ob i"
  obtains e where "resolve_seed idx ob path err i = Some (Inl e)" "seed_fails b ob i"
    | "resolve_seed idx ob path err i = Some (Inr None)" "base_matches b ob i = {}" "\<not> seed_fails b ob i"
    | j where "resolve_seed idx ob path err i = Some (Inr (Some j))" "base_matches b ob i = {j}"
        "0 < j" "j < type_cnt b" "\<not> seed_fails b ob i"
proof -
  obtain r where r: "resolve_seed idx ob path err i = Some r"
    and w: "resolves b ob i ''object BTF seed'' True (walk ob 32 i) r"
    using resolve_walk [OF idx] by blast
  show ?thesis
  proof (cases r)
    case (Inl e)
    have "seed_fails b ob i"
      using w [unfolded Inl] cand
      by (auto simp: seed_fails_def resolves_def base_matches_def dest: first_hit_Some
          split: option.splits if_splits)
    with r Inl show ?thesis by (intro that(1)) auto
  next
    case (Inr res)
    have m: "base_matches b ob i = set_option res" using resolves_Inr(1) [OF w [unfolded Inr]] .
    show ?thesis
    proof (cases res)
      case None
      have "\<exists>k. snd (walk ob 32 i) = Stops_At k"
        using w [unfolded Inr None] by (auto simp: resolves_def split: option.splits if_splits)
      then have "\<not> seed_fails b ob i" using m None candidate_type [OF cand] by (auto simp: seed_fails_def)
      with r Inr None m show ?thesis by (intro that(2)) auto
    next
      case (Some j)
      then have "\<not> seed_fails b ob i" using m candidate_type [OF cand] by (auto simp: seed_fails_def)
      with r Inr Some m base_matches_below [of b ob i] show ?thesis by (intro that(3)) auto
    qed
  qed
qed

lemma extract_object_seed_Inr:
  assumes idx: "index_for b idx" and inv: "seed_invar b st"
    and step: "extract_object_seed idx ob path err i st = Some (Inr st')"
  shows "seed_invar b st' \<and> extends_roots st (object_seeds b ob i) st'
    \<and> seeds_counted st (of_bool (is_candidate ob i))
         (of_bool (is_candidate ob i \<and> object_seeds b ob i = {})) st'"
proof (cases "is_candidate ob i")
  case False
  obtain t where "type_by_id ob i = Some t"
    using step by (auto simp: extract_object_seed_def split: option.splits)
  then have "st' = st" using step extract_object_seed_skip [OF _ False] by simp
  then show ?thesis using False inv by (simp add: object_seeds_def seeds_counted_def)
next
  case cand: True
  from idx cand show ?thesis
  proof (cases rule: resolve_seed_cases [where path = path and err = err])
    case (1 e)
    then show ?thesis using step extract_object_seed_fault [OF cand] by simp
  next
    case 2
    then have "object_seeds b ob i = {}" by (simp add: object_seeds_def)
    moreover have "st' = st\<lparr>ss_stats := (ss_stats st)
        \<lparr>seed_candidates := seed_candidates (ss_stats st) + 1,
         program_local_types := program_local_types (ss_stats st) + 1\<rparr>\<rparr>"
      using step extract_object_seed_local [OF cand 2(1), of st] by simp
    ultimately show ?thesis
      using cand inv by (auto simp: seeds_counted_def seed_invar_def extends_roots_def split: option.split)
  next
    case (3 j)
    then have hits: "object_seeds b ob i = {j}" using cand by (simp add: object_seeds_def)
    obtain rq h where req: "mch_requirements_add_type_root (ss_requirements st) (ucast j)
        (Some (seed_origin path)) err (ss_heap st) = Inr (rq, h)"
      and st': "st' = st\<lparr>ss_seeds := snd (mch_type_set_add (ss_seeds st) (ucast j)),
        ss_requirements := rq, ss_heap := h,
        ss_stats := (ss_stats st)\<lparr>seed_candidates := seed_candidates (ss_stats st) + 1,
          kernel_types := kernel_types (ss_stats st)
            + (if fst (mch_type_set_add (ss_seeds st) (ucast j)) then 1 else 0)\<rparr>\<rparr>"
      using step extract_object_seed_root [OF cand 3(1), of st] by (auto simp: bind_result_Inr)
    note add = seed_base_id [OF inv 3(3,4) req]
    have "extends_roots st {j} st'"
      using add(2-4) by (auto simp: extends_roots_def st' split: option.split)
    moreover have "seed_invar b st'" using add(1) by (simp add: seed_invar_def st')
    moreover have "seeds_counted st 1 0 st'" by (simp add: seeds_counted_def st' selected_add)
    ultimately show ?thesis using hits cand by simp
  qed
qed

lemma extract_object_seed_fails_iff:
  assumes idx: "index_for b idx" and inv: "seed_invar b st"
    and h: "ss_requirements st = None \<or> ss_heap st = plenty"
  shows "(\<exists>e. extract_object_seed idx ob path err i st = Some (Inl e)) \<longleftrightarrow> seed_fails b ob i"
    and "\<exists>r. extract_object_seed idx ob path err i st = Some r"
    and "extract_object_seed idx ob path err i st = Some (Inr st') \<Longrightarrow>
      ss_requirements st' = None \<or> ss_heap st' = plenty"
proof -
  have all: "if seed_fails b ob i then \<exists>e. extract_object_seed idx ob path err i st = Some (Inl e)
    else \<exists>st'. extract_object_seed idx ob path err i st = Some (Inr st')
      \<and> (ss_requirements st' = None \<or> ss_heap st' = plenty)"
  proof (cases "is_candidate ob i")
    case False
    show ?thesis
    proof (cases "type_by_id ob i")
      case None
      then show ?thesis using extract_object_seed_missing by (simp add: seed_fails_def)
    next
      case (Some t)
      then show ?thesis
        using False h extract_object_seed_skip [OF Some False] by (simp add: seed_fails_def)
    qed
  next
    case cand: True
    from idx cand show ?thesis
    proof (cases rule: resolve_seed_cases [where path = path and err = err])
      case (1 e)
      then show ?thesis using extract_object_seed_fault [OF cand 1(1)] by simp
    next
      case 2
      then show ?thesis using extract_object_seed_local [OF cand 2(1)] h by simp
    next
      case (3 j)
      have "\<exists>rq h'. mch_requirements_add_type_root (ss_requirements st) (ucast j)
          (Some (seed_origin path)) err (ss_heap st) = Inr (rq, h') \<and> (rq = None \<or> h' = plenty)"
      proof (cases "ss_requirements st")
        case None
        then show ?thesis by (simp add: mch_requirements_add_type_root_def)
      next
        case (Some q)
        then have "req_invar b q" "ucast j < type_count q"
          using inv 3(4) by (simp_all add: seed_invar_def word_less_nat_alt word_nat)
        from add_type_root_plenty [OF this] Some h show ?thesis by fastforce
      qed
      then show ?thesis using extract_object_seed_root [OF cand 3(1)] 3(5) by auto
    qed
  qed
  then show "(\<exists>e. extract_object_seed idx ob path err i st = Some (Inl e)) \<longleftrightarrow> seed_fails b ob i"
    and "\<exists>r. extract_object_seed idx ob path err i st = Some r"
    and "extract_object_seed idx ob path err i st = Some (Inr st') \<Longrightarrow>
      ss_requirements st' = None \<or> ss_heap st' = plenty"
    by (auto split: if_splits)
qed

text \<open>The loop.\<close>

lemma seeds_counted_trans:
  "seeds_counted st n l st1 \<Longrightarrow> seeds_counted st1 n' l' st2 \<Longrightarrow> seeds_counted st (n + n') (l + l') st2"
  by (simp add: seeds_counted_def)

lemma extract_object_seeds_loop_Inr:
  assumes idx: "index_for b idx" and "seed_invar b st"
    and "extract_object_seeds_loop idx ob path err ids st = Some (Inr st')"
  shows "seed_invar b st' \<and> extends_roots st (\<Union>i \<in> set ids. object_seeds b ob i) st'
    \<and> seeds_counted st (length (filter (is_candidate ob) ids))
         (length (filter (\<lambda>i. is_candidate ob i \<and> object_seeds b ob i = {}) ids)) st'"
  using assms(2,3)
proof (induction ids arbitrary: st)
  case Nil
  then show ?case by (simp add: seeds_counted_def)
next
  case (Cons i ids)
  then obtain st1 where one: "extract_object_seed idx ob path err i st = Some (Inr st1)"
    and rest: "extract_object_seeds_loop idx ob path err ids st1 = Some (Inr st')"
    by (auto simp: bind_outcome_Inr)
  note first = extract_object_seed_Inr [OF idx Cons.prems(1) one]
  note tail = Cons.IH [OF _ rest]
  have "extends_roots st (object_seeds b ob i \<union> (\<Union>i \<in> set ids. object_seeds b ob i)) st'"
    using first tail by (blast intro: extends_roots_trans)
  moreover have "seeds_counted st (of_bool (is_candidate ob i) + length (filter (is_candidate ob) ids))
      (of_bool (is_candidate ob i \<and> object_seeds b ob i = {})
        + length (filter (\<lambda>i. is_candidate ob i \<and> object_seeds b ob i = {}) ids)) st'"
    using first tail by (blast intro: seeds_counted_trans)
  ultimately show ?case
    using first tail
    by (cases "is_candidate ob i"; cases "object_seeds b ob i = {}") simp_all
qed

lemma extract_object_seeds_loop_fails:
  assumes idx: "index_for b idx" and "seed_invar b st"
    and "ss_requirements st = None \<or> ss_heap st = plenty"
  shows "\<exists>r. extract_object_seeds_loop idx ob path err ids st = Some r
    \<and> ((\<exists>e. r = Inl e) \<longleftrightarrow> (\<exists>i \<in> set ids. seed_fails b ob i))"
  using assms(2,3)
proof (induction ids arbitrary: st)
  case Nil
  then show ?case by simp
next
  case (Cons i ids)
  note facts = extract_object_seed_fails_iff [OF idx Cons.prems, of ob path err i]
  obtain r where r: "extract_object_seed idx ob path err i st = Some r" using facts(2) by blast
  show ?case
  proof (cases r)
    case (Inl e)
    then show ?thesis using r facts(1) by auto
  next
    case (Inr st1)
    then have one: "extract_object_seed idx ob path err i st = Some (Inr st1)" using r by simp
    have "\<not> seed_fails b ob i" using facts(1) one by simp
    moreover have "seed_invar b st1" using extract_object_seed_Inr [OF idx Cons.prems(1) one] by blast
    ultimately show ?thesis using Cons.IH facts(3) [OF one] one by simp
  qed
qed

lemma extract_object_seeds_loop_returns:
  assumes "index_for b idx"
  shows "\<exists>r. extract_object_seeds_loop idx ob path err ids st = Some r"
proof (induction ids arbitrary: st)
  case (Cons i ids)
  have "\<exists>r. extract_object_seed idx ob path err i st = Some r"
  proof (cases "is_candidate ob i")
    case True
    from assms True show ?thesis
      by (cases rule: resolve_seed_cases [where path = path and err = err])
        (simp_all add: extract_object_seed_fault [OF True] extract_object_seed_local [OF True]
          extract_object_seed_root [OF True])
  next
    case False
    then show ?thesis
      using extract_object_seed_missing [of ob i] extract_object_seed_skip [of ob i]
      by (cases "type_by_id ob i") blast+
  qed
  then obtain r where "extract_object_seed idx ob path err i st = Some r" by blast
  then show ?case using Cons by (cases r) auto
qed simp

end
