(* ===== verification/Access.thy ===== *)
theory Access
  imports Resolve
begin

text \<open>
  The second part of \<^verbatim>\<open>src/seeds.c\<close>: the access string of a field relocation. The string
  \<^verbatim>\<open>"0:1:2"\<close> is parsed into member indices, the members are followed through the records of
  the object and of the base BTF at the same time, and every base member on the way becomes
  a requirement. A base member is found by its name, through anonymous records if need be
  (\<open>member_path\<close>).
\<close>

subsection \<open>The code\<close>

text \<open>
  The relocation record of \<^verbatim>\<open>linux/bpf.h\<close>; \<open>relo_kind\<close> is an enumeration there, and a
  number outside of it is \<open>BPF_CORE_OTHER\<close>.
\<close>

datatype bpf_core_relo_kind =
    BPF_CORE_FIELD_BYTE_OFFSET | BPF_CORE_FIELD_BYTE_SIZE | BPF_CORE_FIELD_EXISTS
  | BPF_CORE_FIELD_SIGNED | BPF_CORE_FIELD_LSHIFT_U64 | BPF_CORE_FIELD_RSHIFT_U64
  | BPF_CORE_TYPE_ID_LOCAL | BPF_CORE_TYPE_ID_TARGET | BPF_CORE_TYPE_EXISTS | BPF_CORE_TYPE_SIZE
  | BPF_CORE_ENUMVAL_EXISTS | BPF_CORE_ENUMVAL_VALUE | BPF_CORE_TYPE_MATCHES | BPF_CORE_OTHER

record bpf_core_relo =
  relo_insn_off :: u32
  relo_type_id :: u32
  relo_access_str_off :: u32
  relo_kind :: bpf_core_relo_kind

fun core_relo_kind_name :: "bpf_core_relo_kind \<Rightarrow> string" where
  "core_relo_kind_name BPF_CORE_FIELD_BYTE_OFFSET = ''FIELD_BYTE_OFFSET''"
| "core_relo_kind_name BPF_CORE_FIELD_BYTE_SIZE = ''FIELD_BYTE_SIZE''"
| "core_relo_kind_name BPF_CORE_FIELD_EXISTS = ''FIELD_EXISTS''"
| "core_relo_kind_name BPF_CORE_FIELD_SIGNED = ''FIELD_SIGNED''"
| "core_relo_kind_name BPF_CORE_FIELD_LSHIFT_U64 = ''FIELD_LSHIFT_U64''"
| "core_relo_kind_name BPF_CORE_FIELD_RSHIFT_U64 = ''FIELD_RSHIFT_U64''"
| "core_relo_kind_name BPF_CORE_TYPE_ID_LOCAL = ''TYPE_ID_LOCAL''"
| "core_relo_kind_name BPF_CORE_TYPE_ID_TARGET = ''TYPE_ID_TARGET''"
| "core_relo_kind_name BPF_CORE_TYPE_EXISTS = ''TYPE_EXISTS''"
| "core_relo_kind_name BPF_CORE_TYPE_SIZE = ''TYPE_SIZE''"
| "core_relo_kind_name BPF_CORE_ENUMVAL_EXISTS = ''ENUMVAL_EXISTS''"
| "core_relo_kind_name BPF_CORE_ENUMVAL_VALUE = ''ENUMVAL_VALUE''"
| "core_relo_kind_name BPF_CORE_TYPE_MATCHES = ''TYPE_MATCHES''"
| "core_relo_kind_name _ = ''UNKNOWN''"

definition is_field_relo_kind :: "bpf_core_relo_kind \<Rightarrow> bool" where
  "is_field_relo_kind k = (case k of
       BPF_CORE_FIELD_BYTE_OFFSET \<Rightarrow> True | BPF_CORE_FIELD_BYTE_SIZE \<Rightarrow> True
     | BPF_CORE_FIELD_EXISTS \<Rightarrow> True | BPF_CORE_FIELD_SIGNED \<Rightarrow> True
     | BPF_CORE_FIELD_LSHIFT_U64 \<Rightarrow> True | BPF_CORE_FIELD_RSHIFT_U64 \<Rightarrow> True
     | _ \<Rightarrow> False)"

text \<open>The type a pointer, modifier, tag, typedef or array leads to, one step.\<close>

definition peel_step :: "btf_type \<Rightarrow> u32 option" where
  "peel_step t = (case kind t of
       BTF_KIND_TYPEDEF \<Rightarrow> Some (size_or_type t) | BTF_KIND_VOLATILE \<Rightarrow> Some (size_or_type t)
     | BTF_KIND_CONST \<Rightarrow> Some (size_or_type t) | BTF_KIND_RESTRICT \<Rightarrow> Some (size_or_type t)
     | BTF_KIND_DECL_TAG \<Rightarrow> Some (size_or_type t) | BTF_KIND_TYPE_TAG \<Rightarrow> Some (size_or_type t)
     | BTF_KIND_PTR \<Rightarrow> Some (size_or_type t)
     | BTF_KIND_ARRAY \<Rightarrow> Some (a_type (array_of t))
     | _ \<Rightarrow> None)"

fun peel_loop :: "nat \<Rightarrow> btf \<Rightarrow> u32 \<Rightarrow> btf_type option \<times> u32" where
  "peel_loop 0 b i = (None, i)"
| "peel_loop (Suc n) b i =
     (if i = 0 \<or> i \<ge> type_cnt b then (None, i)
      else case type_by_id b i of
             None \<Rightarrow> (None, i)
           | Some t \<Rightarrow> (case peel_step t of Some j \<Rightarrow> peel_loop n b j | None \<Rightarrow> (Some t, i)))"

text \<open>The second component is \<^verbatim>\<open>*id\<close> afterwards.\<close>

definition peel_access_type :: "btf \<Rightarrow> u32 \<Rightarrow> btf_type option \<times> u32" where
  "peel_access_type b i = peel_loop 64 b i"

definition is_digit :: "char \<Rightarrow> bool" where
  "is_digit c \<longleftrightarrow> 48 \<le> (of_char c :: nat) \<and> (of_char c :: nat) \<le> 57"

fun parse_digits :: "u64 \<Rightarrow> string \<Rightarrow> (u64 \<times> string) option" where
  "parse_digits parsed [] = Some (parsed, [])"
| "parse_digits parsed (c # cs) =
     (if is_digit c then
        let parsed' = parsed * 10 + of_nat (of_char c - 48)
        in if parsed' > 0xFFFFFFFF then None else parse_digits parsed' cs
      else Some (parsed, c # cs))"

text \<open>The value and the cursor behind it, \<open>None\<close> for -1.\<close>

definition parse_access_component :: "string \<Rightarrow> (u32 \<times> string) option" where
  "parse_access_component cursor =
     (case cursor of
        [] \<Rightarrow> None
      | c # _ \<Rightarrow>
          if \<not> is_digit c then None
          else (case parse_digits 0 cursor of
                  None \<Rightarrow> None
                | Some (parsed, []) \<Rightarrow> Some (ucast parsed, [])
                | Some (parsed, d # ds) \<Rightarrow> if d = CHR '':'' then Some (ucast parsed, ds) else None))"

definition find_base_member :: "btf \<Rightarrow> btf_type \<Rightarrow> string option \<Rightarrow> u32 \<Rightarrow> nat option" where
  "find_base_member b t member_name fallback_index =
     (if has_name member_name
      then List.find (\<lambda>i. name_by_offset b (m_name_off (member t i)) = member_name) [0..<nvlen t]
      else if unat fallback_index \<ge> nvlen t then None
      else Some (unat fallback_index))"

text \<open>A member found: it becomes a requirement and its record a seed.\<close>

definition mark_member ::
    "btf \<Rightarrow> mch_requirement_origin option \<Rightarrow> mch_error \<Rightarrow> u32 \<Rightarrow> nat \<Rightarrow> seed_state \<Rightarrow> seed_state result" where
  "mark_member b origin err record_id i st =
     bind_result
       (mch_requirements_add_record_member b (ss_requirements st) (ucast record_id) (of_nat i) origin err
          (ss_heap st))
       (\<lambda>(req, h). Inr (st\<lparr>ss_requirements := req, ss_heap := h,
          ss_seeds := snd (mch_type_set_add (ss_seeds st) (ucast record_id))\<rparr>))"

text \<open>
  \<open>levels\<close> is 17 - \<^verbatim>\<open>depth\<close>. The result \<open>Inr (Some ty, st)\<close> is 1 with
  \<^verbatim>\<open>*member_type = ty\<close>, \<open>Inr (None, st)\<close> is 0. \<open>scan_anonymous\<close> is the loop over the
  members.
\<close>

fun mark_path ::
    "btf \<Rightarrow> mch_requirement_origin option \<Rightarrow> mch_error \<Rightarrow> string option \<Rightarrow> nat \<Rightarrow> u32 \<Rightarrow> u32 \<Rightarrow> btf_type
      \<Rightarrow> seed_state \<Rightarrow> (u32 option \<times> seed_state) result"
  and scan_anonymous ::
    "btf \<Rightarrow> mch_requirement_origin option \<Rightarrow> mch_error \<Rightarrow> string option \<Rightarrow> nat \<Rightarrow> u32 \<Rightarrow> btf_type
      \<Rightarrow> nat list \<Rightarrow> seed_state \<Rightarrow> (u32 option \<times> seed_state) result" where
  "mark_path b origin err name 0 fallback record_id t st =
     Inl (mch_error_set ''CO-RE member search through anonymous records is too deep'' err)"
| "mark_path b origin err name (Suc levels) fallback record_id t st =
     (case find_base_member b t name fallback of
        Some i \<Rightarrow> bind_result (mark_member b origin err record_id i st)
                    (\<lambda>st'. Inr (Some (m_type (member t i)), st'))
      | None \<Rightarrow>
          if \<not> has_name name then Inr (None, st)
          else scan_anonymous b origin err name levels record_id t [0..<nvlen t] st)"
| "scan_anonymous b origin err name levels record_id t [] st = Inr (None, st)"
| "scan_anonymous b origin err name levels record_id t (i # is) st =
     (if has_name (name_by_offset b (m_name_off (member t i)))
      then scan_anonymous b origin err name levels record_id t is st
      else
        (case peel_access_type b (m_type (member t i)) of
           (None, _) \<Rightarrow> scan_anonymous b origin err name levels record_id t is st
         | (Some nested, nested_id) \<Rightarrow>
             if \<not> is_record_kind (kind nested)
             then scan_anonymous b origin err name levels record_id t is st
             else
               (case mark_path b origin err name levels 0xFFFFFFFF nested_id nested st of
                  Inl e \<Rightarrow> Inl e
                | Inr (None, st') \<Rightarrow> scan_anonymous b origin err name levels record_id t is st'
                | Inr (Some ty, st') \<Rightarrow>
                    bind_result (mark_member b origin err record_id i st') (\<lambda>st''. Inr (Some ty, st'')))))"

definition mark_base_member_path ::
    "btf \<Rightarrow> u32 \<Rightarrow> btf_type \<Rightarrow> string option \<Rightarrow> u32 \<Rightarrow> mch_requirement_origin option \<Rightarrow> mch_error
      \<Rightarrow> seed_state \<Rightarrow> (u32 option \<times> seed_state) result" where
  "mark_base_member_path b record_id t name fallback origin err st =
     mark_path b origin err name 17 fallback record_id t st"

lemma parse_digits_shorter: "parse_digits p s = Some (q, rest) \<Longrightarrow> length rest \<le> length s"
  by (induction p s rule: parse_digits.induct) (auto simp: Let_def split: if_splits)

lemma parse_access_component_shorter:
  assumes "parse_access_component s = Some (v, rest)"
  shows "length rest < length s"
proof (cases s)
  case Nil
  with assms show ?thesis by (simp add: parse_access_component_def)
next
  case (Cons c cs)
  then have c: "is_digit c" using assms by (auto simp: parse_access_component_def split: if_splits)
  then obtain q r where q: "parse_digits 0 s = Some (q, r)"
    using assms Cons by (cases "parse_digits 0 s") (auto simp: parse_access_component_def)
  obtain p where "parse_digits p cs = Some (q, r)"
    using q c Cons by (auto simp: Let_def split: if_splits)
  then have "length r \<le> length cs" by (rule parse_digits_shorter)
  moreover have "length rest \<le> length r"
    using assms q c Cons by (auto simp: parse_access_component_def split: list.splits if_splits)
  ultimately show ?thesis using Cons by simp
qed


definition bad_access_error :: "string option \<Rightarrow> string \<Rightarrow> mch_error \<Rightarrow> mch_error" where
  "bad_access_error path access err =
     mch_error_set_file path
       (mch_error_set (''CO-RE relocation has unsupported access string '' @ quoted access) err)"

text \<open>The locals of the loop: the cursor and the two types the access has reached.\<close>

function access_loop ::
    "mch_btf_index \<Rightarrow> btf \<Rightarrow> string option \<Rightarrow> mch_requirement_origin option \<Rightarrow> string \<Rightarrow> mch_error
      \<Rightarrow> string \<Rightarrow> u32 \<Rightarrow> u32 \<Rightarrow> seed_state \<Rightarrow> seed_state result" where
  "access_loop idx ob path origin access err cursor object_id base_id st =
     (if cursor = [] then Inr st
      else case parse_access_component cursor of
        None \<Rightarrow> Inl (bad_access_error path access err)
      | Some (object_member_index, cursor') \<Rightarrow>
          let b = the (index_btf idx);
              (object_record, object_id') = peel_access_type ob object_id;
              (base_record, base_id') = peel_access_type b base_id
          in if object_record = None \<or> base_record = None
                \<or> \<not> is_record_kind (kind (the object_record)) \<or> \<not> is_record_kind (kind (the base_record))
             then Inl (mch_error_set_detail (''access: '' @ access @ ''; object type id: '' @ show_u object_id'
                         @ ''; base type id: '' @ show_u base_id')
                    (mch_error_set_file path
                      (mch_error_set ''CO-RE relocation access does not resolve through records'' err)))
             else if unat object_member_index \<ge> nvlen (the object_record)
             then Inl (mch_error_set_detail (''access: '' @ access @ ''; object type id: '' @ show_u object_id')
                    (mch_error_set_file path
                      (mch_error_set (''CO-RE relocation references invalid member ''
                         @ show_u object_member_index) err)))
             else
               let m = member (the object_record) (unat object_member_index);
                   member_name = name_by_offset ob (m_name_off m)
               in (case mark_base_member_path b base_id' (the base_record) member_name
                          object_member_index origin err st of
                     Inl e \<Rightarrow> Inl (mch_error_set_file path e)
                   | Inr (None, st') \<Rightarrow>
                       Inl (mch_error_set_hint
                              (Some ''verify that --btf points to the intended target kernel BTF'')
                         (mch_error_set_detail (''access: '' @ access @ ''; base record: ''
                             @ mch_btf_kind_name (kind (the base_record)) @ '' ''
                             @ quoted (mch_btf_type_name b (the base_record)))
                         (mch_error_set_file path
                         (mch_error_set (''failed to resolve CO-RE member ''
                             @ quoted (if has_name member_name then the member_name else ''<anonymous>''))
                            err))))
                   | Inr (Some base_member_type, st') \<Rightarrow>
                       access_loop idx ob path origin access err cursor' (m_type m) base_member_type st'))"
  by pat_completeness auto
termination
  by (relation "measure (\<lambda>(idx, ob, path, origin, access, err, cursor, oi, bi, st). length cursor)")
    (auto dest: parse_access_component_shorter)

declare access_loop.simps [simp del]

definition record_core_relo_requirements ::
    "mch_btf_index \<Rightarrow> btf \<Rightarrow> string option \<Rightarrow> bpf_core_relo \<Rightarrow> u32 \<Rightarrow> mch_requirement_origin option
      \<Rightarrow> mch_error \<Rightarrow> seed_state \<Rightarrow> seed_state result" where
  "record_core_relo_requirements idx ob path relo base_id origin err st =
     (let access = (case origin of None \<Rightarrow> str_by_offset ob (relo_access_str_off relo)
                    | Some og \<Rightarrow> o_access og)
      in if ss_requirements st = None \<or> \<not> is_field_relo_kind (relo_kind relo) \<or> \<not> has_name access
         then Inr st
         else (case parse_access_component (the access) of
                 None \<Rightarrow> Inl (bad_access_error path (the access) err)
               | Some (_, cursor) \<Rightarrow>
                   access_loop idx ob path origin (the access) err cursor (relo_type_id relo) base_id st))"

subsection \<open>The parser\<close>

definition digit_of :: "char \<Rightarrow> nat" where
  "digit_of c = of_char c - 48"

definition decimal :: "nat \<Rightarrow> string \<Rightarrow> nat" where
  "decimal n ds = foldl (\<lambda>n c. n * 10 + digit_of c) n ds"

lemma decimal_simps [simp]:
  "decimal n [] = n" "decimal n (c # ds) = decimal (n * 10 + digit_of c) ds"
  "decimal n (ds @ [c]) = decimal n ds * 10 + digit_of c"
  by (simp_all add: decimal_def)

lemma decimal_ge: "n \<le> decimal n ds"
proof (induction ds arbitrary: n)
  case (Cons c ds)
  from Cons [of "n * 10 + digit_of c"] show ?case by simp
qed simp

lemma digit_of_less: "is_digit c \<Longrightarrow> digit_of c < 10"
  unfolding is_digit_def digit_of_def by arith

lemma parse_digits_decimal:
  assumes "\<forall>c \<in> set ds. is_digit c" and "rest = [] \<or> \<not> is_digit (hd rest)" and "unat p < 2 ^ 32"
  shows "parse_digits p (ds @ rest)
    = (if decimal (unat p) ds < 2 ^ 32 then Some (of_nat (decimal (unat p) ds), rest) else None)"
  using assms(1,3)
proof (induction ds arbitrary: p)
  case Nil
  then show ?case using assms(2) by (cases rest) auto
next
  case (Cons c ds)
  have d: "digit_of c < 10" using Cons.prems(1) digit_of_less by simp
  let ?p = "p * 10 + of_nat (digit_of c)"
  have "unat (of_nat (digit_of c) :: u64) = digit_of c" using d by (intro unat_of_nat_small) simp
  moreover have "unat (p * 10) = unat p * 10" using Cons.prems(2) by (subst unat_mult_small) auto
  ultimately have p: "unat ?p = unat p * 10 + digit_of c"
    using d Cons.prems(2) by (subst unat_add_small) auto
  have digit: "is_digit c" using Cons.prems(1) by simp
  have step: "parse_digits p ((c # ds) @ rest)
      = (if ?p > 0xFFFFFFFF then None else parse_digits ?p (ds @ rest))"
    using digit by (simp add: digit_of_def Let_def)
  show ?case
  proof (cases "unat ?p < 2 ^ 32")
    case True
    then have "\<not> ?p > 0xFFFFFFFF" by (simp add: word_less_nat_alt)
    moreover have "parse_digits ?p (ds @ rest) = (if decimal (unat ?p) ds < 2 ^ 32
        then Some (of_nat (decimal (unat ?p) ds), rest) else None)"
      using Cons.prems(1) True by (intro Cons.IH) auto
    ultimately show ?thesis unfolding step p by simp
  next
    case False
    then have "?p > 0xFFFFFFFF" by (simp add: word_less_nat_alt)
    moreover have "\<not> decimal (unat ?p) ds < 2 ^ 32"
      using False decimal_ge [of "unat ?p" ds] by linarith
    ultimately show ?thesis unfolding step p by simp
  qed
qed


lemma parse_access_component_digits:
  assumes ds: "ds \<noteq> []" "\<forall>c \<in> set ds. is_digit c" and rest: "rest = [] \<or> hd rest = CHR '':''"
  shows "parse_access_component (ds @ rest)
    = (if decimal 0 ds < 2 ^ 32 then Some (of_nat (decimal 0 ds), tl rest) else None)"
proof -
  obtain c cs where c: "ds = c # cs" "is_digit c" using ds by (cases ds) auto
  have "\<not> is_digit CHR '':''" by (simp add: is_digit_def)
  then have digits: "parse_digits 0 (ds @ rest)
      = (if decimal 0 ds < 2 ^ 32 then Some (of_nat (decimal 0 ds), rest) else None)"
    using parse_digits_decimal [OF ds(2), of rest 0] rest by auto
  have "(ucast (of_nat n :: u64) :: u32) = of_nat n" for n
    by (simp add: unsigned_of_nat word_of_nat_eq_iff)
  with digits rest c show ?thesis
    by (cases rest) (auto simp: parse_access_component_def)
qed

text \<open>The parser accepts exactly a decimal number below 2^32 and then the end or a colon.\<close>

lemma parse_access_component_Some:
  assumes "parse_access_component s = Some (v, r)"
  obtains ds where "ds \<noteq> []" "\<forall>c \<in> set ds. is_digit c" "decimal 0 ds = unat v"
    "s = ds \<and> r = [] \<or> s = ds @ CHR '':'' # r"
proof -
  let ?ds = "takeWhile is_digit s" and ?rest = "dropWhile is_digit s"
  have s: "s = ?ds @ ?rest" by simp
  have digits: "\<forall>c \<in> set ?ds. is_digit c" by (auto dest: set_takeWhileD)
  have edge: "?rest = [] \<or> \<not> is_digit (hd ?rest)" by (meson hd_dropWhile)
  have nonempty: "?ds \<noteq> []"
    using assms by (cases s) (auto simp: parse_access_component_def split: if_splits)
  have parsed: "parse_digits 0 s
      = (if decimal 0 ?ds < 2 ^ 32 then Some (of_nat (decimal 0 ?ds), ?rest) else None)"
    using parse_digits_decimal [OF digits edge, of 0] by simp
  have small: "decimal 0 ?ds < 2 ^ 32"
    using assms parsed by (cases s) (auto simp: parse_access_component_def split: if_splits)
  have colon: "?rest = [] \<or> hd ?rest = CHR '':''"
    using assms parsed small
    by (cases s) (auto simp: parse_access_component_def split: if_splits list.splits)
  have "Some (v, r) = Some (of_nat (decimal 0 ?ds), tl ?rest)"
    using parse_access_component_digits [OF nonempty digits colon] assms small by simp
  then have v: "v = of_nat (decimal 0 ?ds)" and r: "r = tl ?rest" by simp_all
  have "unat v = decimal 0 ?ds" unfolding v using small by (intro unat_of_nat_small) simp
  moreover have "s = ?ds \<and> r = [] \<or> s = ?ds @ CHR '':'' # r"
    using s r colon by (cases ?rest) auto
  ultimately show ?thesis using nonempty digits by (intro that) auto
qed

lemma show_nat_decimal: "decimal 0 (show_nat n) = n"
proof (induction n rule: show_nat.induct)
  case (1 n)
  have d: "digit_of (digit_char (n mod 10)) = n mod 10"
    by (simp add: digit_of_def of_char_digit_char)
  show ?case
  proof (cases "n < 10")
    case True
    then show ?thesis using d by (subst show_nat.simps) simp
  next
    case False
    then show ?thesis using 1 d by (subst show_nat.simps) simp
  qed
qed

lemma show_nat_is_digit: "c \<in> set (show_nat n) \<Longrightarrow> is_digit c"
  by (auto dest!: show_nat_digits simp: is_digit_def of_char_digit_char)

text \<open>The access string of a list of indices, and all components of a string.\<close>

fun access_string :: "u32 list \<Rightarrow> string" where
  "access_string [] = []"
| "access_string [i] = show_u i"
| "access_string (i # is) = show_u i @ '':'' @ access_string is"

function access_components :: "string \<Rightarrow> u32 list option" where
  "access_components s =
     (if s = [] then Some []
      else case parse_access_component s of
             None \<Rightarrow> None
           | Some (i, rest) \<Rightarrow> map_option ((#) i) (access_components rest))"
  by pat_completeness auto
termination
  by (relation "measure length") (auto dest: parse_access_component_shorter)

declare access_components.simps [simp del]

lemma access_components_string: "access_components (access_string is) = Some is"
proof (induction "is" rule: access_string.induct)
  case 1
  then show ?case by (simp add: access_components.simps)
next
  case (2 i)
  have "parse_access_component (show_u i) = Some (i, [])"
    using parse_access_component_digits [of "show_u i" "[]"] unat_u32_less [of i]
    by (simp add: show_u_def show_nat_decimal show_nat_is_digit)
  then show ?case by (subst access_components.simps) (simp add: show_u_def access_components.simps)
next
  case (3 i j "is")
  have "parse_access_component (show_u i @ '':'' @ access_string (j # is))
      = Some (i, access_string (j # is))"
    using parse_access_component_digits [of "show_u i" "'':'' @ access_string (j # is)"] unat_u32_less [of i]
    by (simp add: show_u_def show_nat_decimal show_nat_is_digit)
  then show ?case
    using 3 by (subst access_components.simps) (simp add: show_u_def)
qed


subsection \<open>Member paths\<close>

definition valid_record :: "btf \<Rightarrow> u32 \<Rightarrow> btf_type \<Rightarrow> bool" where
  "valid_record b i t \<longleftrightarrow> 0 < i \<and> i < type_cnt b \<and> type_by_id b i = Some t \<and> is_record_kind (kind t)"

text \<open>The record that an unnamed member leads to.\<close>

definition anonymous_record :: "btf \<Rightarrow> btf_member \<Rightarrow> (u32 \<times> btf_type) option" where
  "anonymous_record b m =
     (if has_name (name_by_offset b (m_name_off m)) then None
      else case peel_access_type b (m_type m) of
             (Some t, i) \<Rightarrow> if is_record_kind (kind t) then Some (i, t) else None
           | (None, _) \<Rightarrow> None)"

text \<open>
  \<open>member_path b name n fb i t p ty\<close>: from the record \<open>t\<close> with id \<open>i\<close>, the members \<open>p\<close>
  lead through at most \<open>n\<close> records to a member with the name (or, without a name, with the
  index \<open>fb\<close>) of type \<open>ty\<close>.
\<close>

inductive member_path ::
    "btf \<Rightarrow> string option \<Rightarrow> nat \<Rightarrow> u32 \<Rightarrow> u32 \<Rightarrow> btf_type \<Rightarrow> (u32 \<times> nat) list \<Rightarrow> u32 \<Rightarrow> bool"
  for b :: btf and name :: "string option" where
  path_here: "find_base_member b t name fb = Some k
      \<Longrightarrow> member_path b name (Suc n) fb i t [(i, k)] (m_type (member t k))"
| path_nested: "find_base_member b t name fb = None \<Longrightarrow> has_name name \<Longrightarrow> k < nvlen t
      \<Longrightarrow> anonymous_record b (member t k) = Some (j, t')
      \<Longrightarrow> member_path b name n 0xFFFFFFFF j t' p ty
      \<Longrightarrow> member_path b name (Suc n) fb i t ((i, k) # p) ty"

inductive_cases member_path_SucE: "member_path b name (Suc n) fb i t p ty"

lemma find_base_member_Some:
  assumes "find_base_member b t name fb = Some k"
  shows "k < nvlen t" "has_name name \<Longrightarrow> name_by_offset b (m_name_off (member t k)) = name"
    "\<not> has_name name \<Longrightarrow> k = unat fb"
  using assms by (auto simp: find_base_member_def find_Some_iff split: if_splits)

lemma find_base_member_None:
  assumes "find_base_member b t name fb = None" and "has_name name" and "k < nvlen t"
  shows "name_by_offset b (m_name_off (member t k)) \<noteq> name"
  using assms by (auto simp: find_base_member_def find_None_iff)

lemma peel_loop_record:
  "peel_loop n b i = (Some t, j) \<Longrightarrow> 0 < j \<and> j < type_cnt b \<and> type_by_id b j = Some t \<and> peel_step t = None"
  by (induction n b i rule: peel_loop.induct)
    (auto split: if_splits option.splits simp: word_gt_0 not_le)

lemma anonymous_record_valid: "anonymous_record b m = Some (j, t) \<Longrightarrow> valid_record b j t"
  using peel_loop_record [of 64 b "m_type m" t j]
  by (cases "peel_access_type b (m_type m)")
    (auto simp: anonymous_record_def valid_record_def peel_access_type_def split: if_splits option.splits)

text \<open>What the members of a path add to the state.\<close>

definition path_members :: "(u32 \<times> nat) list \<Rightarrow> (nat \<times> nat) set" where
  "path_members p = (\<lambda>(i, k). (unat i, k)) ` set p"

lemma path_members_simps [simp]:
  "path_members [] = {}" "path_members ((i, k) # p) = insert (unat i, k) (path_members p)"
  "path_members (p @ q) = path_members p \<union> path_members q"
  by (auto simp: path_members_def)

definition adds_members :: "seed_state \<Rightarrow> (nat \<times> nat) set \<Rightarrow> seed_state \<Rightarrow> bool" where
  "adds_members st P st' \<longleftrightarrow>
     ts_elems (ss_seeds st') = ts_elems (ss_seeds st) \<union> fst ` P
     \<and> ss_stats st' = ss_stats st
     \<and> (case ss_requirements st of
          None \<Rightarrow> ss_requirements st' = None
        | Some r \<Rightarrow> (\<exists>r'. ss_requirements st' = Some r'
            \<and> req_roots r' = req_roots r \<and> req_members r' = req_members r \<union> P))"

lemma adds_members_refl [simp]: "adds_members st {} st"
  by (auto simp: adds_members_def split: option.split)

lemma adds_members_trans:
  "adds_members st P st1 \<Longrightarrow> adds_members st1 Q st2 \<Longrightarrow> adds_members st (P \<union> Q) st2"
  by (auto simp: adds_members_def image_Un split: option.splits)

lemma unat_vlen_small: "k < nvlen t \<Longrightarrow> unat (of_nat k :: size_t) = k"
  using unat_u16_less [of "vlen t"] by (intro unat_of_nat_small) simp

lemma mark_member_Inr:
  assumes inv: "seed_invar b st" and rec: "valid_record b i t" and k: "k < nvlen t"
    and mark: "mark_member b og err i k st = Inr st'"
  shows "seed_invar b st'" "adds_members st {(unat i, k)} st'"
proof -
  obtain rq h where req: "mch_requirements_add_record_member b (ss_requirements st) (ucast i) (of_nat k) og err
      (ss_heap st) = Inr (rq, h)"
    and st': "st' = st\<lparr>ss_requirements := rq, ss_heap := h,
      ss_seeds := snd (mch_type_set_add (ss_seeds st) (ucast i))\<rparr>"
    using mark by (auto simp: mark_member_def bind_result_Inr)
  have ts: "ts_invar (ss_seeds st)" "ts_count (ss_seeds st) = ucast (type_cnt b)" "0 \<notin> ts_elems (ss_seeds st)"
    using inv by (auto simp: seed_invar_def)
  have "unat (ucast i :: size_t) < unat (ts_count (ss_seeds st))"
    using ts(2) rec by (simp add: valid_record_def word_nat word_less_nat_alt)
  then have elems: "ts_elems (ss_seeds st') = insert (unat i) (ts_elems (ss_seeds st))"
    using ts.add_elems [OF ts(1), of "ucast i"] by (simp add: st' word_nat)
  have pos: "unat i \<noteq> 0" using rec by (simp add: valid_record_def word_less_nat_alt)
  have seeds: "ts_invar (ss_seeds st')" "ts_count (ss_seeds st') = ucast (type_cnt b)"
    "0 \<notin> ts_elems (ss_seeds st')"
    using ts.add_invar [OF ts(1)] ts(2,3) elems pos by (simp_all add: st')
  show "seed_invar b st'" "adds_members st {(unat i, k)} st'"
  proof (atomize (full), cases "ss_requirements st")
    case None
    then have "rq = None" using req by (simp add: mch_requirements_add_record_member_def)
    then show "seed_invar b st' \<and> adds_members st {(unat i, k)} st'"
      using None seeds elems by (simp add: seed_invar_def adds_members_def st')
  next
    case (Some r)
    then have rinv: "req_invar b r" using inv by (simp add: seed_invar_def)
    from add_record_member_spec [OF rinv req [unfolded Some]] obtain r' where
      r': "rq = Some r'" "req_invar b r'" "req_roots r' = req_roots r"
        "req_members r' = insert (unat i, k) (req_members r)" "type_count r' = type_count r"
      using unat_vlen_small [OF k] by (auto simp: word_nat)
    then show "seed_invar b st' \<and> adds_members st {(unat i, k)} st'"
      using Some seeds inv elems by (auto simp: seed_invar_def adds_members_def st')
  qed
qed


lemma scan_anonymous_step:
  "scan_anonymous b og err name n i t (k # ks) st =
     (case anonymous_record b (member t k) of
        None \<Rightarrow> scan_anonymous b og err name n i t ks st
      | Some (j, t') \<Rightarrow>
          (case mark_path b og err name n 0xFFFFFFFF j t' st of
             Inl e \<Rightarrow> Inl e
           | Inr (None, st') \<Rightarrow> scan_anonymous b og err name n i t ks st'
           | Inr (Some ty, st') \<Rightarrow> bind_result (mark_member b og err i k st') (\<lambda>st''. Inr (Some ty, st''))))"
  by (simp add: anonymous_record_def split: prod.split option.split)

declare scan_anonymous.simps(2) [simp del]

definition path_result ::
    "btf \<Rightarrow> seed_state \<Rightarrow> ((u32 \<times> nat) list \<Rightarrow> u32 \<Rightarrow> bool) \<Rightarrow> (u32 option \<times> seed_state) result \<Rightarrow> bool" where
  "path_result b st path r \<longleftrightarrow>
     (case r of
        Inl e \<Rightarrow> True
      | Inr (None, st') \<Rightarrow> st' = st \<and> (\<forall>p ty. \<not> path p ty)
      | Inr (Some ty, st') \<Rightarrow> seed_invar b st' \<and> (\<exists>p. path p ty \<and> adds_members st (path_members p) st'))"

definition nested_path ::
    "btf \<Rightarrow> string option \<Rightarrow> nat \<Rightarrow> u32 \<Rightarrow> btf_type \<Rightarrow> nat list \<Rightarrow> (u32 \<times> nat) list \<Rightarrow> u32 \<Rightarrow> bool" where
  "nested_path b name n i t ks p ty \<longleftrightarrow>
     (\<exists>k \<in> set ks. \<exists>j t' q. p = (i, k) # q \<and> anonymous_record b (member t k) = Some (j, t')
        \<and> member_path b name n 0xFFFFFFFF j t' q ty)"

lemma path_result_mono:
  "path_result b st P r \<Longrightarrow> (\<And>p ty. P p ty \<longleftrightarrow> Q p ty) \<Longrightarrow> path_result b st Q r"
  by (simp add: path_result_def split: sum.splits prod.splits option.splits)

lemma scan_anonymous_spec:
  assumes level: "\<And>j t' st. valid_record b j t' \<Longrightarrow> seed_invar b st \<Longrightarrow>
      path_result b st (member_path b name n 0xFFFFFFFF j t') (mark_path b og err name n 0xFFFFFFFF j t' st)"
    and rec: "valid_record b i t" and inv: "seed_invar b st" and ks: "\<forall>k \<in> set ks. k < nvlen t"
  shows "path_result b st (nested_path b name n i t ks) (scan_anonymous b og err name n i t ks st)"
  using ks
proof (induction ks)
  case Nil
  then show ?case by (simp add: path_result_def nested_path_def)
next
  case (Cons k ks)
  then have tail: "path_result b st (nested_path b name n i t ks) (scan_anonymous b og err name n i t ks st)"
    by simp
  show ?case
  proof (cases "anonymous_record b (member t k)")
    case None
    have "nested_path b name n i t (k # ks) p ty \<longleftrightarrow> nested_path b name n i t ks p ty" for p ty
      using None by (auto simp: nested_path_def)
    then show ?thesis
      using path_result_mono [OF tail] by (simp add: scan_anonymous_step None)
  next
    case (Some jt)
    then obtain j t' where jt: "anonymous_record b (member t k) = Some (j, t')" by (cases jt) auto
    note inner = level [OF anonymous_record_valid [OF jt] inv]
    show ?thesis
    proof (cases "mark_path b og err name n 0xFFFFFFFF j t' st")
      case (Inl e)
      then show ?thesis by (simp add: scan_anonymous_step jt path_result_def)
    next
      case (Inr res)
      obtain ty st' where res: "res = (ty, st')" by fastforce
      show ?thesis
      proof (cases ty)
        case None
        then have st': "st' = st" and no: "\<And>p ty. \<not> member_path b name n 0xFFFFFFFF j t' p ty"
          using inner Inr res by (simp_all add: path_result_def)
        have "nested_path b name n i t (k # ks) p ty \<longleftrightarrow> nested_path b name n i t ks p ty" for p ty
          using no jt by (auto simp: nested_path_def)
        then have "path_result b st (nested_path b name n i t (k # ks))
            (scan_anonymous b og err name n i t ks st)"
          using path_result_mono [OF tail] by simp
        then show ?thesis
          using Inr res None st' by (simp add: scan_anonymous_step jt)
      next
        case (Some ty')
        then obtain p where inv': "seed_invar b st'" and p: "member_path b name n 0xFFFFFFFF j t' p ty'"
          and adds: "adds_members st (path_members p) st'"
          using inner Inr res by (auto simp: path_result_def)
        have k: "k < nvlen t" using Cons.prems by simp
        show ?thesis
        proof (cases "mark_member b og err i k st'")
          case (Inl e)
          then show ?thesis
            using Inr res Some by (simp add: scan_anonymous_step jt path_result_def)
        next
          case mark: (Inr st'')
          note marked = mark_member_Inr [OF inv' rec k mark]
          have "adds_members st (path_members ((i, k) # p)) st''"
            using adds_members_trans [OF adds marked(2)] by simp
          moreover have "nested_path b name n i t (k # ks) ((i, k) # p) ty'"
            using p jt by (auto simp: nested_path_def)
          ultimately show ?thesis
            using Inr res Some mark marked(1)
            by (auto simp: scan_anonymous_step jt path_result_def)
        qed
      qed
    qed
  qed
qed

lemma member_path_not_here:
  assumes "find_base_member b t name fb = None"
  shows "member_path b name (Suc n) fb i t p ty \<longleftrightarrow> has_name name \<and> nested_path b name n i t [0..<nvlen t] p ty"
  using assms by (auto simp: nested_path_def elim!: member_path_SucE intro: path_nested)

lemma mark_path_spec:
  assumes "valid_record b i t" and "seed_invar b st"
  shows "path_result b st (member_path b name n fb i t) (mark_path b og err name n fb i t st)"
  using assms
proof (induction n arbitrary: fb i t st)
  case 0
  then show ?case by (simp add: path_result_def)
next
  case (Suc n)
  show ?case
  proof (cases "find_base_member b t name fb")
    case (Some k)
    have k: "k < nvlen t" using find_base_member_Some(1) [OF Some] .
    show ?thesis
    proof (cases "mark_member b og err i k st")
      case (Inl e)
      then show ?thesis by (simp add: Some path_result_def)
    next
      case (Inr st')
      note marked = mark_member_Inr [OF Suc.prems(2,1) k Inr]
      have "member_path b name (Suc n) fb i t [(i, k)] (m_type (member t k))"
        using Some by (rule path_here)
      moreover have "adds_members st (path_members [(i, k)]) st'" using marked(2) by simp
      ultimately show ?thesis
        using Inr marked(1) Some by (auto simp add: path_result_def)
    qed
  next
    case None
    show ?thesis
    proof (cases "has_name name")
      case False
      then show ?thesis using None by (simp add: path_result_def member_path_not_here)
    next
      case True
      have "path_result b st (nested_path b name n i t [0..<nvlen t])
          (scan_anonymous b og err name n i t [0..<nvlen t] st)"
        using scan_anonymous_spec [OF Suc.IH Suc.prems] by simp
      then show ?thesis using None True by (simp add: path_result_def member_path_not_here)
    qed
  qed
qed


lemma mark_base_member_path_Inr:
  assumes "valid_record b i t" and "seed_invar b st"
    and "mark_base_member_path b i t name fb og err st = Inr (Some ty, st')"
  obtains p where "seed_invar b st'" "member_path b name 17 fb i t p ty" "adds_members st (path_members p) st'"
  using mark_path_spec [OF assms(1,2), of name 17 fb og err] assms(3)
  by (auto simp: mark_base_member_path_def path_result_def)

text \<open>With memory, the search fails for no other reason than the depth of the nesting.\<close>

definition memory_ok :: "seed_state \<Rightarrow> bool" where
  "memory_ok st \<longleftrightarrow> ss_requirements st = None \<or> ss_heap st = plenty"

lemma mark_member_ok:
  assumes "seed_invar b st" and "valid_record b i t" and "k < nvlen t" and "memory_ok st"
  shows "\<exists>st'. mark_member b og err i k st = Inr st' \<and> memory_ok st'"
proof (cases "ss_requirements st")
  case None
  then show ?thesis
    by (simp add: mark_member_def mch_requirements_add_record_member_def memory_ok_def)
next
  case (Some r)
  then have inv: "req_invar b r" "type_count r = ucast (type_cnt b)"
    and h: "ss_heap st = plenty" using assms(1,4) by (auto simp: seed_invar_def memory_ok_def)
  moreover have "(ucast i :: size_t) < type_count r"
    using assms(2) inv(2) by (simp add: valid_record_def word_less_nat_alt word_nat)
  moreover have "(ucast (ucast i :: size_t) :: u32) = i"
    using unat_u32_less [of i] by (simp add: word_unat_eq_iff unat_ucast_u64_u32 word_nat)
  ultimately obtain r' where "mch_requirements_add_record_member b (Some r) (ucast i) (of_nat k) og err plenty
      = Inr (Some r', plenty)"
    using add_record_member_plenty [OF inv(1), of "ucast i" t "of_nat k" og err] assms(2)
      unat_vlen_small [OF assms(3)] assms(3)
    by (auto simp: valid_record_def)
  then show ?thesis using Some h by (simp add: mark_member_def memory_ok_def)
qed

definition fails_deep :: "(u32 option \<times> seed_state) result \<Rightarrow> bool" where
  "fails_deep r \<longleftrightarrow> (case r of
       Inl e \<Rightarrow> message e = ''CO-RE member search through anonymous records is too deep''
     | Inr (_, st') \<Rightarrow> memory_ok st')"

lemma scan_anonymous_fails:
  assumes level: "\<And>j t' st. valid_record b j t' \<Longrightarrow> seed_invar b st \<Longrightarrow> memory_ok st
      \<Longrightarrow> fails_deep (mark_path b og err name n 0xFFFFFFFF j t' st)"
    and rec: "valid_record b i t" and inv: "seed_invar b st" and mem: "memory_ok st"
    and ks: "\<forall>k \<in> set ks. k < nvlen t"
  shows "fails_deep (scan_anonymous b og err name n i t ks st)"
  using ks
proof (induction ks)
  case Nil
  then show ?case using mem by (simp add: fails_deep_def)
next
  case (Cons k ks)
  then have tail: "fails_deep (scan_anonymous b og err name n i t ks st)" by simp
  show ?case
  proof (cases "anonymous_record b (member t k)")
    case None
    then show ?thesis using tail by (simp add: scan_anonymous_step)
  next
    case (Some jt)
    then obtain j t' where jt: "anonymous_record b (member t k) = Some (j, t')" by (cases jt) auto
    let ?r = "mark_path b og err name n 0xFFFFFFFF j t' st"
    note valid = anonymous_record_valid [OF jt]
  note inner = level [OF valid inv mem]
    note found = mark_path_spec [OF valid inv, of name n "0xFFFFFFFF" og err]
    consider e where "?r = Inl e" | st' where "?r = Inr (None, st')" | ty st' where "?r = Inr (Some ty, st')"
      by (cases ?r) (auto, metis option.exhaust)
    then show ?thesis
    proof cases
      case 1
      then show ?thesis using inner by (simp add: scan_anonymous_step jt fails_deep_def)
    next
      case 2
      then have "st' = st" using found by (simp add: path_result_def)
      then show ?thesis using 2 tail by (simp add: scan_anonymous_step jt)
    next
      case 3
      then have "seed_invar b st'" "memory_ok st'"
        using inner found by (auto simp: fails_deep_def path_result_def)
      then show ?thesis
        using mark_member_ok [OF _ rec, of st' k og err] Cons.prems 3
        by (auto simp: scan_anonymous_step jt fails_deep_def)
    qed
  qed
qed

lemma mark_path_fails:
  assumes "valid_record b i t" and "seed_invar b st" and "memory_ok st"
  shows "fails_deep (mark_path b og err name n fb i t st)"
  using assms
proof (induction n arbitrary: fb i t st)
  case 0
  then show ?case by (simp add: fails_deep_def mch_error_set_def)
next
  case (Suc n)
  show ?case
  proof (cases "find_base_member b t name fb")
    case (Some k)
    then show ?thesis
      using mark_member_ok [OF Suc.prems(2,1) find_base_member_Some(1) [OF Some] Suc.prems(3), of og err]
      by (auto simp: fails_deep_def)
  next
    case None
    have "fails_deep (scan_anonymous b og err name n i t [0..<nvlen t] st)"
      by (rule scan_anonymous_fails [OF Suc.IH Suc.prems]) auto
    then show ?thesis using None Suc.prems(3) by (simp add: fails_deep_def)
  qed
qed

subsection \<open>Following an access\<close>

text \<open>
  The indices name members of the object's records; the base BTF follows by the members' names.
  \<open>P\<close> are the base members that the access reads.
\<close>

inductive access_follows :: "btf \<Rightarrow> btf \<Rightarrow> u32 list \<Rightarrow> u32 \<Rightarrow> u32 \<Rightarrow> (u32 \<times> nat) list \<Rightarrow> bool"
  for b :: btf and ob :: btf where
  access_end: "access_follows b ob [] oi bi []"
| access_step: "peel_access_type ob oi = (Some ot, oi') \<Longrightarrow> is_record_kind (kind ot)
      \<Longrightarrow> peel_access_type b bi = (Some bt, bi') \<Longrightarrow> valid_record b bi' bt
      \<Longrightarrow> unat i < nvlen ot
      \<Longrightarrow> member_path b (name_by_offset ob (m_name_off (member ot (unat i)))) 17 i bi' bt p ty
      \<Longrightarrow> access_follows b ob is (m_type (member ot (unat i))) ty q
      \<Longrightarrow> access_follows b ob (i # is) oi bi (p @ q)"

lemma peel_access_record:
  "peel_access_type b i = (Some t, j) \<Longrightarrow> is_record_kind (kind t) \<Longrightarrow> valid_record b j t"
  using peel_loop_record [of 64 b i t j] by (auto simp: peel_access_type_def valid_record_def)

lemma access_loop_Inr:
  assumes "index_for b idx" and "seed_invar b st"
    and "access_loop idx ob path og access err cursor oi bi st = Inr st'"
  shows "seed_invar b st' \<and> (\<exists>is P. access_components cursor = Some is
    \<and> access_follows b ob is oi bi P \<and> adds_members st (path_members P) st')"
  using assms(2,3)
proof (induction "length cursor" arbitrary: cursor oi bi st rule: less_induct)
  case less
  show ?case
  proof (cases "cursor = []")
    case True
    then have "st' = st" using less.prems(2) by (simp add: access_loop.simps)
    then show ?thesis
      using True less.prems(1) access_end [of b ob oi bi]
      by (auto simp: access_components.simps intro!: exI [of _ "[]"])
  next
    case False
    have b: "the (index_btf idx) = b" using assms(1) by (simp add: index_for_def)
    obtain i cursor' where parse: "parse_access_component cursor = Some (i, cursor')"
      using less.prems(2) False by (subst (asm) access_loop.simps) (auto split: option.splits)
    obtain ot' oi' where op: "peel_access_type ob oi = (ot', oi')" by fastforce
    obtain bt' bi' where bp: "peel_access_type b bi = (bt', bi')" by fastforce
    note code = less.prems(2) [unfolded access_loop.simps [of idx ob path og access err cursor oi bi st]]
    have ok: "\<not> (ot' = None \<or> bt' = None \<or> \<not> is_record_kind (kind (the ot')) \<or> \<not> is_record_kind (kind (the bt')))"
      using code False parse op bp by (auto simp: Let_def b split: if_splits)
    then obtain ot bt where ot: "ot' = Some ot" "is_record_kind (kind ot)"
      and bt: "bt' = Some bt" "is_record_kind (kind bt)" by auto
    have i: "\<not> unat i \<ge> nvlen ot"
      using code False parse op bp ot bt by (auto simp: Let_def b split: if_splits)
    let ?m = "member ot (unat i)"
    let ?name = "name_by_offset ob (m_name_off ?m)"
    have valid: "valid_record b bi' bt" using peel_access_record bp bt by simp
    obtain ty st1 where mark: "mark_base_member_path b bi' bt ?name i og err st = Inr (Some ty, st1)"
      and rest: "access_loop idx ob path og access err cursor' (m_type ?m) ty st1 = Inr st'"
      using code False parse op bp ot bt i
      by (auto simp: Let_def b split: sum.splits option.splits prod.splits)
    obtain p where inv1: "seed_invar b st1" and p: "member_path b ?name 17 i bi' bt p ty"
      and adds: "adds_members st (path_members p) st1"
      using mark_base_member_path_Inr [OF valid less.prems(1) mark] .
    have "seed_invar b st' \<and> (\<exists>is P. access_components cursor' = Some is
        \<and> access_follows b ob is (m_type ?m) ty P \<and> adds_members st1 (path_members P) st')"
      using less.hyps [OF parse_access_component_shorter [OF parse] inv1 rest] .
    then obtain "is" P where inv': "seed_invar b st'" and comps: "access_components cursor' = Some is"
      and follows: "access_follows b ob is (m_type ?m) ty P" and adds': "adds_members st1 (path_members P) st'"
      by blast
    have "access_components cursor = Some (i # is)"
      using False parse comps by (subst access_components.simps) simp
    moreover have "access_follows b ob (i # is) oi bi (p @ P)"
      using op bp ot bt valid i p follows by (intro access_step) auto
    moreover have "adds_members st (path_members (p @ P)) st'"
      using adds_members_trans [OF adds adds'] by simp
    ultimately show ?thesis using inv' by blast
  qed
qed


lemma record_core_relo_requirements_Inr:
  assumes "index_for b idx" and "seed_invar b st"
    and "record_core_relo_requirements idx ob path relo bi (Some og) err st = Inr st'"
  shows "seed_invar b st'
    \<and> (if ss_requirements st \<noteq> None \<and> is_field_relo_kind (relo_kind relo) \<and> has_name (o_access og)
       then (\<exists>root is P. access_components (the (o_access og)) = Some (root # is)
         \<and> access_follows b ob is (relo_type_id relo) bi P \<and> adds_members st (path_members P) st')
       else st' = st)"
proof (cases "ss_requirements st = None \<or> \<not> is_field_relo_kind (relo_kind relo) \<or> \<not> has_name (o_access og)")
  case True
  then have "st' = st" using assms(3) by (auto simp: record_core_relo_requirements_def Let_def)
  with True assms(2) show ?thesis by auto
next
  case False
  let ?access = "the (o_access og)"
  obtain root cursor where parse: "parse_access_component ?access = Some (root, cursor)"
    and loop: "access_loop idx ob path (Some og) ?access err cursor (relo_type_id relo) bi st = Inr st'"
    using assms(3) False by (auto simp: record_core_relo_requirements_def Let_def split: option.splits)
  from access_loop_Inr [OF assms(1,2) loop] obtain "is" P where rest: "seed_invar b st'"
    "access_components cursor = Some is" "access_follows b ob is (relo_type_id relo) bi P"
    "adds_members st (path_members P) st'" by blast
  have "?access \<noteq> []" using False by (auto simp: has_name_def)
  then have "access_components ?access = Some (root # is)"
    using parse rest(2) by (subst access_components.simps) simp
  with False rest show ?thesis by auto
qed

end
