(* ===== verification/Ext_Info.thy ===== *)
theory Ext_Info
  imports Access
begin

text \<open>
  The third part of \<^verbatim>\<open>src/seeds.c\<close>: the sections of \<^verbatim>\<open>.BTF.ext\<close> with the line and
  function records that give a relocation its location. A pointer into the section is an
  offset into its bytes. A copy out of the section has no result (\<open>None\<close>) when it would leave the
  bytes, so that a result says that every access was in bounds. The host is little-endian.
\<close>

subsection \<open>Bytes\<close>

definition host_is_little_endian :: bool where
  "host_is_little_endian = True"

definition u32_at :: "u8 list \<Rightarrow> nat \<Rightarrow> u32" where
  "u32_at raw p = of_nat (unat (raw ! p) + 256 * unat (raw ! (p + 1))
     + 65536 * unat (raw ! (p + 2)) + 16777216 * unat (raw ! (p + 3)))"

text \<open>\<^verbatim>\<open>memcpy\<close> of \<open>n\<close> bytes at \<open>p\<close>, decoded by \<open>f\<close>.\<close>

definition copy_at :: "u8 list \<Rightarrow> nat \<Rightarrow> nat \<Rightarrow> 'a \<Rightarrow> 'a option" where
  "copy_at raw p n x = (if p + n \<le> length raw then Some x else None)"

definition read_u32 :: "u8 list \<Rightarrow> nat \<Rightarrow> u32 option" where
  "read_u32 raw p = copy_at raw p 4 (u32_at raw p)"

record mch_btf_ext_info_sec =
  sec_name_off :: u32
  sec_num_info :: u32

definition read_sec :: "u8 list \<Rightarrow> nat \<Rightarrow> mch_btf_ext_info_sec option" where
  "read_sec raw p = copy_at raw p 8 \<lparr>sec_name_off = u32_at raw p, sec_num_info = u32_at raw (p + 4)\<rparr>"

text \<open>The line and function records of \<^verbatim>\<open>linux/bpf.h\<close>.\<close>

record bpf_line_info =
  li_insn_off :: u32
  li_file_name_off :: u32
  li_line_off :: u32
  li_line_col :: u32

record bpf_func_info =
  fi_insn_off :: u32
  fi_type_id :: u32

definition read_line_info :: "u8 list \<Rightarrow> nat \<Rightarrow> bpf_line_info option" where
  "read_line_info raw p = copy_at raw p 16 \<lparr>li_insn_off = u32_at raw p,
     li_file_name_off = u32_at raw (p + 4), li_line_off = u32_at raw (p + 8), li_line_col = u32_at raw (p + 12)\<rparr>"

definition read_func_info :: "u8 list \<Rightarrow> nat \<Rightarrow> bpf_func_info option" where
  "read_func_info raw p = copy_at raw p 8 \<lparr>fi_insn_off = u32_at raw p, fi_type_id = u32_at raw (p + 4)\<rparr>"

definition relo_kinds :: "bpf_core_relo_kind list" where
  "relo_kinds = [BPF_CORE_FIELD_BYTE_OFFSET, BPF_CORE_FIELD_BYTE_SIZE, BPF_CORE_FIELD_EXISTS,
     BPF_CORE_FIELD_SIGNED, BPF_CORE_FIELD_LSHIFT_U64, BPF_CORE_FIELD_RSHIFT_U64,
     BPF_CORE_TYPE_ID_LOCAL, BPF_CORE_TYPE_ID_TARGET, BPF_CORE_TYPE_EXISTS, BPF_CORE_TYPE_SIZE,
     BPF_CORE_ENUMVAL_EXISTS, BPF_CORE_ENUMVAL_VALUE, BPF_CORE_TYPE_MATCHES]"

definition relo_kind_of :: "u32 \<Rightarrow> bpf_core_relo_kind" where
  "relo_kind_of n = (if unat n < length relo_kinds then relo_kinds ! unat n else BPF_CORE_OTHER)"

definition read_core_relo :: "u8 list \<Rightarrow> nat \<Rightarrow> bpf_core_relo option" where
  "read_core_relo raw p = copy_at raw p 16 \<lparr>relo_insn_off = u32_at raw p,
     relo_type_id = u32_at raw (p + 4), relo_access_str_off = u32_at raw (p + 8),
     relo_kind = relo_kind_of (u32_at raw (p + 12))\<rparr>"

subsection \<open>Sections\<close>

record mch_ext_info =
  info_pos :: nat
  info_end :: nat
  rec_size :: u32
  present :: bool

definition no_ext_info :: mch_ext_info where
  "no_ext_info = \<lparr>info_pos = 0, info_end = 0, rec_size = 0, present = False\<rparr>"

text \<open>
  A fault of an optional section (\<open>required\<close> false) leaves the section absent; of a required
  one it is an error.
\<close>

definition init_ext_info ::
    "u8 list \<Rightarrow> u32 \<Rightarrow> u32 \<Rightarrow> u32 \<Rightarrow> u32 \<Rightarrow> nat \<Rightarrow> string \<Rightarrow> string option \<Rightarrow> bool \<Rightarrow> mch_error
      \<Rightarrow> mch_ext_info outcome" where
  "init_ext_info raw raw_size hdr_len off len min_rec_size label object_path required err =
     (let fault = (\<lambda>what. Some (if required
            then Inl (mch_error_set_file object_path
                   (mch_error_set (''object .BTF.ext '' @ label @ what) err))
            else Inr no_ext_info))
      in if len = 0 then Some (Inr no_ext_info)
         else if hdr_len > raw_size \<or> off > raw_size - hdr_len \<or> len > raw_size - hdr_len - off
         then fault '' section is out of bounds''
         else
           let data = unat hdr_len + unat off
           in if len < 4 then fault '' section is truncated''
              else (case read_u32 raw data of
                      None \<Rightarrow> None
                    | Some n \<Rightarrow>
                        if unat n < min_rec_size then fault '' record size is unsupported''
                        else Some (Inr \<lparr>info_pos = data + 4, info_end = data + unat len,
                                        rec_size = n, present = True\<rparr>)))"

text \<open>The number of records and the offset of the first; the inner \<open>None\<close> is NULL.\<close>

function find_section_loop ::
    "u8 list \<Rightarrow> mch_ext_info \<Rightarrow> u32 \<Rightarrow> nat \<Rightarrow> (u32 \<times> nat) option option" where
  "find_section_loop raw info section_off pos =
     (if pos < info_end info then
        if info_end info - pos < 8 then Some None
        else (case read_sec raw pos of
                None \<Rightarrow> None
              | Some sec \<Rightarrow>
                  let pos' = pos + 8; n = unat (sec_num_info sec); sz = unat (rec_size info)
                  in if rec_size info \<noteq> 0 \<and> n > (info_end info - pos') div sz then Some None
                     else if sec_name_off sec = section_off then Some (Some (sec_num_info sec, pos'))
                     else find_section_loop raw info section_off (pos' + n * sz))
      else Some None)"
  by pat_completeness auto
termination
  by (relation "measure (\<lambda>(raw, info, section_off, pos). info_end info - pos)") auto

declare find_section_loop.simps [simp del]

definition find_ext_info_section :: "u8 list \<Rightarrow> mch_ext_info \<Rightarrow> u32 \<Rightarrow> (u32 \<times> nat) option option" where
  "find_ext_info_section raw info section_off =
     (if \<not> present info then Some None else find_section_loop raw info section_off (info_pos info))"

text \<open>
  The loop of both searches: among the records at or before the instruction, the last of
  those with the greatest offset.
\<close>

fun best_record :: "(nat \<Rightarrow> 'r option) \<Rightarrow> ('r \<Rightarrow> u32) \<Rightarrow> u32 \<Rightarrow> nat list \<Rightarrow> 'r option \<Rightarrow> 'r option option" where
  "best_record rd insn insn_off [] best = Some best"
| "best_record rd insn insn_off (i # is) best =
     (case rd i of
        None \<Rightarrow> None
      | Some current \<Rightarrow>
          if insn current > insn_off then best_record rd insn insn_off is best
          else if best = None \<or> insn current \<ge> insn (the best)
          then best_record rd insn insn_off is (Some current)
          else best_record rd insn insn_off is best)"

record line_location =
  loc_found :: bool
  loc_file_name :: "string option"
  loc_line :: u32
  loc_column :: u32

definition no_location :: line_location where
  "no_location = \<lparr>loc_found = False, loc_file_name = None, loc_line = 0, loc_column = 0\<rparr>"

text \<open>
  The result of \<^verbatim>\<open>find_line_location\<close> and its output parameters; like the code, it sets the
  file name also when the name is empty and the result false.
\<close>

definition find_line_location :: "u8 list \<Rightarrow> btf \<Rightarrow> mch_ext_info \<Rightarrow> u32 \<Rightarrow> u32 \<Rightarrow> line_location option" where
  "find_line_location raw ob line_info section_off insn_off =
     Option.bind (find_ext_info_section raw line_info section_off) (\<lambda>sec. case sec of
       None \<Rightarrow> Some no_location
     | Some (num_info, records) \<Rightarrow>
         map_option (\<lambda>best. case best of
             None \<Rightarrow> no_location
           | Some li \<Rightarrow>
               let file_name = str_by_offset ob (li_file_name_off li)
               in if \<not> has_name file_name then no_location\<lparr>loc_file_name := file_name\<rparr>
                  else \<lparr>loc_found = True, loc_file_name = file_name,
                        loc_line = drop_bit 10 (li_line_col li), loc_column = li_line_col li AND 0x3FF\<rparr>)
           (best_record (\<lambda>i. read_line_info raw (records + i * unat (rec_size line_info)))
              li_insn_off insn_off [0..<unat num_info] None))"

definition find_function_name :: "u8 list \<Rightarrow> btf \<Rightarrow> mch_ext_info \<Rightarrow> u32 \<Rightarrow> u32 \<Rightarrow> string option option" where
  "find_function_name raw ob func_info section_off insn_off =
     Option.bind (find_ext_info_section raw func_info section_off) (\<lambda>sec. case sec of
       None \<Rightarrow> Some None
     | Some (num_info, records) \<Rightarrow>
         map_option (\<lambda>best. case best of
             None \<Rightarrow> None
           | Some fi \<Rightarrow>
               (case type_by_id ob (fi_type_id fi) of
                  None \<Rightarrow> None
                | Some t \<Rightarrow>
                    if kind t = BTF_KIND_FUNC
                    then let name = mch_btf_type_name ob t in if name \<noteq> [] then Some name else None
                    else None))
           (best_record (\<lambda>i. read_func_info raw (records + i * unat (rec_size func_info)))
              fi_insn_off insn_off [0..<unat num_info] None))"


subsection \<open>Locations of relocations\<close>

definition line_text :: "line_location \<Rightarrow> string" where
  "line_text loc =
     (if loc_column loc \<noteq> 0
      then the (loc_file_name loc) @ '':'' @ show_u (loc_line loc) @ '':'' @ show_u (loc_column loc)
      else the (loc_file_name loc) @ '':'' @ show_u (loc_line loc))"

definition or_label :: "string \<Rightarrow> string option \<Rightarrow> string" where
  "or_label label s = (if has_name s then the s else label)"

definition set_core_relo_context ::
    "u8 list \<Rightarrow> btf \<Rightarrow> mch_ext_info \<Rightarrow> mch_ext_info \<Rightarrow> u32 \<Rightarrow> bpf_core_relo \<Rightarrow> size_t \<Rightarrow> u32
      \<Rightarrow> mch_error \<Rightarrow> mch_error option" where
  "set_core_relo_context raw ob func_info line_info section_off relo relo_index section_relo_index err =
     (let section_name = or_label ''<unknown>'' (str_by_offset ob section_off);
          access = or_label ''<none>'' (str_by_offset ob (relo_access_str_off relo));
          facts = '', insn: '' @ show_u (relo_insn_off relo) @ '', CO-RE ''
            @ core_relo_kind_name (relo_kind relo) @ '', access: '' @ access @ '', type_id: ''
            @ show_u (relo_type_id relo) @ '', relo: #'' @ show_u relo_index @ '', section relo: #''
            @ show_u (section_relo_index + 1) @ '')''
      in Option.bind (find_function_name raw ob func_info section_off (relo_insn_off relo)) (\<lambda>func_name.
         map_option (\<lambda>loc.
             let location = c_snprintf 160
                   (if loc_found loc then line_text loc
                    else case func_name of Some f \<Rightarrow> ''function: '' @ f
                         | None \<Rightarrow> ''section: '' @ section_name);
                 e1 = mch_error_set_context
                   (if func_name \<noteq> None \<and> loc_file_name loc \<noteq> None
                    then location @ '' (function: '' @ the func_name @ '', section: '' @ section_name @ facts
                    else location @ '' (section: '' @ section_name @ facts) err
             in if hint e1 = []
                then mch_error_set_hint
                       (Some ''check the CO-RE relocation type id against the object BTF'') e1
                else e1)
           (find_line_location raw ob line_info section_off (relo_insn_off relo))))"

text \<open>What the buffer of 160 bytes holds afterwards.\<close>

definition format_core_relo_location ::
    "u8 list \<Rightarrow> btf \<Rightarrow> mch_ext_info \<Rightarrow> mch_ext_info \<Rightarrow> u32 \<Rightarrow> bpf_core_relo \<Rightarrow> string option" where
  "format_core_relo_location raw ob func_info line_info section_off relo =
     Option.bind (find_line_location raw ob line_info section_off (relo_insn_off relo)) (\<lambda>loc.
       if loc_found loc then Some (c_snprintf 160 (line_text loc))
       else map_option (\<lambda>func_name. case func_name of
           Some f \<Rightarrow> c_snprintf 160 (''function: '' @ f)
         | None \<Rightarrow> c_snprintf 160
             (''section: '' @ or_label ''<unknown>'' (str_by_offset ob section_off)))
         (find_function_name raw ob func_info section_off (relo_insn_off relo)))"

subsection \<open>Every copy stays in bounds\<close>

definition info_ok :: "u8 list \<Rightarrow> nat \<Rightarrow> mch_ext_info \<Rightarrow> bool" where
  "info_ok raw n info \<longleftrightarrow> (present info \<longrightarrow> info_end info \<le> length raw \<and> info_pos info \<le> info_end info
     \<and> 0 < n \<and> n \<le> unat (rec_size info))"

lemma init_ext_info_ok:
  assumes size: "unat raw_size = length raw" and n: "0 < n"
  shows "\<exists>r. init_ext_info raw raw_size hdr_len off len n label path required err = Some r
    \<and> (\<forall>info. r = Inr info \<longrightarrow> info_ok raw n info)
    \<and> (\<not> required \<longrightarrow> (\<exists>info. r = Inr info))
    \<and> (\<forall>info. required \<longrightarrow> len \<noteq> 0 \<longrightarrow> r = Inr info \<longrightarrow>
         info = \<lparr>info_pos = unat hdr_len + unat off + 4, info_end = unat hdr_len + unat off + unat len,
                 rec_size = u32_at raw (unat hdr_len + unat off), present = True\<rparr>)"
proof -
  consider "len = 0" | "len \<noteq> 0" "hdr_len > raw_size \<or> off > raw_size - hdr_len \<or> len > raw_size - hdr_len - off"
    | "len \<noteq> 0" "\<not> (hdr_len > raw_size \<or> off > raw_size - hdr_len \<or> len > raw_size - hdr_len - off)"
        "len < 4"
    | "\<not> (hdr_len > raw_size \<or> off > raw_size - hdr_len \<or> len > raw_size - hdr_len - off)" "\<not> len < 4"
    by blast
  then show ?thesis
  proof cases
    case 1
    then show ?thesis by (simp add: init_ext_info_def info_ok_def no_ext_info_def Let_def)
  next
    case 2
    then show ?thesis by (simp add: init_ext_info_def info_ok_def no_ext_info_def Let_def)
  next
    case 3
    then show ?thesis by (simp add: init_ext_info_def info_ok_def no_ext_info_def Let_def)
  next
    case 4
    let ?data = "unat hdr_len + unat off"
    have hdr: "hdr_len \<le> raw_size" and off: "off \<le> raw_size - hdr_len"
      and len: "len \<le> raw_size - hdr_len - off" using 4(1) by auto
    have sub: "unat (raw_size - hdr_len) = length raw - unat hdr_len"
      "unat (raw_size - hdr_len - off) = length raw - unat hdr_len - unat off"
      using hdr off size by (simp_all add: unat_sub)
    have "unat hdr_len \<le> length raw" using hdr size by (simp add: word_le_nat_alt)
    moreover have "unat off \<le> length raw - unat hdr_len" using off sub by (simp add: word_le_nat_alt)
    moreover have "unat len \<le> length raw - unat hdr_len - unat off" using len sub by (simp add: word_le_nat_alt)
    ultimately have bound: "?data + unat len \<le> length raw" by simp
    have four: "4 \<le> unat len" "len \<noteq> 0" using 4(2) by (auto simp: word_less_nat_alt)
    have read: "read_u32 raw ?data = Some (u32_at raw ?data)"
      using bound four(1) by (simp add: read_u32_def copy_at_def)
    have code: "init_ext_info raw raw_size hdr_len off len n label path required err
        = (if unat (u32_at raw ?data) < n then Some (if required
            then Inl (mch_error_set_file path
                   (mch_error_set (''object .BTF.ext '' @ label @ '' record size is unsupported'') err))
            else Inr no_ext_info)
           else Some (Inr \<lparr>info_pos = ?data + 4, info_end = ?data + unat len,
                           rec_size = u32_at raw ?data, present = True\<rparr>))"
      using 4 four(2) read by (simp only: init_ext_info_def Let_def if_False option.case)
    show ?thesis
      unfolding code using n bound four(1) by (simp add: info_ok_def no_ext_info_def)
  qed
qed

lemma find_section_loop_ok:
  assumes "info_end info \<le> length raw" and "0 < unat (rec_size info)"
  shows "\<exists>r. find_section_loop raw info so pos = Some r
    \<and> (\<forall>n p. r = Some (n, p) \<longrightarrow> p + unat n * unat (rec_size info) \<le> length raw)"
  using assms
proof (induction raw info so pos rule: find_section_loop.induct)
  case (1 raw info so pos)
  let ?e = "info_end info" and ?sz = "unat (rec_size info)"
  show ?case
  proof (cases "pos < ?e \<and> \<not> ?e - pos < 8")
    case False
    then show ?thesis by (subst find_section_loop.simps) auto
  next
    case True
    let ?sec = "\<lparr>sec_name_off = u32_at raw pos, sec_num_info = u32_at raw (pos + 4)\<rparr>"
    from True have "pos + 8 \<le> ?e" by linarith
    then have inside: "pos + 8 \<le> length raw" using 1(2) by linarith
    have read: "read_sec raw pos = Some ?sec"
      using inside by (simp add: read_sec_def copy_at_def)
    have sz: "rec_size info \<noteq> 0" using 1(3) by auto
    show ?thesis
    proof (cases "unat (sec_num_info ?sec) > (?e - (pos + 8)) div ?sz")
      case big: True
      then show ?thesis using True read sz by (subst find_section_loop.simps) (simp add: Let_def)
    next
      case False
      then have "unat (sec_num_info ?sec) * ?sz \<le> ?e - (pos + 8)"
        by (metis div_times_less_eq_dividend le_trans mult_le_mono1 not_less)
      then have fits: "pos + 8 + unat (sec_num_info ?sec) * ?sz \<le> length raw"
        using inside 1(2) by linarith
      have code: "find_section_loop raw info so pos
          = (if sec_name_off ?sec = so then Some (Some (sec_num_info ?sec, pos + 8))
             else find_section_loop raw info so (pos + 8 + unat (sec_num_info ?sec) * ?sz))"
        using True read sz False by (subst find_section_loop.simps) (simp add: Let_def)
      show ?thesis
      proof (cases "sec_name_off ?sec = so")
        case True
        then show ?thesis using code fits by simp
      next
        case other: False
        have "\<exists>r. find_section_loop raw info so (pos + 8 + unat (sec_num_info ?sec) * ?sz) = Some r
            \<and> (\<forall>n p. r = Some (n, p) \<longrightarrow> p + unat n * ?sz \<le> length raw)"
          by (rule 1(1) [OF _ _ read refl refl refl]) (use True False other sz 1(2,3) in auto)
        then show ?thesis using code other by simp
      qed
    qed
  qed
qed


lemma find_ext_info_section_ok:
  assumes "info_ok raw m info"
  shows "\<exists>r. find_ext_info_section raw info so = Some r
    \<and> (\<forall>n p. r = Some (n, p) \<longrightarrow> m \<le> unat (rec_size info) \<and> p + unat n * unat (rec_size info) \<le> length raw)"
proof (cases "present info")
  case True
  then have "info_end info \<le> length raw" "0 < unat (rec_size info)" "m \<le> unat (rec_size info)"
    using assms by (auto simp: info_ok_def)
  with True find_section_loop_ok [of info raw so "info_pos info"] show ?thesis
    by (auto simp: find_ext_info_section_def)
qed (simp add: find_ext_info_section_def)

text \<open>
  The search finds the last of the records with the greatest offset that is not after the
  instruction.
\<close>

definition best_of :: "('r \<Rightarrow> u32) \<Rightarrow> u32 \<Rightarrow> 'r list \<Rightarrow> 'r option \<Rightarrow> bool" where
  "best_of insn insn_off rs best \<longleftrightarrow>
     (case best of
        None \<Rightarrow> \<forall>r \<in> set rs. insn r > insn_off
      | Some r \<Rightarrow> \<exists>us vs. rs = us @ r # vs \<and> insn r \<le> insn_off
          \<and> (\<forall>u \<in> set us. insn u \<le> insn_off \<longrightarrow> insn u \<le> insn r)
          \<and> (\<forall>v \<in> set vs. insn v \<le> insn_off \<longrightarrow> insn v < insn r))"

lemma best_of_last:
  assumes "insn c \<le> insn_off" and "\<forall>u \<in> set rs. insn u \<le> insn_off \<longrightarrow> insn u \<le> insn c"
  shows "best_of insn insn_off (rs @ [c]) (Some c)"
  unfolding best_of_def option.case
  by (rule exI [of _ rs], rule exI [of _ "[]"]) (use assms in auto)

lemma best_of_snoc:
  assumes "best_of insn insn_off rs best"
  shows "best_of insn insn_off (rs @ [c])
    (if insn c > insn_off then best else if best = None \<or> insn c \<ge> insn (the best) then Some c else best)"
proof (cases best)
  case None
  then have low: "\<forall>r \<in> set rs. insn r > insn_off" using assms by (simp add: best_of_def)
  show ?thesis
  proof (cases "insn c > insn_off")
    case True
    then show ?thesis using None low by (simp add: best_of_def)
  next
    case False
    have "best_of insn insn_off (rs @ [c]) (Some c)" using low False by (intro best_of_last) auto
    then show ?thesis using False None by simp
  qed
next
  case (Some r)
  then obtain us vs where rs: "rs = us @ r # vs" and r: "insn r \<le> insn_off"
    "\<forall>u \<in> set us. insn u \<le> insn_off \<longrightarrow> insn u \<le> insn r"
    "\<forall>v \<in> set vs. insn v \<le> insn_off \<longrightarrow> insn v < insn r"
    using assms by (auto simp: best_of_def)
  show ?thesis
  proof (cases "insn c \<le> insn_off \<and> insn c \<ge> insn r")
    case True
    then have "\<forall>u \<in> set rs. insn u \<le> insn_off \<longrightarrow> insn u \<le> insn c"
      using rs r by (auto intro: order.trans less_imp_le order.strict_trans2)
    then have "best_of insn insn_off (rs @ [c]) (Some c)" using True by (intro best_of_last) auto
    then show ?thesis using True Some by (auto simp: not_less)
  next
    case False
    then have low: "insn c \<le> insn_off \<longrightarrow> insn c < insn r" by auto
    have "best_of insn insn_off (rs @ [c]) (Some r)"
      unfolding best_of_def option.case
      by (rule exI [of _ us], rule exI [of _ "vs @ [c]"]) (use rs r low in auto)
    then show ?thesis using False Some by (auto simp: not_less not_le)
  qed
qed

lemma best_record_best_of:
  assumes "\<forall>i \<in> set is. rd i = Some (f i)" and "best_of insn insn_off rs best"
  shows "\<exists>r. best_record rd insn insn_off is best = Some r \<and> best_of insn insn_off (rs @ map f is) r"
  using assms
proof (induction "is" arbitrary: rs best)
  case Nil
  then show ?case by simp
next
  case (Cons i "is")
  let ?best = "if insn (f i) > insn_off then best
    else if best = None \<or> insn (f i) \<ge> insn (the best) then Some (f i) else best"
  have "best_of insn insn_off (rs @ [f i]) ?best" using best_of_snoc [OF Cons.prems(2)] .
  from Cons.IH [OF _ this] Cons.prems(1) obtain r where
    "best_record rd insn insn_off is ?best = Some r" "best_of insn insn_off (rs @ [f i] @ map f is) r" by auto
  moreover have "best_record rd insn insn_off (i # is) best = best_record rd insn insn_off is ?best"
    using Cons.prems(1) by simp
  ultimately show ?case by auto
qed

lemma record_in_bounds:
  assumes "i < n" and "p + n * sz \<le> len" and "m \<le> sz"
  shows "p + i * sz + m \<le> (len :: nat)"
proof -
  have "(i + 1) * sz \<le> n * sz" using assms(1) by (intro mult_le_mono1) simp
  then show ?thesis using assms(2,3) by simp
qed

lemma find_line_location_defined:
  assumes "info_ok raw 16 info"
  shows "\<exists>loc. find_line_location raw ob info so insn_off = Some loc"
proof -
  obtain r where sec: "find_ext_info_section raw info so = Some r"
    and bound: "\<And>n p. r = Some (n, p) \<Longrightarrow> 16 \<le> unat (rec_size info) \<and> p + unat n * unat (rec_size info) \<le> length raw"
    using find_ext_info_section_ok [OF assms] by blast
  show ?thesis
  proof (cases r)
    case (Some np)
    then obtain n p where r: "r = Some (n, p)" by (cases np) auto
    have "\<forall>i \<in> set [0..<unat n]. \<exists>l. read_line_info raw (p + i * unat (rec_size info)) = Some l"
      using bound [OF r] by (auto simp: read_line_info_def copy_at_def intro: record_in_bounds)
    then obtain f where "\<forall>i \<in> set [0..<unat n]. read_line_info raw (p + i * unat (rec_size info)) = Some (f i)"
      by metis
    from best_record_best_of [OF this, of li_insn_off insn_off "[]" None] sec r show ?thesis
      by (auto simp: find_line_location_def best_of_def)
  qed (simp add: find_line_location_def sec)
qed

lemma find_function_name_defined:
  assumes "info_ok raw 8 info"
  shows "\<exists>n. find_function_name raw ob info so insn_off = Some n"
proof -
  obtain r where sec: "find_ext_info_section raw info so = Some r"
    and bound: "\<And>n p. r = Some (n, p) \<Longrightarrow> 8 \<le> unat (rec_size info) \<and> p + unat n * unat (rec_size info) \<le> length raw"
    using find_ext_info_section_ok [OF assms] by blast
  show ?thesis
  proof (cases r)
    case (Some np)
    then obtain n p where r: "r = Some (n, p)" by (cases np) auto
    have "\<forall>i \<in> set [0..<unat n]. \<exists>l. read_func_info raw (p + i * unat (rec_size info)) = Some l"
      using bound [OF r] by (auto simp: read_func_info_def copy_at_def intro: record_in_bounds)
    then obtain f where "\<forall>i \<in> set [0..<unat n]. read_func_info raw (p + i * unat (rec_size info)) = Some (f i)"
      by metis
    from best_record_best_of [OF this, of fi_insn_off insn_off "[]" None] sec r show ?thesis
      by (auto simp: find_function_name_def best_of_def)
  qed (simp add: find_function_name_def sec)
qed

lemma locations_defined:
  assumes "info_ok raw 8 fi" and "info_ok raw 16 li"
  shows "\<exists>e. set_core_relo_context raw ob fi li so relo k i err = Some e"
    and "\<exists>s. format_core_relo_location raw ob fi li so relo = Some s"
  using find_function_name_defined [OF assms(1), of ob so "relo_insn_off relo"]
    find_line_location_defined [OF assms(2), of ob so "relo_insn_off relo"]
  by (auto simp: set_core_relo_context_def format_core_relo_location_def Let_def)

end
