(* ===== verification/Core_Relo.thy ===== *)
theory Core_Relo
  imports Ext_Info
begin

text \<open>
  The last part of \<^verbatim>\<open>src/seeds.c\<close>: the walk over the CO-RE relocations of an object. The
  theory shows that the walk returns for any bytes of the section without reading outside of them, and
  what a successful walk has done: it has consumed the relocations of a well-formed
  layout (\<open>sections\<close>), one after the other, each with its own effect on seeds and
  requirements (\<open>relo_effect\<close>).
\<close>

subsection \<open>The code\<close>

text \<open>
  What libbpf answers for \<^verbatim>\<open>.BTF.ext\<close>: the endianness and the raw bytes, NULL as \<open>None\<close>. The
  size that comes with the bytes is their number.
\<close>

record btf_ext =
  ext_little_endian :: bool
  ext_raw :: "u8 list option"

record mch_btf_ext_header =
  hdr_magic :: u16
  hdr_version :: u8
  hdr_len :: u32
  func_info_off :: u32
  func_info_len :: u32
  line_info_off :: u32
  line_info_len :: u32
  core_relo_off :: u32
  core_relo_len :: u32

definition read_header :: "u8 list \<Rightarrow> mch_btf_ext_header option" where
  "read_header raw = copy_at raw 0 32 \<lparr>hdr_magic = of_nat (unat (raw ! 0) + 256 * unat (raw ! 1)),
     hdr_version = raw ! 2, hdr_len = u32_at raw 4, func_info_off = u32_at raw 8,
     func_info_len = u32_at raw 12, line_info_off = u32_at raw 16, line_info_len = u32_at raw 20,
     core_relo_off = u32_at raw 24, core_relo_len = u32_at raw 28\<rparr>"

text \<open>What stays fixed during the walk.\<close>

record relo_walk =
  rw_index :: mch_btf_index
  rw_object :: btf
  rw_raw :: "u8 list"
  rw_core :: mch_ext_info
  rw_func :: mch_ext_info
  rw_line :: mch_ext_info
  rw_path :: "string option"

definition relo_origin :: "string option \<Rightarrow> btf \<Rightarrow> bpf_core_relo \<Rightarrow> string \<Rightarrow> mch_requirement_origin" where
  "relo_origin path ob relo location = \<lparr>o_source = MCH_REQUIREMENT_SOURCE_CORE_RELO,
     o_object_path = path, o_detail = Some (core_relo_kind_name (relo_kind relo)),
     o_access = str_by_offset ob (relo_access_str_off relo), o_location = Some location\<rparr>"

text \<open>The body of the inner loop after the relocation has been copied out.\<close>

definition process_relo ::
    "relo_walk \<Rightarrow> u32 \<Rightarrow> bpf_core_relo \<Rightarrow> u32 \<Rightarrow> mch_error \<Rightarrow> seed_state \<Rightarrow> seed_state outcome" where
  "process_relo w section_off relo i err st =
     (let idx = rw_index w; ob = rw_object w; path = rw_path w;
          relo_index = core_relocations (ss_stats st) + 1;
          st1 = st\<lparr>ss_stats := (ss_stats st)\<lparr>core_relocations := core_relocations (ss_stats st) + 1\<rparr>\<rparr>;
          fail = (\<lambda>e. map_option Inl
            (set_core_relo_context (rw_raw w) ob (rw_func w) (rw_line w) section_off relo relo_index i e))
      in Option.bind (format_core_relo_location (rw_raw w) ob (rw_func w) (rw_line w) section_off relo)
           (\<lambda>location.
              let origin = relo_origin path ob relo location
              in (case resolve_object_type_to_base idx ob (relo_type_id relo) path ''CO-RE relocation'' False err of
                    None \<Rightarrow> None
                  | Some (Inl e) \<Rightarrow> fail e
                  | Some (Inr res) \<Rightarrow>
                      let base_id = (case res of None \<Rightarrow> 0 | Some j \<Rightarrow> j);
                          (added, seeds) = mch_type_set_add (ss_seeds st1) (ucast base_id);
                          stats = (if added then (ss_stats st1)
                                     \<lparr>core_kernel_types := core_kernel_types (ss_stats st1) + 1\<rparr>
                                   else ss_stats st1)
                      in (case mch_requirements_add_type_root (ss_requirements st1) (ucast base_id)
                                 (Some origin) err (ss_heap st1) of
                            Inl e \<Rightarrow> fail e
                          | Inr (rq, h) \<Rightarrow>
                              (case record_core_relo_requirements idx ob path relo base_id (Some origin) err
                                      \<lparr>ss_seeds = seeds, ss_requirements = rq, ss_stats = stats, ss_heap = h\<rparr> of
                                 Inl e \<Rightarrow> fail e
                               | Inr st' \<Rightarrow> Some (Inr st'))))))"

definition ext_error :: "string option \<Rightarrow> string \<Rightarrow> mch_error \<Rightarrow> mch_error" where
  "ext_error path what err = mch_error_set_file path (mch_error_set (''object .BTF.ext '' @ what) err)"

function relo_loop ::
    "relo_walk \<Rightarrow> mch_btf_ext_info_sec \<Rightarrow> mch_error \<Rightarrow> u32 \<Rightarrow> nat \<Rightarrow> seed_state
      \<Rightarrow> (nat \<times> seed_state) outcome" where
  "relo_loop w sec err i pos st =
     (if i < sec_num_info sec then
        if info_end (rw_core w) - pos < unat (rec_size (rw_core w))
        then Some (Inl (ext_error (rw_path w) ''CO-RE relocation records are truncated'' err))
        else (case read_core_relo (rw_raw w) pos of
                None \<Rightarrow> None
              | Some relo \<Rightarrow>
                  bind_outcome (process_relo w (sec_name_off sec) relo i err st)
                    (relo_loop w sec err (i + 1) (pos + unat (rec_size (rw_core w)))))
      else Some (Inr (pos, st)))"
  by pat_completeness auto
termination
  by (relation "measure (\<lambda>(w, sec, err, i, pos, st). unat (sec_num_info sec) - unat i)")
    (auto simp: unat_increment word_less_nat_alt intro!: diff_less_mono2)

declare relo_loop.simps [simp del]

lemma relo_loop_forward: "relo_loop w sec err i pos st = Some (Inr (pos', st')) \<Longrightarrow> pos \<le> pos'"
proof (induction w sec err i pos st rule: relo_loop.induct)
  case (1 w sec err i pos st)
  show ?case
  proof (cases "i < sec_num_info sec")
    case False
    then show ?thesis using "1.prems" by (subst (asm) relo_loop.simps) simp
  next
    case True
    obtain relo st1 where "\<not> info_end (rw_core w) - pos < unat (rec_size (rw_core w))"
      and "read_core_relo (rw_raw w) pos = Some relo"
      and "relo_loop w sec err (i + 1) (pos + unat (rec_size (rw_core w))) st1 = Some (Inr (pos', st'))"
      using "1.prems" True
      by (subst (asm) relo_loop.simps) (auto simp: bind_outcome_Inr split: if_splits option.splits)
    with "1.IH" True show ?thesis by fastforce
  qed
qed

function sections_loop ::
    "relo_walk \<Rightarrow> mch_error \<Rightarrow> nat \<Rightarrow> seed_state \<Rightarrow> (nat \<times> seed_state) outcome" where
  "sections_loop w err pos st =
     (if pos < info_end (rw_core w) then
        if info_end (rw_core w) - pos < 8
        then Some (Inl (ext_error (rw_path w) ''CO-RE relocation section is truncated'' err))
        else (case read_sec (rw_raw w) pos of
                None \<Rightarrow> None
              | Some sec \<Rightarrow>
                  (case relo_loop w sec err 0 (pos + 8) st of
                     None \<Rightarrow> None
                   | Some (Inl e) \<Rightarrow> Some (Inl e)
                   | Some (Inr (pos', st')) \<Rightarrow> sections_loop w err pos' st'))
      else Some (Inr (pos, st)))"
  by pat_completeness auto
termination
proof (relation "measure (\<lambda>(w, err, pos, st). info_end (rw_core w) - pos)", goal_cases)
  case 1
  then show ?case by simp
next
  case (2 w err pos st sec r x pos' st')
  then have "pos + 8 \<le> pos'" using relo_loop_forward [of w sec err 0 "pos + 8" st pos' st'] by auto
  with 2(1) show ?case by simp
qed

declare sections_loop.simps [simp del]

definition mch_extract_core_relo_seeds_with_requirements ::
    "mch_btf_index \<Rightarrow> btf \<Rightarrow> btf_ext option \<Rightarrow> string option \<Rightarrow> mch_error \<Rightarrow> seed_state
      \<Rightarrow> seed_state outcome" where
  "mch_extract_core_relo_seeds_with_requirements idx ob object_ext path err st =
     (case object_ext of
        None \<Rightarrow> Some (Inr st)
      | Some ext \<Rightarrow>
          if ext_little_endian ext \<noteq> host_is_little_endian
          then Some (Inl (mch_error_set_hint (Some ''v0.1 only parses native-endian .BTF.ext data'')
                 (ext_error path ''endianness differs from host endianness'' err)))
          else let raw = (case ext_raw ext of None \<Rightarrow> [] | Some bytes \<Rightarrow> bytes);
                   raw_size = (of_nat (length raw) :: u32)
               in if ext_raw ext = None \<or> raw_size < 32
                  then Some (Inl (ext_error path ''is missing or truncated'' err))
                  else (case read_header raw of
                    None \<Rightarrow> None
                  | Some header \<Rightarrow>
                      if hdr_magic header \<noteq> 0xEB9F \<or> hdr_version header \<noteq> 1
                      then Some (Inl (ext_error path ''has unsupported header'' err))
                      else if hdr_len header < 28 + 4 \<or> hdr_len header > raw_size
                      then Some (Inl (mch_error_set_hint
                             (Some ''rebuild the BPF object with a modern clang/libbpf-compatible toolchain'')
                             (ext_error path ''has unsupported header length'' err)))
                      else if hdr_len header < 32
                      then Some (Inl (ext_error path ''header is truncated'' err))
                      else if core_relo_len header = 0 then Some (Inr st)
                      else
                        bind_outcome (init_ext_info raw raw_size (hdr_len header) (core_relo_off header)
                          (core_relo_len header) 16 ''CO-RE relocation'' path True err) (\<lambda>core_info.
                        bind_outcome (init_ext_info raw raw_size (hdr_len header) (func_info_off header)
                          (func_info_len header) 8 ''function info'' path False err) (\<lambda>func_info.
                        bind_outcome (init_ext_info raw raw_size (hdr_len header) (line_info_off header)
                          (line_info_len header) 16 ''line info'' path False err) (\<lambda>line_info.
                        bind_outcome (sections_loop
                          \<lparr>rw_index = idx, rw_object = ob, rw_raw = raw, rw_core = core_info,
                           rw_func = func_info, rw_line = line_info, rw_path = path\<rparr>
                          err (info_pos core_info) st) (\<lambda>(pos, st').
                        if pos \<noteq> info_end core_info
                        then Some (Inl (ext_error path ''CO-RE relocation section has trailing bytes'' err))
                        else Some (Inr st')))))))"

definition mch_extract_core_relo_seeds ::
    "mch_btf_index \<Rightarrow> btf \<Rightarrow> btf_ext option \<Rightarrow> string option \<Rightarrow> mch_error \<Rightarrow> seed_state
      \<Rightarrow> seed_state outcome" where
  "mch_extract_core_relo_seeds idx ob object_ext path err st =
     map_option (map_sum id (\<lambda>st'. st'\<lparr>ss_requirements := ss_requirements st\<rparr>))
       (mch_extract_core_relo_seeds_with_requirements idx ob object_ext path err
          (st\<lparr>ss_requirements := None\<rparr>))"


subsection \<open>The walk returns, and reads inside the section\<close>

definition walk_ok :: "btf \<Rightarrow> relo_walk \<Rightarrow> bool" where
  "walk_ok b w \<longleftrightarrow> index_for b (rw_index w) \<and> info_ok (rw_raw w) 16 (rw_core w) \<and> present (rw_core w)
     \<and> info_ok (rw_raw w) 8 (rw_func w) \<and> info_ok (rw_raw w) 16 (rw_line w)"

lemma core_bounds:
  assumes "walk_ok b w"
  shows "info_end (rw_core w) \<le> length (rw_raw w)" "16 \<le> unat (rec_size (rw_core w))"
    "info_pos (rw_core w) \<le> info_end (rw_core w)"
  using assms by (auto simp: walk_ok_def info_ok_def)

abbreviation resolve_relo :: "relo_walk \<Rightarrow> bpf_core_relo \<Rightarrow> mch_error \<Rightarrow> u32 option outcome" where
  "resolve_relo w relo err \<equiv> resolve_object_type_to_base (rw_index w) (rw_object w) (relo_type_id relo)
     (rw_path w) ''CO-RE relocation'' False err"

text \<open>The state in which a relocation that resolves to \<open>j\<close> leaves the seeds and counters.\<close>

definition count_relo :: "u32 \<Rightarrow> mch_requirements option \<Rightarrow> heap \<Rightarrow> seed_state \<Rightarrow> seed_state" where
  "count_relo j rq h st = (let stats = (ss_stats st)\<lparr>core_relocations := core_relocations (ss_stats st) + 1\<rparr>
     in \<lparr>ss_seeds = snd (mch_type_set_add (ss_seeds st) (ucast j)), ss_requirements = rq,
         ss_stats = stats\<lparr>core_kernel_types := core_kernel_types stats
           + (if fst (mch_type_set_add (ss_seeds st) (ucast j)) then 1 else 0)\<rparr>, ss_heap = h\<rparr>)"

lemma process_relo_run:
  assumes "format_core_relo_location (rw_raw w) (rw_object w) (rw_func w) (rw_line w) so relo = Some location"
    and "resolve_relo w relo err = Some (Inr (Some j))"
    and "mch_requirements_add_type_root (ss_requirements st) (ucast j)
      (Some (relo_origin (rw_path w) (rw_object w) relo location)) err (ss_heap st) = Inr (rq, h)"
  shows "process_relo w so relo i err st =
    (case record_core_relo_requirements (rw_index w) (rw_object w) (rw_path w) relo j
        (Some (relo_origin (rw_path w) (rw_object w) relo location)) err (count_relo j rq h st) of
       Inl e \<Rightarrow> map_option Inl (set_core_relo_context (rw_raw w) (rw_object w) (rw_func w) (rw_line w)
         so relo (core_relocations (ss_stats st) + 1) i e)
     | Inr st' \<Rightarrow> Some (Inr st'))"
  using assms by (simp add: process_relo_def Let_def case_prod_unfold count_relo_def)

lemma process_relo_cases:
  assumes ok: "walk_ok b w"
  obtains (failed) e where "process_relo w so relo i err st = Some (Inl e)"
    | (finished) j location rq h st' where
        "process_relo w so relo i err st = Some (Inr st')"
        "resolve_relo w relo err = Some (Inr (Some j))"
        "mch_requirements_add_type_root (ss_requirements st) (ucast j)
           (Some (relo_origin (rw_path w) (rw_object w) relo location)) err (ss_heap st) = Inr (rq, h)"
        "record_core_relo_requirements (rw_index w) (rw_object w) (rw_path w) relo j
           (Some (relo_origin (rw_path w) (rw_object w) relo location)) err (count_relo j rq h st) = Inr st'"
proof -
  have infos: "info_ok (rw_raw w) 8 (rw_func w)" "info_ok (rw_raw w) 16 (rw_line w)"
    and idx: "index_for b (rw_index w)" using ok by (auto simp: walk_ok_def)
  obtain location where loc: "format_core_relo_location (rw_raw w) (rw_object w) (rw_func w) (rw_line w)
      so relo = Some location"
    using locations_defined(2) [OF infos] by blast
  let ?og = "relo_origin (rw_path w) (rw_object w) relo location"
  have ctx: "\<exists>e'. map_option Inl (set_core_relo_context (rw_raw w) (rw_object w) (rw_func w) (rw_line w)
      so relo k i e) = Some (Inl e')" for k e
    using locations_defined(1) [OF infos, of "rw_object w" so relo k i e] by auto
  obtain r where r: "resolve_relo w relo err = Some r"
    and res: "resolves b (rw_object w) (relo_type_id relo) ''CO-RE relocation'' False
      (walk (rw_object w) 32 (relo_type_id relo)) r"
    using resolve_walk [OF idx] by blast
  show ?thesis
  proof (cases r)
    case (Inl e)
    obtain e' where "process_relo w so relo i err st = Some (Inl e')"
      using ctx [of "core_relocations (ss_stats st) + 1" e] loc r Inl
      by (auto simp: process_relo_def Let_def)
    then show ?thesis by (rule failed)
  next
    case (Inr jo)
    obtain j where j: "jo = Some j" using resolves_Inr(2) [OF res [unfolded Inr]] by (cases jo) auto
    let ?add = "mch_requirements_add_type_root (ss_requirements st) (ucast j) (Some ?og) err (ss_heap st)"
    show ?thesis
    proof (cases ?add)
      case (Inl e)
      obtain e' where "process_relo w so relo i err st = Some (Inl e')"
        using ctx [of "core_relocations (ss_stats st) + 1" e] loc r Inr j Inl
        by (auto simp: process_relo_def Let_def case_prod_unfold)
      then show ?thesis by (rule failed)
    next
      case add: (Inr rqh)
      obtain rq h where rqh: "rqh = (rq, h)" by fastforce
      let ?rec = "record_core_relo_requirements (rw_index w) (rw_object w) (rw_path w) relo j (Some ?og) err
        (count_relo j rq h st)"
      note code = process_relo_run [OF loc r [unfolded Inr j] add [unfolded rqh]]
      show ?thesis
      proof (cases ?rec)
        case (Inl e)
        then show ?thesis
          using code ctx [of "core_relocations (ss_stats st) + 1" e] failed by auto
      next
        case (Inr st')
        then show ?thesis using code r \<open>r = Inr jo\<close> j add rqh by (intro finished) auto
      qed
    qed
  qed
qed

lemma process_relo_returns: "walk_ok b w \<Longrightarrow> \<exists>r. process_relo w so relo i err st = Some r"
  by (erule process_relo_cases) auto

lemma read_core_relo_inside:
  assumes "walk_ok b w" and "\<not> info_end (rw_core w) - pos < unat (rec_size (rw_core w))"
  shows "\<exists>relo. read_core_relo (rw_raw w) pos = Some relo"
proof -
  have "pos + 16 \<le> length (rw_raw w)" using core_bounds [OF assms(1)] assms(2) by linarith
  then show ?thesis by (simp add: read_core_relo_def copy_at_def)
qed

lemma relo_loop_returns:
  assumes "walk_ok b w"
  shows "\<exists>r. relo_loop w sec err i pos st = Some r"
  using assms
proof (induction w sec err i pos st rule: relo_loop.induct)
  case (1 w sec err i pos st)
  show ?case
  proof (cases "i < sec_num_info sec \<and> \<not> info_end (rw_core w) - pos < unat (rec_size (rw_core w))")
    case False
    then show ?thesis by (subst relo_loop.simps) auto
  next
    case True
    obtain relo where relo: "read_core_relo (rw_raw w) pos = Some relo"
      using read_core_relo_inside "1.prems" True by blast
    obtain r where r: "process_relo w (sec_name_off sec) relo i err st = Some r"
      using process_relo_returns [OF "1.prems"] by blast
    show ?thesis
    proof (cases r)
      case (Inl e)
      then show ?thesis using True relo r by (subst relo_loop.simps) simp
    next
      case (Inr st1)
      then show ?thesis using True relo r "1.IH" [OF _ _ relo, of st1] "1.prems"
        by (subst relo_loop.simps) simp
    qed
  qed
qed

lemma sections_loop_returns:
  assumes "walk_ok b w"
  shows "\<exists>r. sections_loop w err pos st = Some r"
  using assms
proof (induction w err pos st rule: sections_loop.induct)
  case (1 w err pos st)
  show ?case
  proof (cases "pos < info_end (rw_core w) \<and> \<not> info_end (rw_core w) - pos < 8")
    case False
    then show ?thesis by (subst sections_loop.simps) auto
  next
    case True
    then have "pos + 8 \<le> length (rw_raw w)" using core_bounds(1) [OF "1.prems"] by linarith
    then obtain sec where sec: "read_sec (rw_raw w) pos = Some sec"
      by (simp add: read_sec_def copy_at_def)
    obtain r where r: "relo_loop w sec err 0 (pos + 8) st = Some r"
      using relo_loop_returns [OF "1.prems"] by blast
    show ?thesis
    proof (cases r)
      case (Inl e)
      then show ?thesis using True sec r by (subst sections_loop.simps) simp
    next
      case (Inr x)
      obtain pos' st' where x: "x = (pos', st')" by fastforce
      have "\<exists>r. sections_loop w err pos' st' = Some r"
        using "1.IH" [OF _ _ sec r Inr x [symmetric]] True "1.prems" by simp
      then show ?thesis using True sec r Inr x by (subst sections_loop.simps) simp
    qed
  qed
qed


subsection \<open>The effect of a relocation\<close>

text \<open>The base members that the access of a relocation reads, from the base type \<open>j\<close> on.\<close>

definition relo_access :: "btf \<Rightarrow> btf \<Rightarrow> bpf_core_relo \<Rightarrow> u32 \<Rightarrow> (u32 \<times> nat) list \<Rightarrow> bool" where
  "relo_access b ob relo j P \<longleftrightarrow>
     (let access = str_by_offset ob (relo_access_str_off relo)
      in if is_field_relo_kind (relo_kind relo) \<and> has_name access
         then \<exists>root is. access_components (the access) = Some (root # is)
                \<and> access_follows b ob is (relo_type_id relo) j P
         else P = [])"

definition relo_effect :: "btf \<Rightarrow> btf \<Rightarrow> bpf_core_relo \<Rightarrow> seed_state \<Rightarrow> seed_state \<Rightarrow> bool" where
  "relo_effect b ob relo st st' \<longleftrightarrow>
     (\<exists>j P. base_matches b ob (relo_type_id relo) = {j}
        \<and> (ss_requirements st \<noteq> None \<longrightarrow> relo_access b ob relo j P)
        \<and> (ss_requirements st = None \<longrightarrow> P = [] \<and> ss_requirements st' = None)
        \<and> ts_elems (ss_seeds st') = insert (unat j) (ts_elems (ss_seeds st)) \<union> fst ` path_members P
        \<and> core_relocations (ss_stats st') = core_relocations (ss_stats st) + 1
        \<and> (\<forall>r. ss_requirements st = Some r \<longrightarrow> (\<exists>r'. ss_requirements st' = Some r'
             \<and> req_roots r' = insert (unat j) (req_roots r)
             \<and> req_members r' = req_members r \<union> path_members P)))"

lemma process_relo_effect:
  assumes ok: "walk_ok b w" and inv: "seed_invar b st"
    and step: "process_relo w so relo i err st = Some (Inr st')"
  shows "seed_invar b st' \<and> relo_effect b (rw_object w) relo st st'"
  using ok
proof (cases rule: process_relo_cases [where so = so and relo = relo and i = i and err = err and st = st])
  case (failed e)
  then show ?thesis using step by simp
next
  case (finished j location rq h st'')
  let ?ob = "rw_object w"
  let ?og = "relo_origin (rw_path w) ?ob relo location"
  have idx: "index_for b (rw_index w)" using ok by (simp add: walk_ok_def)
  have j: "0 < j" "j < type_cnt b" and matches: "base_matches b ?ob (relo_type_id relo) = {j}"
  proof -
    have "resolves b ?ob (relo_type_id relo) ''CO-RE relocation'' False
        (walk ?ob 32 (relo_type_id relo)) (Inr (Some j))"
      using resolve_walk [OF idx, of ?ob "relo_type_id relo" "rw_path w" "''CO-RE relocation''" False err]
        finished(2) by simp
    then show "base_matches b ?ob (relo_type_id relo) = {j}" using resolves_Inr(1) by fastforce
    then show "0 < j" "j < type_cnt b" using base_matches_below [of b ?ob "relo_type_id relo"] by auto
  qed
  let ?st1 = "count_relo j rq h st"
  note root = seed_base_id [OF inv j finished(3)]
  have seeds1: "ss_seeds ?st1 = snd (mch_type_set_add (ss_seeds st) (ucast j))" "ss_requirements ?st1 = rq"
    "core_relocations (ss_stats ?st1) = core_relocations (ss_stats st) + 1"
    by (simp_all add: count_relo_def Let_def)
  have inv1: "seed_invar b ?st1" using root(1) unfolding seed_invar_def seeds1 by simp
  have elems1: "ts_elems (ss_seeds ?st1) = insert (unat j) (ts_elems (ss_seeds st))"
    using root(2) by (simp add: seeds1)
  have st'': "st'' = st'" using finished(1) step by simp
  note rec = record_core_relo_requirements_Inr [OF idx inv1 finished(4), unfolded st'' seeds1]
  have req: "rq = None \<longleftrightarrow> ss_requirements st = None" using root(3) .
  have access: "o_access ?og = str_by_offset ?ob (relo_access_str_off relo)" by (simp add: relo_origin_def)
  obtain P where P: "ss_requirements st \<noteq> None \<longrightarrow> relo_access b ?ob relo j P"
    "ss_requirements st = None \<longrightarrow> P = []" and adds: "adds_members ?st1 (path_members P) st'"
  proof (cases "rq \<noteq> None \<and> is_field_relo_kind (relo_kind relo) \<and> has_name (o_access ?og)")
    case True
    with rec obtain root "is" Q where "access_components (the (o_access ?og)) = Some (root # is)"
      "access_follows b ?ob is (relo_type_id relo) j Q" "adds_members ?st1 (path_members Q) st'" by auto
    with True req access show ?thesis by (intro that [of Q]) (auto simp: relo_access_def Let_def)
  next
    case False
    then have "st' = ?st1" using rec by auto
    then show ?thesis using False req access by (intro that [of "[]"]) (auto simp: relo_access_def Let_def)
  qed
  have "relo_effect b ?ob relo st st'"
    unfolding relo_effect_def
  proof (intro exI [of _ j] exI [of _ P] conjI)
    show "ts_elems (ss_seeds st') = insert (unat j) (ts_elems (ss_seeds st)) \<union> fst ` path_members P"
      using adds elems1 by (simp add: adds_members_def)
    show "core_relocations (ss_stats st') = core_relocations (ss_stats st) + 1"
      using adds seeds1(3) by (simp add: adds_members_def)
    show "ss_requirements st = None \<longrightarrow> P = [] \<and> ss_requirements st' = None"
      using adds P(2) req seeds1(2) by (auto simp: adds_members_def split: option.splits)
    show "\<forall>r. ss_requirements st = Some r \<longrightarrow> (\<exists>r'. ss_requirements st' = Some r'
        \<and> req_roots r' = insert (unat j) (req_roots r) \<and> req_members r' = req_members r \<union> path_members P)"
      using adds root(4) seeds1(2) by (fastforce simp: adds_members_def)
  qed (use matches P(1) in auto)
  with rec show ?thesis by blast
qed

fun relo_effects :: "btf \<Rightarrow> btf \<Rightarrow> bpf_core_relo list \<Rightarrow> seed_state \<Rightarrow> seed_state \<Rightarrow> bool" where
  "relo_effects b ob [] st st' \<longleftrightarrow> st' = st"
| "relo_effects b ob (relo # relos) st st' \<longleftrightarrow>
     (\<exists>st1. relo_effect b ob relo st st1 \<and> relo_effects b ob relos st1 st')"

lemma relo_effects_append:
  "relo_effects b ob (xs @ ys) st st' \<longleftrightarrow> (\<exists>st1. relo_effects b ob xs st st1 \<and> relo_effects b ob ys st1 st')"
  by (induction xs arbitrary: st) auto

subsection \<open>The layout of the section\<close>

definition relos_at :: "u8 list \<Rightarrow> nat \<Rightarrow> nat \<Rightarrow> nat \<Rightarrow> bpf_core_relo list" where
  "relos_at raw sz pos n = map (\<lambda>k. the (read_core_relo raw (pos + k * sz))) [0..<n]"

lemma relos_at_Suc:
  "relos_at raw sz pos (Suc n) = the (read_core_relo raw pos) # relos_at raw sz (pos + sz) n"
  by (simp add: relos_at_def upt_conv_Cons map_Suc_upt [symmetric] o_def add.assoc del: upt_Suc)

text \<open>Sections of a header and its records, one after the other, exactly up to the end.\<close>

inductive sections :: "u8 list \<Rightarrow> nat \<Rightarrow> nat \<Rightarrow> nat \<Rightarrow> (u32 \<times> bpf_core_relo list) list \<Rightarrow> bool"
  for raw :: "u8 list" and sz stop :: nat where
  sections_end: "sections raw sz stop stop []"
| sections_more: "read_sec raw pos = Some sec \<Longrightarrow> n = unat (sec_num_info sec)
      \<Longrightarrow> pos + 8 + n * sz \<le> stop
      \<Longrightarrow> sections raw sz stop (pos + 8 + n * sz) secs
      \<Longrightarrow> sections raw sz stop pos ((sec_name_off sec, relos_at raw sz (pos + 8) n) # secs)"

lemma relo_loop_Inr:
  assumes "walk_ok b w" and "seed_invar b st" and "relo_loop w sec err i pos st = Some (Inr (pos', st'))"
    and "pos \<le> info_end (rw_core w)"
  shows "seed_invar b st' \<and> pos' = pos + (unat (sec_num_info sec) - unat i) * unat (rec_size (rw_core w))
    \<and> pos' \<le> info_end (rw_core w)
    \<and> relo_effects b (rw_object w)
         (relos_at (rw_raw w) (unat (rec_size (rw_core w))) pos (unat (sec_num_info sec) - unat i)) st st'"
  using assms
proof (induction w sec err i pos st rule: relo_loop.induct)
  case (1 w sec err i pos st)
  let ?sz = "unat (rec_size (rw_core w))"
  show ?case
  proof (cases "i < sec_num_info sec")
    case False
    then have "pos' = pos" "st' = st" using "1.prems"(3) by (subst (asm) relo_loop.simps, simp)+
    moreover have "unat (sec_num_info sec) - unat i = 0" using False by (simp add: word_less_nat_alt)
    ultimately show ?thesis using "1.prems"(2,4) by (simp add: relos_at_def)
  next
    case True
    obtain relo st1 where space: "\<not> info_end (rw_core w) - pos < ?sz"
      and relo: "read_core_relo (rw_raw w) pos = Some relo"
      and proc: "process_relo w (sec_name_off sec) relo i err st = Some (Inr st1)"
      and rest: "relo_loop w sec err (i + 1) (pos + ?sz) st1 = Some (Inr (pos', st'))"
      using "1.prems"(3) True
      by (subst (asm) relo_loop.simps) (auto simp: bind_outcome_Inr split: if_splits option.splits)
    note eff = process_relo_effect [OF "1.prems"(1,2) proc]
    have le: "pos + ?sz \<le> info_end (rw_core w)" using space "1.prems"(4) by linarith
    have left: "unat (sec_num_info sec) - unat i = Suc (unat (sec_num_info sec) - unat (i + 1))"
      using True unat_increment [OF True] by (simp add: word_less_nat_alt)
    have "seed_invar b st' \<and> pos' = pos + ?sz + (unat (sec_num_info sec) - unat (i + 1)) * ?sz
        \<and> pos' \<le> info_end (rw_core w)
        \<and> relo_effects b (rw_object w) (relos_at (rw_raw w) ?sz (pos + ?sz)
            (unat (sec_num_info sec) - unat (i + 1))) st1 st'"
      using "1.IH" [OF True space relo "1.prems"(1) _ rest le] eff by blast
    then show ?thesis unfolding left relos_at_Suc using eff relo by auto
  qed
qed


lemma sections_loop_Inr:
  assumes "walk_ok b w" and "seed_invar b st" and "sections_loop w err pos st = Some (Inr (pos', st'))"
    and "pos \<le> info_end (rw_core w)"
  shows "seed_invar b st' \<and> (pos' = info_end (rw_core w) \<longrightarrow>
    (\<exists>secs. sections (rw_raw w) (unat (rec_size (rw_core w))) (info_end (rw_core w)) pos secs
       \<and> relo_effects b (rw_object w) (concat (map snd secs)) st st'))"
  using assms
proof (induction w err pos st rule: sections_loop.induct)
  case (1 w err pos st)
  let ?sz = "unat (rec_size (rw_core w))" and ?e = "info_end (rw_core w)"
  show ?case
  proof (cases "pos < ?e")
    case False
    then have "pos' = pos" "st' = st" using "1.prems"(3) by (subst (asm) sections_loop.simps, simp)+
    moreover have "pos = ?e" using False "1.prems"(4) by simp
    ultimately show ?thesis using "1.prems"(2) sections_end by fastforce
  next
    case True
    obtain sec pos1 st1 where space: "\<not> ?e - pos < 8" and sec: "read_sec (rw_raw w) pos = Some sec"
      and relos: "relo_loop w sec err 0 (pos + 8) st = Some (Inr (pos1, st1))"
      and rest: "sections_loop w err pos1 st1 = Some (Inr (pos', st'))"
      using "1.prems"(3) True
      by (subst (asm) sections_loop.simps) (auto split: if_splits option.splits sum.splits)
    have le: "pos + 8 \<le> ?e" using space True by linarith
    note done1 = relo_loop_Inr [OF "1.prems"(1,2) relos le]
    let ?n = "unat (sec_num_info sec)"
    have pos1: "pos1 = pos + 8 + ?n * ?sz" "pos1 \<le> ?e" using done1 by auto
    have tail: "seed_invar b st' \<and> (pos' = ?e \<longrightarrow> (\<exists>secs. sections (rw_raw w) ?sz ?e pos1 secs
        \<and> relo_effects b (rw_object w) (concat (map snd secs)) st1 st'))"
      using "1.IH" [OF True space sec relos refl refl "1.prems"(1) _ rest pos1(2)] done1 by blast
    show ?thesis
    proof (intro conjI impI)
      show "seed_invar b st'" using tail by blast
      assume "pos' = ?e"
      with tail obtain secs where secs: "sections (rw_raw w) ?sz ?e pos1 secs"
        "relo_effects b (rw_object w) (concat (map snd secs)) st1 st'" by blast
      have "sections (rw_raw w) ?sz ?e pos ((sec_name_off sec, relos_at (rw_raw w) ?sz (pos + 8) ?n) # secs)"
        using sec secs(1) pos1 by (intro sections_more) auto
      moreover have "relo_effects b (rw_object w)
          (concat (map snd ((sec_name_off sec, relos_at (rw_raw w) ?sz (pos + 8) ?n) # secs))) st st'"
        using done1 secs(2) by (auto simp: relo_effects_append)
      ultimately show "\<exists>secs. sections (rw_raw w) ?sz ?e pos secs
          \<and> relo_effects b (rw_object w) (concat (map snd secs)) st st'" by blast
    qed
  qed
qed

text \<open>The record count and the seeds after a list of relocations.\<close>

lemma relo_effects_count:
  assumes "relo_effects b ob relos st st'"
  shows "core_relocations (ss_stats st') = core_relocations (ss_stats st) + of_nat (length relos)"
  using assms by (induction relos arbitrary: st) (auto simp: relo_effect_def)

lemma relo_effects_matches:
  assumes "relo_effects b ob relos st st'" and "relo \<in> set relos"
  shows "\<exists>j. base_matches b ob (relo_type_id relo) = {j}"
  using assms by (induction relos arbitrary: st) (auto simp: relo_effect_def)

lemma relo_effects_seeds:
  assumes "relo_effects b ob relos st st'"
  shows "ts_elems (ss_seeds st) \<union> unat ` (\<Union>relo \<in> set relos. base_matches b ob (relo_type_id relo))
    \<subseteq> ts_elems (ss_seeds st')"
  using assms
proof (induction relos arbitrary: st)
  case (Cons relo relos)
  then obtain st1 where "relo_effect b ob relo st st1" and rest: "relo_effects b ob relos st1 st'" by auto
  then have "ts_elems (ss_seeds st) \<union> unat ` base_matches b ob (relo_type_id relo) \<subseteq> ts_elems (ss_seeds st1)"
    by (auto simp: relo_effect_def)
  with Cons.IH [OF rest] show ?case by auto
qed simp

lemma relo_effects_roots:
  assumes "relo_effects b ob relos st st'" and "ss_requirements st = Some r"
  shows "\<exists>r'. ss_requirements st' = Some r'
    \<and> req_roots r' = req_roots r \<union> unat ` (\<Union>relo \<in> set relos. base_matches b ob (relo_type_id relo))
    \<and> req_members r \<subseteq> req_members r'
    \<and> (\<forall>relo \<in> set relos. \<exists>j P. base_matches b ob (relo_type_id relo) = {j}
         \<and> relo_access b ob relo j P \<and> path_members P \<subseteq> req_members r')"
  using assms
proof (induction relos arbitrary: st r)
  case (Cons relo relos)
  then obtain st1 where one: "relo_effect b ob relo st st1" and rest: "relo_effects b ob relos st1 st'" by auto
  then obtain j P r1 where j: "base_matches b ob (relo_type_id relo) = {j}" "relo_access b ob relo j P"
    and r1: "ss_requirements st1 = Some r1" "req_roots r1 = insert (unat j) (req_roots r)"
      "req_members r1 = req_members r \<union> path_members P"
    using Cons.prems(2) by (auto simp: relo_effect_def)
  from Cons.IH [OF rest r1(1)] obtain r' where r': "ss_requirements st' = Some r'"
    "req_roots r' = req_roots r1 \<union> unat ` (\<Union>relo \<in> set relos. base_matches b ob (relo_type_id relo))"
    "req_members r1 \<subseteq> req_members r'"
    "\<forall>relo \<in> set relos. \<exists>j P. base_matches b ob (relo_type_id relo) = {j}
       \<and> relo_access b ob relo j P \<and> path_members P \<subseteq> req_members r'" by blast
  show ?case
    using r' j r1 by (intro exI [of _ r']) auto
qed simp


subsection \<open>The whole extraction\<close>

lemma no_ext_info_ok: "info_ok raw n no_ext_info"
  by (simp add: info_ok_def no_ext_info_def)

lemma extract_core_relo_unfold:
  assumes size: "length raw < 2 ^ 32" and head: "32 \<le> length raw"
    and magic: "hdr_magic header = 0xEB9F" "hdr_version header = 1"
    and len: "\<not> hdr_len header < 32" "\<not> hdr_len header > of_nat (length raw)" "core_relo_len header \<noteq> 0"
    and header: "read_header raw = Some header"
    and ext: "ext_little_endian ext = host_is_little_endian" "ext_raw ext = Some raw"
    and infos: "init_ext_info raw (of_nat (length raw)) (hdr_len header) (core_relo_off header)
        (core_relo_len header) 16 ''CO-RE relocation'' path True err = Some (Inr core_info)"
      "init_ext_info raw (of_nat (length raw)) (hdr_len header) (func_info_off header)
        (func_info_len header) 8 ''function info'' path False err = Some (Inr func_info)"
      "init_ext_info raw (of_nat (length raw)) (hdr_len header) (line_info_off header)
        (line_info_len header) 16 ''line info'' path False err = Some (Inr line_info)"
  shows "mch_extract_core_relo_seeds_with_requirements idx ob (Some ext) path err st
    = bind_outcome (sections_loop
        \<lparr>rw_index = idx, rw_object = ob, rw_raw = raw, rw_core = core_info, rw_func = func_info,
         rw_line = line_info, rw_path = path\<rparr> err (info_pos core_info) st)
        (\<lambda>(pos, st'). if pos \<noteq> info_end core_info
           then Some (Inl (ext_error path ''CO-RE relocation section has trailing bytes'' err))
           else Some (Inr st'))"
proof -
  have "\<not> (of_nat (length raw) :: u32) < 32"
    using size head unat_of_nat_small [of "length raw", where 'a = 32] by (simp add: word_less_nat_alt)
  then show ?thesis
    unfolding mch_extract_core_relo_seeds_with_requirements_def option.case
    using magic len header ext infos by simp
qed


text \<open>The relocations that the bytes of a \<^verbatim>\<open>.BTF.ext\<close> section hold.\<close>

definition ext_relocations :: "u8 list \<Rightarrow> bpf_core_relo list \<Rightarrow> bool" where
  "ext_relocations raw relos \<longleftrightarrow>
     (\<exists>header. read_header raw = Some header
        \<and> (if core_relo_len header = 0 then relos = []
           else let start = unat (hdr_len header) + unat (core_relo_off header)
                in \<exists>secs. sections raw (unat (u32_at raw start)) (start + unat (core_relo_len header))
                       (start + 4) secs \<and> relos = concat (map snd secs)))"

definition relo_extraction ::
    "btf \<Rightarrow> btf \<Rightarrow> btf_ext option \<Rightarrow> seed_state \<Rightarrow> seed_state \<Rightarrow> bool" where
  "relo_extraction b ob object_ext st st' \<longleftrightarrow> seed_invar b st'
     \<and> (case object_ext of None \<Rightarrow> st' = st
        | Some ext \<Rightarrow> \<exists>relos. ext_relocations (the (ext_raw ext)) relos \<and> relo_effects b ob relos st st')"

lemma extract_core_relo_result:
  assumes idx: "index_for b idx" and inv: "seed_invar b st"
    and size: "\<And>ext raw. object_ext = Some ext \<Longrightarrow> ext_raw ext = Some raw \<Longrightarrow> length raw < 2 ^ 32"
  shows "\<exists>r. mch_extract_core_relo_seeds_with_requirements idx ob object_ext path err st = Some r
    \<and> (\<forall>st'. r = Inr st' \<longrightarrow> relo_extraction b ob object_ext st st')"
proof (cases object_ext)
  case None
  then show ?thesis
    using inv by (simp add: mch_extract_core_relo_seeds_with_requirements_def relo_extraction_def)
next
  case ext: (Some ext)
  show ?thesis
  proof (cases "ext_little_endian ext = host_is_little_endian \<and> (\<exists>raw. ext_raw ext = Some raw \<and> 32 \<le> length raw)")
    case False
    have "(of_nat (length raw) :: u32) < 32" if "ext_raw ext = Some raw" "length raw < 32" for raw
      using that unat_of_nat_small [of "length raw", where 'a = 32] by (simp add: word_less_nat_alt)
    then show ?thesis
      using False ext by (cases "ext_raw ext")
        (auto simp: mch_extract_core_relo_seeds_with_requirements_def Let_def not_le)
  next
    case True
    then obtain raw where raw: "ext_raw ext = Some raw" "32 \<le> length raw"
      and endian: "ext_little_endian ext = host_is_little_endian" by blast
    have small: "length raw < 2 ^ 32" using size ext raw by blast
    then have raw_size: "unat (of_nat (length raw) :: u32) = length raw" by (intro unat_of_nat_small) simp
    then have not_short: "\<not> (of_nat (length raw) :: u32) < 32" using raw(2) by (simp add: word_less_nat_alt)
    obtain header where header: "read_header raw = Some header"
      using raw(2) by (simp add: read_header_def copy_at_def)
    note code = mch_extract_core_relo_seeds_with_requirements_def [of idx ob object_ext path err st,
        unfolded ext option.case]
    show ?thesis
    proof (cases "hdr_magic header = 0xEB9F \<and> hdr_version header = 1 \<and> \<not> hdr_len header < 32
        \<and> \<not> hdr_len header > of_nat (length raw)")
      case False
      then consider "hdr_magic header \<noteq> 0xEB9F" | "hdr_magic header = 0xEB9F" "hdr_version header \<noteq> 1"
        | "hdr_magic header = 0xEB9F" "hdr_version header = 1"
            "hdr_len header < 32 \<or> hdr_len header > of_nat (length raw)" by blast
      then show ?thesis
        using ext code raw(1) endian not_short header by cases (simp_all add: Let_def)
    next
      case good: True
      show ?thesis
      proof (cases "core_relo_len header = 0")
        case True
        then have "mch_extract_core_relo_seeds_with_requirements idx ob object_ext path err st = Some (Inr st)"
          using ext code raw(1) endian not_short header good by (simp add: Let_def)
        moreover have "ext_relocations raw []" using header True by (auto simp: ext_relocations_def)
        ultimately show ?thesis
          using inv ext raw(1) by (auto simp: relo_extraction_def intro!: exI [of _ "[]"])
      next
        case nonempty: False
        let ?size = "of_nat (length raw) :: u32"
        obtain r where r: "init_ext_info raw ?size (hdr_len header) (core_relo_off header)
            (core_relo_len header) 16 ''CO-RE relocation'' path True err = Some r"
          and core: "\<And>info. r = Inr info \<Longrightarrow> info_ok raw 16 info
            \<and> info = \<lparr>info_pos = unat (hdr_len header) + unat (core_relo_off header) + 4,
                info_end = unat (hdr_len header) + unat (core_relo_off header) + unat (core_relo_len header),
                rec_size = u32_at raw (unat (hdr_len header) + unat (core_relo_off header)), present = True\<rparr>"
          using init_ext_info_ok [OF raw_size, of 16 "hdr_len header" "core_relo_off header"
              "core_relo_len header" "''CO-RE relocation''" path True err] nonempty by auto
        obtain func_info where func: "init_ext_info raw ?size (hdr_len header) (func_info_off header)
            (func_info_len header) 8 ''function info'' path False err = Some (Inr func_info)" "info_ok raw 8 func_info"
          using init_ext_info_ok [OF raw_size, of 8 "hdr_len header" "func_info_off header"
              "func_info_len header" "''function info''" path False err] by auto
        obtain line_info where line: "init_ext_info raw ?size (hdr_len header) (line_info_off header)
            (line_info_len header) 16 ''line info'' path False err = Some (Inr line_info)" "info_ok raw 16 line_info"
          using init_ext_info_ok [OF raw_size, of 16 "hdr_len header" "line_info_off header"
              "line_info_len header" "''line info''" path False err] by auto
        show ?thesis
        proof (cases r)
          case (Inl e)
          then show ?thesis
            using ext code raw(1) endian not_short header good nonempty r by (simp add: Let_def)
        next
          case (Inr info)
          define w where "w = \<lparr>rw_index = idx, rw_object = ob, rw_raw = raw, rw_core = info,
            rw_func = func_info, rw_line = line_info, rw_path = path\<rparr>"
          have info: "info_ok raw 16 info" "present info" using core [OF Inr] by (blast, simp)
          have w: "walk_ok b w" using idx info func(2) line(2) by (simp add: walk_ok_def w_def)
          have unfold: "mch_extract_core_relo_seeds_with_requirements idx ob object_ext path err st
              = bind_outcome (sections_loop w err (info_pos info) st) (\<lambda>(pos, st'). if pos \<noteq> info_end info
                  then Some (Inl (ext_error path ''CO-RE relocation section has trailing bytes'' err))
                  else Some (Inr st'))"
            unfolding ext w_def
            by (rule extract_core_relo_unfold [OF small raw(2) _ _ _ _ nonempty header endian raw(1)
                  r [unfolded Inr] func(1) line(1)]) (use good in auto)
          obtain r2 where r2: "sections_loop w err (info_pos info) st = Some r2"
            using sections_loop_returns [OF w] by blast
          have "relo_extraction b ob object_ext st st'" if done2: "r2 = Inr (info_end info, st')" for st'
          proof -
            have "info_pos info \<le> info_end (rw_core w)" using core_bounds(3) [OF w] by (simp add: w_def)
            from sections_loop_Inr [OF w inv r2 [unfolded done2] this] obtain secs where
              "seed_invar b st'" "sections raw (unat (rec_size info)) (info_end info) (info_pos info) secs"
              "relo_effects b ob (concat (map snd secs)) st st'" by (auto simp: w_def)
            then show ?thesis
              using core [OF Inr] header nonempty ext raw(1)
              by (auto simp: relo_extraction_def ext_relocations_def Let_def)
          qed
          then show ?thesis using unfold r2 by (cases r2) auto
        qed
      qed
    qed
  qed
qed

end
