(* ===== verification/Pipeline.thy ===== *)
theory Pipeline
  imports Output_File Cli Core_Relo
begin

text \<open>
  \<^verbatim>\<open>main\<close> of \<^verbatim>\<open>src/main.c\<close>: the components one after the other. The stages up to the output write only to
  \<^verbatim>\<open>stderr\<close>; each returns what it has written there and its result. The world the program runs in is the record
  \<open>world\<close>: what libbpf answers for the input files, what the operating system answers, and the state of the standard
  streams.
\<close>

subsection \<open>Results with a log\<close>

type_synonym 'a logged = "(string \<times> 'a result) option"

definition bind_logged :: "'a logged \<Rightarrow> ('a \<Rightarrow> 'b logged) \<Rightarrow> 'b logged" where
  "bind_logged m f =
     (case m of
        None \<Rightarrow> None
      | Some (log, Inl e) \<Rightarrow> Some (log, Inl e)
      | Some (log, Inr x) \<Rightarrow> map_option (\<lambda>(log', r). (log @ log', r)) (f x))"

definition tell :: "string \<Rightarrow> unit logged" where
  "tell text = Some (text, Inr ())"

definition quietly :: "'a outcome \<Rightarrow> 'a logged" where
  "quietly m = map_option (Pair []) m"

lemma bind_logged_Inr:
  "bind_logged m f = Some (log, Inr y) \<longleftrightarrow>
     (\<exists>log1 x log2. m = Some (log1, Inr x) \<and> f x = Some (log2, Inr y) \<and> log = log1 @ log2)"
  by (auto simp: bind_logged_def split: option.splits sum.splits)

lemma bind_tell: "bind_logged (tell text) f = map_option (\<lambda>(log, r). (text @ log, r)) (f ())"
  by (simp add: bind_logged_def tell_def)

lemma quietly_Inr: "quietly m = Some (log, Inr x) \<longleftrightarrow> log = [] \<and> m = Some (Inr x)"
  by (auto simp: quietly_def)

lemma bind_logged_returns:
  "\<exists>r. m = Some r \<Longrightarrow> (\<And>log x. m = Some (log, Inr x) \<Longrightarrow> \<exists>r. f x = Some r) \<Longrightarrow> \<exists>r. bind_logged m f = Some r"
  by (fastforce simp: bind_logged_def split: sum.split)

lemma quietly_returns: "\<exists>r. m = Some r \<Longrightarrow> \<exists>r. quietly m = Some r"
  by (auto simp: quietly_def)

subsection \<open>The code\<close>

record world =
  w_base :: "string \<Rightarrow> btf option \<times> int \<times> int"
  w_object :: "string \<Rightarrow> btf option \<times> btf_ext option \<times> int \<times> int"
  w_os :: os
  w_stdout_fails :: "string \<Rightarrow> bool"
  w_stderr_fails :: bool
  w_versions :: versions

text \<open>\<^verbatim>\<open>if (!opts.quiet && opts.verbose > level) fprintf (stderr, ...)\<close>\<close>

definition say :: "mch_cli_options \<Rightarrow> int \<Rightarrow> string \<Rightarrow> string" where
  "say opts level line = (if \<not> cl_quiet opts \<and> cl_verbose opts > level then line @ newline else [])"

text \<open>What the loop over the objects updates.\<close>

record work =
  wk_required :: mch_type_set
  wk_requirements :: mch_requirements
  wk_total :: mch_seed_stats
  wk_heap :: heap

definition add_stats :: "mch_seed_stats \<Rightarrow> mch_seed_stats \<Rightarrow> mch_seed_stats" where
  "add_stats sums stats =
     \<lparr>seed_candidates = seed_candidates sums + seed_candidates stats,
      kernel_types = kernel_types sums + kernel_types stats,
      program_local_types = program_local_types sums + program_local_types stats,
      core_relocations = core_relocations sums + core_relocations stats,
      core_kernel_types = core_kernel_types sums + core_kernel_types stats\<rparr>"

definition object_line :: "string \<Rightarrow> mch_seed_stats \<Rightarrow> string" where
  "object_line path stats = path @ '': '' @ show_u (seed_candidates stats) @ '' seed candidates, ''
     @ show_u (kernel_types stats) @ '' kernel matches, '' @ show_u (program_local_types stats) @ '' program-local, ''
     @ show_u (core_relocations stats) @ '' CO-RE relos, '' @ show_u (core_kernel_types stats) @ '' CO-RE roots''"

definition work_seeds :: "work \<Rightarrow> seed_state" where
  "work_seeds wk = \<lparr>ss_seeds = wk_required wk, ss_requirements = Some (wk_requirements wk),
     ss_stats = mch_seed_stats_init, ss_heap = wk_heap wk\<rparr>"

definition process_object ::
    "world \<Rightarrow> mch_cli_options \<Rightarrow> mch_btf_index \<Rightarrow> mch_error \<Rightarrow> string \<Rightarrow> work \<Rightarrow> work logged" where
  "process_object w opts idx err path wk =
     bind_logged (tell (say opts 0 (''loading object BTF: '' @ path))) (\<lambda>_.
     bind_logged (quietly (Some (mch_load_object_btf (w_object w) (os_strerror (w_os w)) path err))) (\<lambda>object.
     bind_logged (quietly (mch_extract_object_seeds_with_requirements idx (the (doc_btf object)) (Some path) err
       (work_seeds wk))) (\<lambda>st1.
     bind_logged (quietly (mch_extract_core_relo_seeds_with_requirements idx (the (doc_btf object)) (doc_ext object)
       (Some path) err st1)) (\<lambda>st2.
     bind_logged (tell (say opts 1 (object_line path (ss_stats st2)))) (\<lambda>_.
     Some ([], Inr \<lparr>wk_required = ss_seeds st2, wk_requirements = the (ss_requirements st2),
       wk_total = add_stats (wk_total wk) (ss_stats st2), wk_heap = ss_heap st2\<rparr>))))))"

fun process_objects ::
    "world \<Rightarrow> mch_cli_options \<Rightarrow> mch_btf_index \<Rightarrow> mch_error \<Rightarrow> string list \<Rightarrow> work \<Rightarrow> work logged" where
  "process_objects w opts idx err [] wk = Some ([], Inr wk)"
| "process_objects w opts idx err (path # paths) wk =
     bind_logged (process_object w opts idx err path wk) (process_objects w opts idx err paths)"

text \<open>The sets for a base of \<open>n\<close> types.\<close>

definition prepare_sets :: "size_t \<Rightarrow> mch_error \<Rightarrow> heap \<Rightarrow> (mch_type_set \<times> mch_requirements \<times> heap) result" where
  "prepare_sets n err h =
     (let (rc, required, h1) = mch_type_set_init n h
      in if rc \<noteq> 0 then Inl (mch_error_set ''out of memory while preparing required type set'' err)
         else let (rc, requirements, h2) = mch_requirements_init n h1
              in if rc \<noteq> 0 then Inl (mch_error_set ''out of memory while preparing requirements'' err)
                 else Inr (required, requirements, h2))"

text \<open>From the message on the base BTF to the allocation of the sets.\<close>

definition prepare :: "world \<Rightarrow> mch_cli_options \<Rightarrow> mch_error \<Rightarrow> heap \<Rightarrow> (btf \<times> mch_btf_index \<times> work) logged" where
  "prepare w opts err h =
     bind_logged (tell (say opts 0 (''loading base BTF: '' @ the (cl_btf_path opts)))) (\<lambda>_.
     bind_logged (quietly (Some (mch_load_base_btf (w_base w) (os_strerror (w_os w)) (the (cl_btf_path opts)) err)))
       (\<lambda>base :: unit mch_btf_doc.
     let b = the (doc_btf base) in
     bind_logged (quietly (mch_btf_index_init b err h)) (\<lambda>(idx, h1).
     bind_logged (quietly (Some (prepare_sets (ucast (type_cnt b)) err h1))) (\<lambda>(required, requirements, h2).
     Some ([], Inr (b, idx, \<lparr>wk_required = required, wk_requirements = requirements,
            wk_total = mch_seed_stats_init, wk_heap = h2\<rparr>))))))"

definition closure_options :: "mch_cli_options \<Rightarrow> work \<Rightarrow> mch_closure_options" where
  "closure_options opts wk =
     \<lparr>expand_pointers = cl_expand_pointers opts, co_requirements = Some (wk_requirements wk)\<rparr>"

text \<open>Everything before the output.\<close>

definition analyse ::
    "world \<Rightarrow> mch_cli_options \<Rightarrow> mch_error \<Rightarrow> heap \<Rightarrow> (btf \<times> work \<times> mch_closure_stats) logged" where
  "analyse w opts err h =
     bind_logged (prepare w opts err h) (\<lambda>(b, idx, wk0).
     bind_logged (process_objects w opts idx err (cl_objects opts) wk0) (\<lambda>wk.
     bind_logged (tell (say opts 0 ''computing dependency closure'')) (\<lambda>_.
     bind_logged (quietly (mch_compute_dependency_closure_with_options b (wk_required wk) mch_closure_stats_init
       (Some (closure_options opts wk)) err (wk_heap wk))) (\<lambda>(required, stats, h').
     Some ([], Inr (b, wk\<lparr>wk_required := required, wk_heap := h'\<rparr>, stats))))))"

text \<open>The result is the return code, the error record, the files and what \<^verbatim>\<open>stdout\<close> holds.\<close>

definition write_output ::
    "world \<Rightarrow> nat \<Rightarrow> mch_cli_options \<Rightarrow> btf \<Rightarrow> work \<Rightarrow> mch_error \<Rightarrow> files
      \<Rightarrow> (bool \<times> mch_error \<times> files \<times> string) option" where
  "write_output w n opts b wk err fs =
     (let options = Some \<lparr>eo_requirements = Some (wk_requirements wk)\<rparr>
      in case cl_output_path opts of
           Some path \<Rightarrow>
             map_option (\<lambda>(ok, e, h, fs'). (ok, e, fs', []))
               (write_header_to_path (w_os w) n path b (wk_required wk) options err (wk_heap wk) fs)
         | None \<Rightarrow>
             map_option (\<lambda>(ok, out, e, h). (ok, e, fs, out))
               (mch_emit_header_with_options n (w_stdout_fails w) [] b (wk_required wk) options err (wk_heap wk)))"

definition stats_text :: "mch_cli_options \<Rightarrow> work \<Rightarrow> mch_closure_stats \<Rightarrow> string" where
  "stats_text opts wk closure_stats =
     (let sums = wk_total wk; rs = mch_requirements_stats (Some (wk_requirements wk)) in concat
       [''objects: '', show_u (cl_object_count opts), newline,
        ''seed candidates: '', show_u (seed_candidates sums), newline,
        ''kernel seed types: '', show_u (kernel_types sums), newline,
        ''program-local candidates: '', show_u (program_local_types sums), newline,
        ''CO-RE relocations: '', show_u (core_relocations sums), newline,
        ''CO-RE root types: '', show_u (core_kernel_types sums), newline,
        ''requirement root types: '', show_u (stat_type_roots rs), newline,
        ''required record members: '', show_u (stat_record_members rs), newline,
        ''requirement traces: '', show_u (stat_traces rs), newline,
        ''emitted required types: '', show_u (ts_selected (wk_required wk)), newline,
        ''closure additions: '', show_u (added_types closure_stats), newline])"

definition explanation ::
    "world \<Rightarrow> mch_cli_options \<Rightarrow> btf \<Rightarrow> work \<Rightarrow> mch_error \<Rightarrow> string \<times> mch_error option" where
  "explanation w opts b wk err =
     (if cl_explain opts then mch_requirements_write_explanation (w_stderr_fails w) b (wk_requirements wk) err
      else ([], None))"

record program_exit =
  exit_code :: int
  to_stdout :: string
  to_stderr :: string
  files_after :: files

text \<open>From the output to the end of \<^verbatim>\<open>main\<close>.\<close>

definition finish ::
    "world \<Rightarrow> nat \<Rightarrow> mch_cli_options \<Rightarrow> string \<Rightarrow> btf \<Rightarrow> work \<Rightarrow> mch_closure_stats \<Rightarrow> mch_error \<Rightarrow> files
      \<Rightarrow> program_exit option" where
  "finish w n opts log b wk stats err fs =
     (case write_output w n opts b wk err fs of
        None \<Rightarrow> None
      | Some (ok, e, fs', out) \<Rightarrow> Some
          (if \<not> ok then
             \<lparr>exit_code = 1, to_stdout = out, to_stderr = log @ mch_error_print e, files_after = fs'\<rparr>
           else case explanation w opts b wk e of
             (witness, Some e') \<Rightarrow>
               \<lparr>exit_code = 1, to_stdout = out, to_stderr = log @ witness @ mch_error_print e', files_after = fs'\<rparr>
           | (witness, None) \<Rightarrow>
               \<lparr>exit_code = 0, to_stdout = out,
                to_stderr = log @ witness @ (if cl_stats opts then stats_text opts wk stats else []),
                files_after = fs'\<rparr>))"

definition main_program :: "world \<Rightarrow> nat \<Rightarrow> string list \<Rightarrow> heap \<Rightarrow> files \<Rightarrow> program_exit option" where
  "main_program w n argv h fs =
     (case mch_cli_parse argv mch_cli_options_init mch_error_clear h of
        Inl e \<Rightarrow> Some \<lparr>exit_code = 2, to_stdout = [], to_stderr = mch_error_print e, files_after = fs\<rparr>
      | Inr (opts, h1) \<Rightarrow>
          if cl_help opts then
            Some \<lparr>exit_code = 0, to_stdout = mch_cli_print_help (case argv of [] \<Rightarrow> None | prog # _ \<Rightarrow> Some prog),
              to_stderr = [], files_after = fs\<rparr>
          else if cl_version opts then
            Some \<lparr>exit_code = 0, to_stdout = mch_cli_print_version (w_versions w), to_stderr = [], files_after = fs\<rparr>
          else
            (case analyse w opts mch_error_clear h1 of
               None \<Rightarrow> None
             | Some (log, Inl e) \<Rightarrow>
                 Some \<lparr>exit_code = 1, to_stdout = [], to_stderr = log @ mch_error_print e, files_after = fs\<rparr>
             | Some (log, Inr (b, wk, stats)) \<Rightarrow> finish w n opts log b wk stats mch_error_clear fs))"

end
