(* ===== verification/Emit_Depth.thy ===== *)
theory Emit_Depth
  imports Emit_Result
begin

text \<open>
  The bound on the depth of the walk. A larger bound does not change a result, and when neither the
  declarations nor the dependencies go round in a circle a bound that only depends on the number of
  types is enough, so the emitter returns. On a circle of arrays and typedefs it never does.
\<close>

subsection \<open>A larger bound\<close>

lemma extends_reading [extends_intros]:
  "(\<And>st. extends (f st) (g st)) \<Longrightarrow> extends (reading f) (reading g)"
  by (simp add: extends_def reading_def)

lemma extends_nothing [extends_intros]: "extends no_result f"
  by (simp add: extends_def no_result_def)

lemma extends_run_map [extends_intros]:
  "(\<And>x. extends (f x) (g x)) \<Longrightarrow> extends (run_all (map f xs)) (run_all (map g xs))"
  by (intro extends_run_all extends_map)

lemma extends_if: "(c \<Longrightarrow> extends f f') \<Longrightarrow> (\<not> c \<Longrightarrow> extends g g')
    \<Longrightarrow> extends (if c then f else g) (if c then f' else g')"
  by simp

lemma extends_decl_Suc: "extends (emit_decl b rq n i d) (emit_decl b rq (Suc n) i d)"
  unfolding emit_decl_def by (rule extends_decl_ex_Suc)

lemma walk_extends_Suc:
  "extends (emit_typedef_definition b rq n i) (emit_typedef_definition b rq (Suc n) i)"
  "extends (emit_record_definition b rq n i) (emit_record_definition b rq (Suc n) i)"
  "extends (emit_soft_deps b rq n i) (emit_soft_deps b rq (Suc n) i)"
  "extends (emit_hard_deps b rq n i) (emit_hard_deps b rq (Suc n) i)"
proof (induction n arbitrary: i)
  case 0
  {
    case 1
    show ?case by (simp only: emit_typedef_definition.simps(1) extends_nothing)
  next
    case 2
    show ?case by (simp only: emit_record_definition.simps(1) extends_nothing)
  next
    case 3
    show ?case by (simp only: emit_soft_deps.simps(1) extends_nothing)
  next
    case 4
    show ?case by (simp only: emit_hard_deps.simps(1) extends_nothing)
  }
next
  case (Suc n)
  note rules = extends_with_type extends_if extends_reading extends_after extends_run_all extends_refl list.rel_intros
    extends_run_map extends_record_body extends_decl_ex_Suc extends_decl_Suc Suc.IH extends_map
  {
    case 1
    show ?case unfolding emit_typedef_definition.simps(2) [of b rq n i] emit_typedef_definition.simps(2) [of b rq "Suc n" i]
      by (intro rules)
  next
    case 2
    show ?case unfolding emit_record_definition.simps(2) [of b rq n i] emit_record_definition.simps(2) [of b rq "Suc n" i]
      by (intro rules)
  next
    case 3
    show ?case unfolding emit_soft_deps.simps(2) [of b rq n i] emit_soft_deps.simps(2) [of b rq "Suc n" i]
      by (intro rules) (auto split: btf_kind.split intro!: rules simp del: run_all.simps)
  next
    case 4
    show ?case unfolding emit_hard_deps.simps(2) [of b rq n i] emit_hard_deps.simps(2) [of b rq "Suc n" i]
      by (intro rules) (auto split: btf_kind.split intro!: rules simp del: run_all.simps)
  }
qed

lemma extends_leq:
  assumes "\<And>n. extends (f n) (f (Suc n))" and "n \<le> m"
  shows "extends (f n) (f m)"
  using assms(2)
proof (induction m rule: dec_induct)
  case (step m)
  then show ?case using assms(1) [of m] by (simp add: extends_def)
qed (rule extends_refl)

lemma extends_groups_text:
  assumes "n \<le> m"
  shows "extends (emit_groups_text b rq n g) (emit_groups_text b rq m g)"
proof -
  have typedefs: "extends (emit_typedef_definition b rq n i) (emit_typedef_definition b rq m i)" for i
    by (rule extends_leq [where f = "\<lambda>n. emit_typedef_definition b rq n i", OF walk_extends_Suc(1) assms])
  have records: "extends (emit_record_definition b rq n i) (emit_record_definition b rq m i)" for i
    by (rule extends_leq [where f = "\<lambda>n. emit_record_definition b rq n i", OF walk_extends_Suc(2) assms])
  have same: "list_all2 extends fs fs" for fs by (simp add: list_all2_conv_all_nth extends_refl)
  show ?thesis
    unfolding emit_groups_text_def
    by (intro extends_run_all list_all2_appendI same extends_map typedefs records)
qed

lemma header_deeper:
  assumes "n \<le> m" and "mch_emit_header_with_options n ferror out b s options err h = Some r"
  shows "mch_emit_header_with_options m ferror out b s options err h = Some r"
proof -
  have "emit_with_states m ferror b s rq ctx h = Some r"
    if run: "emit_with_states n ferror b s rq ctx h = Some r" for rq ctx h
    using run extends_groups_text [OF assms(1), of b rq]
    by (auto simp: emit_with_states_def extends_def split: sum.splits prod.splits option.splits if_splits)
  then show ?thesis using assms(2) by (auto simp: header_run split: if_splits)
qed

subsection \<open>Enough depth\<close>

text \<open>The typedefs and records that have not been opened.\<close>

definition untouched :: "btf \<Rightarrow> emit_ctx \<Rightarrow> item set" where
  "untouched b st = {x. \<not> is_forward x \<and> item_id x < type_cnt b \<and> \<not> printed b st x \<and> \<not> pending b st x}"

lemma finite_untouched: "finite (untouched b st)" and card_untouched: "card (untouched b st) \<le> 2 * unat (type_cnt b)"
proof -
  let ?ids = "{i. i < type_cnt b}"
  have "x \<in> Typedef_Of ` ?ids \<union> Record_Of ` ?ids" if "x \<in> untouched b st" for x
    using that by (cases x) (auto simp: untouched_def is_forward_def)
  then have sub: "untouched b st \<subseteq> Typedef_Of ` ?ids \<union> Record_Of ` ?ids" by blast
  have fin: "finite (Typedef_Of ` ?ids \<union> Record_Of ` ?ids)" by (simp add: card_below(1))
  show "finite (untouched b st)" by (rule finite_subset [OF sub fin])
  have "card (untouched b st) \<le> card (Typedef_Of ` ?ids \<union> Record_Of ` ?ids)" by (rule card_mono [OF fin sub])
  also have "\<dots> \<le> card (Typedef_Of ` ?ids) + card (Record_Of ` ?ids)" by (rule card_Un_le)
  also have "\<dots> \<le> card ?ids + card ?ids" by (intro add_mono card_image_le card_below(1))
  also have "\<dots> \<le> 2 * unat (type_cnt b)" using card_below(2) [of "type_cnt b"] by simp
  finally show "card (untouched b st) \<le> 2 * unat (type_cnt b)" .
qed

lemma untouched_err [simp]: "untouched b (st\<lparr>ec_err := e\<rparr>) = untouched b st"
  by (simp add: untouched_def)

lemma emits_untouched: "emits b rq N st xs st' \<Longrightarrow> card (untouched b st') \<le> card (untouched b st)"
  by (rule card_mono [OF finite_untouched]) (auto simp: emits_def untouched_def)

definition returns_at :: "btf \<Rightarrow> nat \<Rightarrow> emitter \<Rightarrow> bool" where
  "returns_at b U f \<longleftrightarrow> (\<forall>st. ctx_ok b st \<longrightarrow> card (untouched b st) \<le> U \<longrightarrow> f st \<noteq> None)"

lemma returns_atI: "(\<And>st. ctx_ok b st \<Longrightarrow> card (untouched b st) \<le> U \<Longrightarrow> f st \<noteq> None) \<Longrightarrow> returns_at b U f"
  by (simp add: returns_at_def)

lemma returns_atD: "returns_at b U f \<Longrightarrow> ctx_ok b st \<Longrightarrow> card (untouched b st) \<le> U \<Longrightarrow> f st \<noteq> None"
  by (simp add: returns_at_def)

lemma returns_at_always: "returns f \<Longrightarrow> returns_at b U f"
  by (simp add: returns_at_def returns_def)

lemma returns_at_with_type:
  "(\<And>t. known_type b i = Some t \<Longrightarrow> returns_at b U (f t)) \<Longrightarrow> returns_at b U (with_type b i f)"
  by (auto simp: returns_at_def with_type_def after_def emit_type_by_id_def known_type_def failure_def not_le
      split: option.split)

text \<open>Steps after which no item is untouched that was not before.\<close>

definition keeps :: "btf \<Rightarrow> emitter \<Rightarrow> bool" where
  "keeps b f \<longleftrightarrow> (\<forall>st st'. ctx_ok b st \<longrightarrow> f st = Some (True, st') \<longrightarrow>
     ctx_ok b st' \<and> card (untouched b st') \<le> card (untouched b st))"

lemma keeps_prints: "prints b rq N R f \<Longrightarrow> keeps b f"
  unfolding keeps_def using emits_untouched by (metis emits_def printsE)

lemma keeps_writes: "writes f s \<Longrightarrow> keeps b f"
  by (auto simp: keeps_def untouched_def writes_state)

lemma returns_at_cons:
  assumes "returns_at b U f" and "keeps b f" and "returns_at b U (run_all fs)"
  shows "returns_at b U (run_all (f # fs))"
proof (rule returns_atI)
  fix st
  assume st: "ctx_ok b st" "card (untouched b st) \<le> U"
  obtain ok st1 where f: "f st = Some (ok, st1)" using returns_atD [OF assms(1) st] by auto
  show "run_all (f # fs) st \<noteq> None"
  proof (cases ok)
    case True
    then have "ctx_ok b st1" "card (untouched b st1) \<le> U"
      using assms(2) f st unfolding keeps_def by fastforce+
    then show ?thesis using returns_atD [OF assms(3)] f True by simp
  qed (simp add: f)
qed

lemma returns_at_all:
  "\<forall>f \<in> set fs. returns_at b U f \<and> keeps b f \<Longrightarrow> returns_at b U (run_all fs)"
proof (induction fs)
  case (Cons f fs)
  then show ?case by (intro returns_at_cons) simp_all
qed (simp add: returns_at_def)

lemma returns_at_map:
  assumes "\<And>x. x \<in> set xs \<Longrightarrow> returns_at b U (f x)" and "\<And>x. x \<in> set xs \<Longrightarrow> prints b rq N (R x) (f x)"
  shows "returns_at b U (run_all (map f xs))"
  using assms keeps_prints [OF assms(2)] by (intro returns_at_all) auto

text \<open>Opening an item leaves one item less.\<close>

lemma item_returns:
  assumes st: "ctx_ok b st" "y \<in> untouched b st"
    and deps: "returns_at b (card (untouched b st) - 1) deps" and tail: "returns (run_all fs)"
  shows "run_all (set_item y 1 # deps # fs) st \<noteq> None"
proof -
  have y: "item_id y < type_cnt b" "\<not> is_forward y" using st(2) by (simp_all add: untouched_def)
  obtain st1 where st1: "set_item y 1 st = Some (True, st1)"
    by (cases y) (simp_all add: set_fwd_state_def set_typedef_state_def set_record_state_def)
  have one: "(1 :: u8) = 1 \<or> (1 :: u8) = 2" by simp
  note effect = set_item_effect [OF st1 st(1) y one]
  have "untouched b st1 \<subseteq> untouched b st - {y}" using effect(3,4) by (auto simp: untouched_def)
  then have "card (untouched b st1) \<le> card (untouched b st - {y})"
    by (intro card_mono) (simp_all add: finite_untouched)
  then have "card (untouched b st1) \<le> card (untouched b st) - 1"
    using st(2) by (simp add: finite_untouched)
  then obtain ok st2 where "deps st1 = Some (ok, st2)" using returns_atD [OF deps effect(1)] by auto
  then show ?thesis using st1 tail by (cases ok) (auto simp: returns_def)
qed

lemma returns_set_item: "returns (set_record_state i v)" "returns (set_typedef_state i v)" "returns (set_fwd_state i v)"
  by (simp_all add: returns_def set_record_state_def set_typedef_state_def set_fwd_state_def)

lemma returns_reading: "(\<And>st. returns (f st)) \<Longrightarrow> returns (reading f)"
  by (simp add: returns_def reading_def)

lemma returns_forward: "returns (emit_forward_decl b i)"
  unfolding emit_forward_decl_def
  by (auto intro!: returns_with_type returns_reading returns_intros returns_set_item simp: Let_def)

text \<open>
  The depth that is enough: each level of opened items takes at most the length of a chain of
  hard dependencies, of one of soft ones and a constant; the last level takes the depth of a declaration.
\<close>

definition level_depth :: "nat \<Rightarrow> nat \<Rightarrow> nat" where
  "level_depth C U = (2 * C + 3) * U + C + 3"

lemma level_depth_less: "U < V \<Longrightarrow> level_depth C U + 2 * C + 3 \<le> level_depth C V"
proof -
  assume "U < V"
  then obtain k where "V = Suc (U + k)" using less_iff_Suc_add by auto
  then show ?thesis by (simp add: level_depth_def algebra_simps)
qed

lemma returns_decl_at:
  assumes "acyclic (decl_edges b rq)" and "unat (type_cnt b) < n"
  shows "returns (emit_decl b rq n i d)" "returns (emit_record_body (emit_decl_ex b rq n) b rq i t)"
  unfolding emit_decl_def by (intro returns_record_body decl_ex_acyclic assms)+

lemma typedef_returns:
  assumes decl: "acyclic (decl_edges b rq)" "unat (type_cnt b) < n"
    and hard: "\<And>V i. V < U \<Longrightarrow> returns_at b V (emit_hard_deps b rq n i)"
    and soft: "\<And>V i. V < U \<Longrightarrow> returns_at b V (emit_soft_deps b rq n i)"
  shows "returns_at b U (emit_typedef_definition b rq (Suc n) i)"
  unfolding emit_typedef_definition.simps(2)
proof (intro returns_at_with_type)
  fix t
  assume t: "known_type b i = Some t"
  let ?deps = "after (typedef_target_needs_hard_deps b (size_or_type t))
      (\<lambda>hard. if hard then emit_hard_deps b rq n (size_or_type t) else emit_soft_deps b rq n (size_or_type t))"
  let ?tail = "[put ''typedef '', emit_decl b rq n (size_or_type t) (mch_btf_type_name b t),
      put ('';'' @ newline @ newline), set_typedef_state i 2]"
  let ?g = "\<lambda>st. if ec_typedef_state st ! unat i = 2 then success
      else if ec_typedef_state st ! unat i = 1 then fail_with (''typedef dependency cycle at type id '' @ show_u i)
      else if mch_btf_type_name b t = [] then success else run_all (set_typedef_state i 1 # ?deps # ?tail)"
  have deps: "returns_at b V ?deps" if "V < U" for V
  proof (rule returns_atI)
    fix st
    assume st: "ctx_ok b st" "card (untouched b st) \<le> V"
    obtain x e where x: "\<And>st. typedef_target_needs_hard_deps b (size_or_type t) st = (x, st\<lparr>ec_err := e (ec_err st)\<rparr>)"
      using error_only_hard_target [of b "size_or_type t"] unfolding error_only_def by blast
    show "?deps st \<noteq> None"
      using st returns_atD [OF hard [OF that]] returns_atD [OF soft [OF that]] by (simp add: after_def x)
  qed
  have tail: "returns (run_all ?tail)"
    using returns_decl_at(1) [OF decl] by (simp add: returns_run_all returns_basic returns_set_item del: run_all.simps)
  have "reading ?g st \<noteq> None" if st: "ctx_ok b st" "card (untouched b st) \<le> U" for st
  proof (cases "ec_typedef_state st ! unat i = 2 \<or> ec_typedef_state st ! unat i = 1 \<or> mch_btf_type_name b t = []")
    case True
    then show ?thesis by (auto simp: reading_def success_def fail_with_def)
  next
    case False
    then have y: "Typedef_Of i \<in> untouched b st"
      using known_type_some [OF t] by (simp add: untouched_def is_forward_def)
    then have "0 < card (untouched b st)" using finite_untouched by (auto simp: card_gt_0_iff)
    then have "card (untouched b st) - 1 < U" using st(2) by simp
    from item_returns [OF st(1) y deps [OF this] tail] False show ?thesis by (simp add: reading_def)
  qed
  then show "returns_at b U (if kind t \<noteq> BTF_KIND_TYPEDEF then success else reading ?g)"
    by (auto simp: returns_at_def success_def)
qed

lemma record_returns:
  assumes decl: "acyclic (decl_edges b rq)" "unat (type_cnt b) < n"
    and hard: "\<And>V i. V < U \<Longrightarrow> returns_at b V (emit_hard_deps b rq n i)"
  shows "returns_at b U (emit_record_definition b rq (Suc n) i)"
  unfolding emit_record_definition.simps(2)
proof (intro returns_at_with_type)
  fix t
  assume t: "known_type b i = Some t"
  let ?deps = "run_all (map (\<lambda>j. emit_hard_deps b rq n j) (shown_members rq i t))"
  let ?tail = "[put ((if kind t = BTF_KIND_STRUCT then ''struct'' else ''union'') @ '' '' @ mch_btf_type_name b t),
      emit_record_body (emit_decl_ex b rq n) b rq i t, put ('';'' @ newline @ newline), set_record_state i 2]"
  let ?g = "\<lambda>st. if ec_record_state st ! unat i = 2 then success
      else if ec_record_state st ! unat i = 1 then success else run_all (set_record_state i 1 # ?deps # ?tail)"
  have deps: "returns_at b V ?deps" if "V < U" for V
    using that hard walk_prints(4) [OF order_refl] by (intro returns_at_map)
  have tail: "returns (run_all ?tail)"
    using returns_decl_at(2) [OF decl] by (simp add: returns_run_all returns_basic returns_set_item del: run_all.simps)
  have "reading ?g st \<noteq> None" if st: "ctx_ok b st" "card (untouched b st) \<le> U" for st
  proof (cases "ec_record_state st ! unat i = 2 \<or> ec_record_state st ! unat i = 1")
    case True
    then show ?thesis by (auto simp: reading_def success_def)
  next
    case False
    then have y: "Record_Of i \<in> untouched b st"
      using known_type_some [OF t] by (simp add: untouched_def is_forward_def)
    then have "0 < card (untouched b st)" using finite_untouched by (auto simp: card_gt_0_iff)
    then have "card (untouched b st) - 1 < U" using st(2) by simp
    from item_returns [OF st(1) y deps [OF this] tail] False show ?thesis by (simp add: reading_def)
  qed
  then show "returns_at b U (if \<not> is_named_record b t then success else reading ?g)"
    by (auto simp: returns_at_def success_def)
qed

definition soft_edges :: "btf \<Rightarrow> (u32 \<times> u32) set" where
  "soft_edges b = {(i, j). i \<noteq> 0 \<and> (\<exists>t. known_type b i = Some t \<and> j \<in> set (soft_targets t))}"

definition hard_edges :: "btf \<Rightarrow> mch_requirements option \<Rightarrow> (u32 \<times> u32) set" where
  "hard_edges b rq = {(i, j). \<exists>t. known_type b i = Some t \<and> j \<in> set (hard_targets b rq i t)}"

lemma soft_returns:
  assumes typedefs: "returns_at b U (emit_typedef_definition b rq n i)"
    and soft: "\<And>j. (i, j) \<in> soft_edges b \<Longrightarrow> returns_at b U (emit_soft_deps b rq n j)"
  shows "returns_at b U (emit_soft_deps b rq (Suc n) i)"
proof (cases "i = 0")
  case True
  then show ?thesis by (simp add: emit_soft_deps.simps(2) returns_at_always returns_basic)
next
  case False
  have targets: "returns_at b U (emit_soft_deps b rq n j)"
    if "known_type b i = Some t" "j \<in> set (soft_targets t)" for t j
    using that False by (intro soft) (auto simp: soft_edges_def)
  have proto: "returns_at b U (run_all (emit_soft_deps b rq n (size_or_type t)
        # map (\<lambda>k. emit_soft_deps b rq n (p_type (param t k))) [0..<nvlen t]))"
    if t: "known_type b i = Some t" "kind t = BTF_KIND_FUNC_PROTO" for t
  proof -
    have "returns_at b U (run_all (map (emit_soft_deps b rq n) (soft_targets t)))"
      using targets [OF t(1)] walk_prints(3) [OF order_refl] by (intro returns_at_map)
    then show ?thesis using t(2) by (simp add: soft_targets_def o_def del: run_all.simps)
  qed
  show ?thesis
    unfolding emit_soft_deps.simps(2) if_not_P [OF False]
  proof (rule returns_at_with_type)
    fix t
    assume t: "known_type b i = Some t"
    note leaves = returns_at_always [OF returns_forward] returns_at_always [OF returns_basic(1)]
    show "returns_at b U (case kind t of
             BTF_KIND_TYPEDEF \<Rightarrow> emit_typedef_definition b rq n i
           | BTF_KIND_VOLATILE \<Rightarrow> emit_soft_deps b rq n (size_or_type t)
           | BTF_KIND_CONST \<Rightarrow> emit_soft_deps b rq n (size_or_type t)
           | BTF_KIND_RESTRICT \<Rightarrow> emit_soft_deps b rq n (size_or_type t)
           | BTF_KIND_TYPE_TAG \<Rightarrow> emit_soft_deps b rq n (size_or_type t)
           | BTF_KIND_DECL_TAG \<Rightarrow> emit_soft_deps b rq n (size_or_type t)
           | BTF_KIND_PTR \<Rightarrow> emit_soft_deps b rq n (size_or_type t)
           | BTF_KIND_ARRAY \<Rightarrow> emit_soft_deps b rq n (a_type (array_of t))
           | BTF_KIND_FUNC_PROTO \<Rightarrow>
               run_all (emit_soft_deps b rq n (size_or_type t)
                 # map (\<lambda>k. emit_soft_deps b rq n (p_type (param t k))) [0..<nvlen t])
           | BTF_KIND_STRUCT \<Rightarrow> emit_forward_decl b i
           | BTF_KIND_UNION \<Rightarrow> emit_forward_decl b i
           | BTF_KIND_FWD \<Rightarrow> emit_forward_decl b i
           | _ \<Rightarrow> success)"
      using typedefs targets [OF t] proto [OF t]
      by (cases "kind t") (simp_all add: leaves soft_targets_def del: run_all.simps)
  qed
qed

lemma hard_returns:
  assumes typedefs: "returns_at b U (emit_typedef_definition b rq n i)"
    and records: "returns_at b U (emit_record_definition b rq n i)"
    and soft: "returns_at b U (emit_soft_deps b rq n i)"
    and hard: "\<And>j. (i, j) \<in> hard_edges b rq \<Longrightarrow> returns_at b U (emit_hard_deps b rq n j)"
  shows "returns_at b U (emit_hard_deps b rq (Suc n) i)"
  unfolding emit_hard_deps.simps(2)
proof (rule returns_at_with_type)
  fix t
  assume t: "known_type b i = Some t"
  let ?members = "if is_named_record b t then emit_record_definition b rq n i
      else run_all (map (\<lambda>j. emit_hard_deps b rq n j) (shown_members rq i t))"
  have targets: "returns_at b U (emit_hard_deps b rq n j)" if "j \<in> set (hard_targets b rq i t)" for j
    using that t by (intro hard) (auto simp: hard_edges_def)
  have "returns_at b U (run_all (map (\<lambda>j. emit_hard_deps b rq n j) (shown_members rq i t)))"
    if "is_record_kind (kind t)" "\<not> is_named_record b t"
    using that targets walk_prints(4) [OF order_refl]
    by (intro returns_at_map) (auto simp: hard_targets_def is_named_record_def)
  then have members: "returns_at b U ?members" if "is_record_kind (kind t)" using records that by simp
  have both: "returns_at b U (run_all [emit_hard_deps b rq n (size_or_type t), emit_typedef_definition b rq n i])"
    if "kind t = BTF_KIND_TYPEDEF"
    using that typedefs targets keeps_prints [OF walk_prints(1) [OF order_refl]]
      keeps_prints [OF walk_prints(4) [OF order_refl]]
    by (intro returns_at_all) (simp add: hard_targets_def)
  note leaves = returns_at_always [OF returns_forward] returns_at_always [OF returns_basic(1)]
  show "returns_at b U (case kind t of
         BTF_KIND_PTR \<Rightarrow> emit_soft_deps b rq n i
       | BTF_KIND_FUNC_PROTO \<Rightarrow> emit_soft_deps b rq n i
       | BTF_KIND_FWD \<Rightarrow> emit_forward_decl b i
       | BTF_KIND_ARRAY \<Rightarrow> emit_hard_deps b rq n (a_type (array_of t))
       | BTF_KIND_TYPEDEF \<Rightarrow>
           run_all [emit_hard_deps b rq n (size_or_type t), emit_typedef_definition b rq n i]
       | BTF_KIND_VOLATILE \<Rightarrow> emit_hard_deps b rq n (size_or_type t)
       | BTF_KIND_CONST \<Rightarrow> emit_hard_deps b rq n (size_or_type t)
       | BTF_KIND_RESTRICT \<Rightarrow> emit_hard_deps b rq n (size_or_type t)
       | BTF_KIND_TYPE_TAG \<Rightarrow> emit_hard_deps b rq n (size_or_type t)
       | BTF_KIND_DECL_TAG \<Rightarrow> emit_hard_deps b rq n (size_or_type t)
       | BTF_KIND_STRUCT \<Rightarrow> ?members
       | BTF_KIND_UNION \<Rightarrow> ?members
       | _ \<Rightarrow> success)"
    using soft targets members both
    by (cases "kind t") (simp_all add: leaves hard_targets_def del: run_all.simps)
qed

text \<open>The levels put together.\<close>

lemma walk_returns:
  assumes decl: "acyclic (decl_edges b rq)"
    and soft: "\<And>i j. (i, j) \<in> soft_edges b \<Longrightarrow> rs j < rs i" "\<And>i. rs i \<le> unat (type_cnt b)"
    and hard: "\<And>i j. (i, j) \<in> hard_edges b rq \<Longrightarrow> rh j < rh i" "\<And>i. rh i \<le> unat (type_cnt b)"
  shows "level_depth (unat (type_cnt b)) U \<le> n \<Longrightarrow> returns_at b U (emit_typedef_definition b rq n i)"
    and "level_depth (unat (type_cnt b)) U \<le> n \<Longrightarrow> returns_at b U (emit_record_definition b rq n i)"
    and "level_depth (unat (type_cnt b)) U + 1 + rs i \<le> n \<Longrightarrow> returns_at b U (emit_soft_deps b rq n i)"
    and "level_depth (unat (type_cnt b)) U + unat (type_cnt b) + 2 + rh i \<le> n
      \<Longrightarrow> returns_at b U (emit_hard_deps b rq n i)"
proof (induction n arbitrary: i U)
  case 0
  {
    case 1
    then show ?case by (simp add: level_depth_def)
  next
    case 2
    then show ?case by (simp add: level_depth_def)
  next
    case 3
    then show ?case by (simp add: level_depth_def)
  next
    case 4
    then show ?case by (simp add: level_depth_def)
  }
next
  case (Suc n)
  let ?C = "unat (type_cnt b)"
  have depth: "?C < n" if "level_depth ?C U \<le> Suc n" for U
    using that by (simp add: level_depth_def)
  have below: "returns_at b V (emit_hard_deps b rq n i)" "returns_at b V (emit_soft_deps b rq n i)"
    if "level_depth ?C U \<le> Suc n" "V < U" for U V i
  proof -
    have "level_depth ?C V + 2 * ?C + 2 \<le> n" using level_depth_less [OF that(2), of ?C] that(1) by simp
    then show "returns_at b V (emit_hard_deps b rq n i)" "returns_at b V (emit_soft_deps b rq n i)"
      using soft(2) [of i] hard(2) [of i] by (intro Suc.IH(4) Suc.IH(3); linarith)+
  qed
  {
    case 1
    then show ?case using decl depth below by (intro typedef_returns) blast+
  next
    case 2
    then show ?case using decl depth below by (intro record_returns) blast+
  next
    case 3
    show ?case
    proof (rule soft_returns)
      show "returns_at b U (emit_typedef_definition b rq n i)" using 3 by (intro Suc.IH(1)) simp
      show "returns_at b U (emit_soft_deps b rq n j)" if "(i, j) \<in> soft_edges b" for j
        using soft(1) [OF that] 3 by (intro Suc.IH(3)) simp
    qed
  next
    case 4
    show ?case
    proof (rule hard_returns)
      show "returns_at b U (emit_typedef_definition b rq n i)" using 4 by (intro Suc.IH(1)) simp
      show "returns_at b U (emit_record_definition b rq n i)" using 4 by (intro Suc.IH(2)) simp
      show "returns_at b U (emit_soft_deps b rq n i)" using 4 soft(2) [of i] by (intro Suc.IH(3)) simp
      show "returns_at b U (emit_hard_deps b rq n j)" if "(i, j) \<in> hard_edges b rq" for j
        using hard(1) [OF that] 4 by (intro Suc.IH(4)) simp
    qed
  }
qed

lemma edges_rank:
  assumes "acyclic r" and "\<And>i j. (i, j) \<in> r \<Longrightarrow> known_type b i \<noteq> None"
  obtains rank :: "u32 \<Rightarrow> nat" where "\<And>i j. (i, j) \<in> r \<Longrightarrow> rank j < rank i" "\<And>i. rank i \<le> unat (type_cnt b)"
proof -
  have "i < type_cnt b" if "(i, j) \<in> r" for i j
    using assms(2) [OF that] by (auto simp: known_type_def split: if_splits)
  then have "Domain r \<subseteq> {i. i < type_cnt b}" by blast
  with assms(1) card_below(1) obtain rank :: "u32 \<Rightarrow> nat"
    where "\<And>i j. (i, j) \<in> r \<Longrightarrow> rank j < rank i" and "\<And>i. rank i \<le> card {i. i < type_cnt b}"
    by (rule acyclic_rank) blast
  then show thesis using that card_below(2) [of "type_cnt b"] by (meson order_trans)
qed

lemma groups_text_returns:
  assumes "acyclic (decl_edges b rq)" and "acyclic (soft_edges b)" and "acyclic (hard_edges b rq)"
    and n: "level_depth (unat (type_cnt b)) (2 * unat (type_cnt b)) \<le> n"
    and g: "collected b g ids" and st: "ctx_ok b st"
  shows "emit_groups_text b rq n g st \<noteq> None"
proof -
  let ?U = "2 * unat (type_cnt b)"
  have src: "known_type b i \<noteq> None" if "(i, j) \<in> soft_edges b" for i j
    using that by (auto simp: soft_edges_def)
  have src': "known_type b i \<noteq> None" if "(i, j) \<in> hard_edges b rq" for i j
    using that by (auto simp: hard_edges_def)
  obtain rs where rs: "\<And>i j. (i, j) \<in> soft_edges b \<Longrightarrow> rs j < (rs i :: nat)" "\<And>i. rs i \<le> unat (type_cnt b)"
    by (rule edges_rank [OF assms(2)]) (use src in blast)+
  obtain rh where rh: "\<And>i j. (i, j) \<in> hard_edges b rq \<Longrightarrow> rh j < (rh i :: nat)" "\<And>i. rh i \<le> unat (type_cnt b)"
    by (rule edges_rank [OF assms(3)]) (use src' in blast)+
  note walk = walk_returns(1,2) [OF assms(1) rs rh n]
  have puts: "returns_at b ?U (put s) \<and> keeps b (put s)" for s
    by (simp add: returns_at_always returns_basic keeps_writes [OF writes_put])
  have forwards: "returns_at b ?U (emit_forward_decl b i) \<and> keeps b (emit_forward_decl b i)" for i
    by (simp add: returns_at_always returns_forward keeps_prints [OF prints_forward_items])
  have enums: "returns_at b ?U (emit_enum_definition b i) \<and> keeps b (emit_enum_definition b i)"
    if "is_enum b i" for i
  proof
    show "returns_at b ?U (emit_enum_definition b i)" unfolding emit_enum_definition_def
      by (intro returns_at_with_type returns_at_always returns_run_all) (simp add: list_all_iff returns_basic)
    from that obtain t where "known_type b i = Some t"
      by (cases "known_type b i") (auto simp: is_enum_def of_type_def)
    then show "keeps b (emit_enum_definition b i)" by (rule keeps_writes [OF writes_enum])
  qed
  have "returns_at b ?U (emit_groups_text b rq n g)"
    unfolding emit_groups_text_def ids_of_groups [OF g]
    using puts forwards enums walk keeps_prints [OF walk_prints(1) [OF order_refl]]
      keeps_prints [OF walk_prints(2) [OF order_refl]]
    by (intro returns_at_all) auto
  then show ?thesis using returns_atD st card_untouched by blast
qed

lemma header_returns:
  assumes s: "closure_start b s"
    and acyclic: "acyclic (decl_edges b (option_requirements options))" "acyclic (soft_edges b)"
      "acyclic (hard_edges b (option_requirements options))"
    and n: "level_depth (unat (type_cnt b)) (2 * unat (type_cnt b)) \<le> n"
  shows "mch_emit_header_with_options n ferror out b s options err h \<noteq> None"
proof -
  let ?rq = "option_requirements options" and ?ctx = "fresh_ctx out b err" and ?h = "stl (stl (stl h))"
  have "emit_with_states n ferror b s ?rq ?ctx ?h \<noteq> None"
  proof (cases "emit_groups_init (ts_selected s) (ec_err ?ctx) ?h")
    case (Pair r h1)
    show ?thesis
    proof (cases r)
      case (Inl e)
      with Pair show ?thesis by (simp add: emit_with_states_def)
    next
      case (Inr g0)
      have g0: "collected b g0 []" "unat (ts_selected s) \<le> unat (eg_capacity g0)"
        using groups_init_start [OF s, of ?h "ec_err ?ctx"] Pair Inr by simp_all
      from collect_start [OF s g0, of ?ctx] obtain ok st1 g where
        collect: "collect_emit_groups b s ?ctx g0 = Some (ok, st1, g)"
        and st1: "ok \<longrightarrow> st1 = ?ctx \<and> collected b g (required_list s)" by blast
      have "emit_groups_text b ?rq n g st1 \<noteq> None" if ok
        using groups_text_returns [OF acyclic n _ fresh_ctx_ok(1), of g "required_list s" out err] st1 that by simp
      then show ?thesis using Pair Inr collect by (auto simp: emit_with_states_def)
    qed
  qed
  then show ?thesis unfolding header_run by auto
qed

subsection \<open>Circles\<close>

text \<open>
  A set of types that hand on to each other by value. The walk follows hard dependencies through a typedef before
  it looks at the typedef's state, so on such a circle it never comes to report the cycle.
\<close>

definition by_value_circle :: "btf \<Rightarrow> u32 set \<Rightarrow> bool" where
  "by_value_circle b S \<longleftrightarrow> (\<forall>i \<in> S. \<exists>t. known_type b i = Some t
     \<and> (kind t = BTF_KIND_ARRAY \<and> a_type (array_of t) \<in> S
        \<or> kind t \<in> {BTF_KIND_TYPEDEF, BTF_KIND_CONST, BTF_KIND_VOLATILE, BTF_KIND_RESTRICT, BTF_KIND_TYPE_TAG,
             BTF_KIND_DECL_TAG} \<and> size_or_type t \<in> S))"

lemma hard_circle: "by_value_circle b S \<Longrightarrow> i \<in> S \<Longrightarrow> emit_hard_deps b rq n i st = None"
proof (induction n arbitrary: i)
  case 0
  then show ?case by (simp add: emit_hard_deps.simps(1) no_result_def)
next
  case (Suc n)
  then obtain t where t: "known_type b i = Some t" and
    next1: "kind t = BTF_KIND_ARRAY \<and> a_type (array_of t) \<in> S
        \<or> kind t \<in> {BTF_KIND_TYPEDEF, BTF_KIND_CONST, BTF_KIND_VOLATILE, BTF_KIND_RESTRICT, BTF_KIND_TYPE_TAG,
             BTF_KIND_DECL_TAG} \<and> size_or_type t \<in> S" unfolding by_value_circle_def by blast
  have run: "emit_hard_deps b rq n j st = None" if "j \<in> S" for j using Suc.IH Suc.prems(1) that by blast
  from next1 show ?case
    by (auto simp: emit_hard_deps.simps(2) with_type_def after_def emit_type_known(1) [OF t] run)
qed

text \<open>The loop over the qualifiers has no bound: a circle of qualifiers is never left.\<close>

definition qualifier_circle :: "btf \<Rightarrow> u32 set \<Rightarrow> bool" where
  "qualifier_circle b S \<longleftrightarrow> 0 \<notin> S \<and> (\<forall>i \<in> S. \<exists>t. known_type b i = Some t
     \<and> kind t \<in> {BTF_KIND_CONST, BTF_KIND_VOLATILE, BTF_KIND_RESTRICT} \<and> size_or_type t \<in> S)"

lemma qualifier_chain_circle: "qualifier_circle b S \<Longrightarrow> i \<in> S \<Longrightarrow> qualifier_chain n b m i st = None"
proof (induction n arbitrary: i m)
  case (Suc n)
  then obtain t where t: "known_type b i = Some t" "size_or_type t \<in> S"
    "kind t \<in> {BTF_KIND_CONST, BTF_KIND_VOLATILE, BTF_KIND_RESTRICT}" unfolding qualifier_circle_def by blast
  then have "type_qualifier_bit (kind t) \<noteq> 0" by (auto simp: type_qualifier_bit_def)
  then show ?case using Suc.IH [OF Suc.prems(1) t(2)] by (simp add: emit_type_known(1) [OF t(1)] Let_def)
qed simp

text \<open>Without requirements no member is hidden.\<close>

lemma never_hidden: "\<not> member_hidden None i k"
  by (simp add: member_hidden_def mch_requirements_has_record_members_def)

end
