(* ===== verification/Cli_Spec.thy ===== *)
theory Cli_Spec
  imports Cli
begin

text \<open>
  What a command line means. A grammar turns the arguments into a list of settings; the meaning of such a list is read off
  it without regard to the order in which the code goes through it. The parser accepts exactly the command lines of
  the grammar whose settings are well-formed, and answers their meaning.
\<close>

subsection \<open>The grammar\<close>

datatype setting =
    Help | Version | Verbose | Quiet | Stats | Explain | Expand_Pointers
  | Btf string | Output string | Object string

definition long_flag :: "string \<Rightarrow> setting option" where
  "long_flag arg =
     (if arg = ''--help'' then Some Help
      else if arg = ''--version'' then Some Version
      else if arg = ''--verbose'' then Some Verbose
      else if arg = ''--quiet'' then Some Quiet
      else if arg = ''--stats'' then Some Stats
      else if arg = ''--explain'' then Some Explain
      else if arg = ''--expand-pointers'' then Some Expand_Pointers
      else None)"

definition letter :: "char \<Rightarrow> setting option" where
  "letter c =
     (if c = CHR ''h'' then Some Help
      else if c = CHR ''V'' then Some Version
      else if c = CHR ''v'' then Some Verbose
      else if c = CHR ''q'' then Some Quiet
      else None)"

text \<open>The letters after a dash, and what they leave of the arguments that follow.\<close>

inductive letters :: "string \<Rightarrow> string list \<Rightarrow> setting list \<Rightarrow> string list \<Rightarrow> bool" where
  letters_end: "letters [] rest [] rest"
| letters_flag: "letter c = Some s \<Longrightarrow> letters cs rest ss rest' \<Longrightarrow> letters (c # cs) rest (s # ss) rest'"
| letters_output: "p \<noteq> [] \<Longrightarrow> letters (CHR ''o'' # p) rest [Output p] rest"
| letters_output_next: "letters ''o'' (p # rest) [Output p] rest"

text \<open>One argument, with its value where that is an argument of its own.\<close>

inductive argument :: "string list \<Rightarrow> setting list \<Rightarrow> string list \<Rightarrow> bool" where
  argument_flag: "long_flag arg = Some s \<Longrightarrow> argument (arg # rest) [s] rest"
| argument_btf: "argument ((''--btf='' @ p) # rest) [Btf p] rest"
| argument_btf_next: "argument (''--btf'' # p # rest) [Btf p] rest"
| argument_output: "argument ((''--output='' @ p) # rest) [Output p] rest"
| argument_output_next: "argument (''--output'' # p # rest) [Output p] rest"
| argument_letters: "cs \<noteq> [] \<Longrightarrow> letters cs rest ss rest' \<Longrightarrow> argument ((''-'' @ cs) # rest) ss rest'"
| argument_object: "arg = [] \<or> arg = ''-'' \<or> hd arg \<noteq> CHR ''-'' \<Longrightarrow> argument (arg # rest) [Object arg] rest"

inductive command_line :: "string list \<Rightarrow> setting list \<Rightarrow> bool" where
  command_end: "command_line [] []"
| command_objects: "command_line (''--'' # objs) (map Object objs)"
| command_argument: "argument args ss rest \<Longrightarrow> command_line rest ts \<Longrightarrow> command_line args (ss @ ts)"

subsection \<open>Settings one after the other\<close>

fun apply_setting :: "setting \<Rightarrow> mch_cli_options \<Rightarrow> mch_cli_options option" where
  "apply_setting Help opts = Some (opts\<lparr>cl_help := True\<rparr>)"
| "apply_setting Version opts = Some (opts\<lparr>cl_version := True\<rparr>)"
| "apply_setting Verbose opts = Some (be_verbose opts)"
| "apply_setting Quiet opts = Some (be_quiet opts)"
| "apply_setting Stats opts = Some (opts\<lparr>cl_stats := True\<rparr>)"
| "apply_setting Explain opts = Some (opts\<lparr>cl_explain := True\<rparr>)"
| "apply_setting Expand_Pointers opts = Some (opts\<lparr>cl_expand_pointers := True\<rparr>)"
| "apply_setting (Btf p) opts = (if cl_btf_path opts \<noteq> None then None else Some (opts\<lparr>cl_btf_path := Some p\<rparr>))"
| "apply_setting (Output p) opts =
     (if cl_output_path opts \<noteq> None \<or> p = [] then None else Some (opts\<lparr>cl_output_path := Some p\<rparr>))"
| "apply_setting (Object p) opts =
     Some (opts\<lparr>cl_objects := cl_objects opts @ [p], cl_object_count := cl_object_count opts + 1\<rparr>)"

fun apply_settings :: "setting list \<Rightarrow> mch_cli_options \<Rightarrow> mch_cli_options option" where
  "apply_settings [] opts = Some opts"
| "apply_settings (s # ss) opts = Option.bind (apply_setting s opts) (apply_settings ss)"

lemma apply_settings_append:
  "apply_settings (ss @ ts) opts = Option.bind (apply_settings ss opts) (apply_settings ts)"
proof (induction ss arbitrary: opts)
  case (Cons s ss)
  then show ?case by (cases "apply_setting s opts") simp_all
qed simp

lemma setters_apply:
  "set_btf_path opts p err = Inr opts' \<longleftrightarrow> apply_setting (Btf p) opts = Some opts'"
  "set_output_path opts p err = Inr opts' \<longleftrightarrow> apply_setting (Output p) opts = Some opts'"
  "add_object opts p err plenty = Inr (opts', h') \<longleftrightarrow> h' = plenty \<and> apply_setting (Object p) opts = Some opts'"
  by (auto simp: set_btf_path_def set_output_path_def add_object_def)

lemma option_if_SomeE:
  assumes "(if c then Some x else r) = Some y"
  obtains "c" "y = x" | "\<not> c" "r = Some y"
  using assms by (auto split: if_split_asm)

lemma letter_cases:
  assumes "letter c = Some s"
  obtains "c = CHR ''h''" "s = Help" | "c = CHR ''V''" "s = Version" | "c = CHR ''v''" "s = Verbose"
    | "c = CHR ''q''" "s = Quiet"
  using assms unfolding letter_def by (elim option_if_SomeE) simp_all

lemma short_options_flag:
  assumes "letter c = Some s"
  obtains opts' where "apply_setting s opts = Some opts'"
    "\<And>cs rest err. short_options (c # cs) rest opts err = short_options cs rest opts' err"
  using assms by (cases rule: letter_cases) (rule that; simp)+

lemma short_options_no_flag:
  assumes "letter c = None"
  shows "short_options (c # cs) rest opts err =
     (if c = CHR ''o'' then short_options (c # cs) rest opts err
      else Inl (mch_error_set (''unknown option -'' @ [c]) err))"
  using assms by (simp add: letter_def split: if_split_asm)

lemma short_options_o:
  "short_options (CHR ''o'' # cs) rest opts err =
     (if cs \<noteq> [] then bind_result (set_output_path opts cs err) (\<lambda>opts'. Inr (rest, opts'))
      else bind_result (require_value rest ''-o'' err) (\<lambda>(path, rest').
           bind_result (set_output_path opts path err) (\<lambda>opts'. Inr (rest', opts'))))"
  by simp

lemma short_options_sound:
  "short_options cs rest opts err = Inr (rest', opts') \<Longrightarrow>
     \<exists>ss. letters cs rest ss rest' \<and> apply_settings ss opts = Some opts'"
proof (induction cs arbitrary: opts)
  case Nil
  then show ?case using letters_end by fastforce
next
  case (Cons c cs)
  show ?case
  proof (cases "letter c")
    case (Some s)
    obtain opts1 where 1: "apply_setting s opts = Some opts1"
      "\<And>cs rest err. short_options (c # cs) rest opts err = short_options cs rest opts1 err"
      using short_options_flag [OF Some] by metis
    from Cons.prems have "short_options cs rest opts1 err = Inr (rest', opts')" by (simp only: 1(2))
    from Cons.IH [OF this] obtain ss where
      "letters cs rest ss rest'" "apply_settings ss opts1 = Some opts'" by blast
    then show ?thesis using letters_flag [OF Some] 1(1) by (intro exI [of _ "s # ss"]) simp
  next
    case None
    then have "c = CHR ''o''" using Cons.prems short_options_no_flag by (metis Inl_Inr_False)
    then have *: "(if cs \<noteq> [] then bind_result (set_output_path opts cs err) (\<lambda>opts'. Inr (rest, opts'))
      else bind_result (require_value rest ''-o'' err) (\<lambda>(path, rest').
           bind_result (set_output_path opts path err) (\<lambda>opts'. Inr (rest', opts')))) = Inr (rest', opts')"
      using Cons.prems by (simp only: short_options_o)
    show ?thesis
    proof (cases "cs = []")
      case False
      with * have "rest' = rest" "apply_settings [Output cs] opts = Some opts'"
        by (auto simp: bind_result_Inr setters_apply simp del: apply_setting.simps)
      then show ?thesis using letters_output [OF False] \<open>c = _\<close> by blast
    next
      case True
      with * obtain p where "rest = p # rest'" "apply_settings [Output p] opts = Some opts'"
        by (auto simp: bind_result_Inr setters_apply require_value_def simp del: apply_setting.simps split: list.split_asm)
      then show ?thesis using letters_output_next \<open>c = _\<close> True by blast
    qed
  qed
qed

lemma short_options_complete:
  "letters cs rest ss rest' \<Longrightarrow> apply_settings ss opts = Some opts' \<Longrightarrow>
     short_options cs rest opts err = Inr (rest', opts')"
proof (induction arbitrary: opts rule: letters.induct)
  case (letters_flag c s cs rest ss rest')
  obtain opts1 where 1: "apply_setting s opts = Some opts1"
    "\<And>cs rest err. short_options (c # cs) rest opts err = short_options cs rest opts1 err"
    using short_options_flag [OF letters_flag.hyps(1)] by metis
  have "apply_settings ss opts1 = Some opts'" using letters_flag.prems 1(1) by simp
  from letters_flag.IH [OF this] show ?case by (simp only: 1(2))
qed (auto simp: set_output_path_def require_value_def bind_result_def split: if_splits)

subsection \<open>One argument\<close>

lemma long_flag_cases:
  assumes "long_flag arg = Some s"
  obtains "arg = ''--help''" "s = Help" | "arg = ''--version''" "s = Version" | "arg = ''--verbose''" "s = Verbose"
    | "arg = ''--quiet''" "s = Quiet" | "arg = ''--stats''" "s = Stats" | "arg = ''--explain''" "s = Explain"
    | "arg = ''--expand-pointers''" "s = Expand_Pointers"
  using assms unfolding long_flag_def by (elim option_if_SomeE) simp_all

lemma parse_argument_flag:
  assumes "long_flag arg = Some s"
  obtains opts' where "apply_setting s opts = Some opts'"
    "\<And>rest err h. parse_argument arg rest opts err h = Inr (rest, opts', h)"
  using assms by (cases rule: long_flag_cases) (rule that; simp add: parse_argument_def)+

text \<open>The arguments that are not flags, by the branch the code takes.\<close>

lemma parse_argument_values:
  "parse_argument (''--btf='' @ p) rest opts err h = bind_result (set_btf_path opts p err) (\<lambda>opts'. Inr (rest, opts', h))"
  "parse_argument ''--btf'' rest opts err h =
     bind_result (require_value rest ''--btf'' err) (\<lambda>(path, rest').
     bind_result (set_btf_path opts path err) (\<lambda>opts'. Inr (rest', opts', h)))"
  "parse_argument (''--output='' @ p) rest opts err h =
     bind_result (set_output_path opts p err) (\<lambda>opts'. Inr (rest, opts', h))"
  "parse_argument ''--output'' rest opts err h =
     bind_result (require_value rest ''--output'' err) (\<lambda>(path, rest').
     bind_result (set_output_path opts path err) (\<lambda>opts'. Inr (rest', opts', h)))"
  by (simp_all add: parse_argument_def)

lemma parse_argument_letters:
  "c \<noteq> CHR ''-'' \<Longrightarrow> parse_argument (CHR ''-'' # c # cs) rest opts err h =
     bind_result (short_options (c # cs) rest opts err) (\<lambda>(rest', opts'). Inr (rest', opts', h))"
  by (simp add: parse_argument_def del: short_options.simps)

definition plain_argument :: "string \<Rightarrow> bool" where
  "plain_argument arg \<longleftrightarrow> arg = [] \<or> arg = ''-'' \<or> hd arg \<noteq> CHR ''-''"

lemma parse_argument_object:
  "plain_argument arg \<Longrightarrow> parse_argument arg rest opts err h =
     bind_result (add_object opts arg err h) (\<lambda>(opts', h'). Inr (rest, opts', h'))"
  by (cases arg) (auto simp: parse_argument_def plain_argument_def)

lemma parse_argument_unknown:
  assumes "long_flag arg = None" "take 6 arg \<noteq> ''--btf=''" "arg \<noteq> ''--btf''" "take 9 arg \<noteq> ''--output=''"
    "arg \<noteq> ''--output''" "arg = CHR ''-'' # CHR ''-'' # cs" "cs \<noteq> []"
  shows "parse_argument arg rest opts err h = Inl (mch_error_set (''unknown option '' @ arg) err)"
  using assms unfolding parse_argument_def long_flag_def by (auto split: if_split_asm)

lemma argument_shapes:
  obtains s where "long_flag arg = Some s" | p where "arg = ''--btf='' @ p" | "arg = ''--btf''"
    | p where "arg = ''--output='' @ p" | "arg = ''--output''" | "arg = ''--''"
    | c cs where "arg = CHR ''-'' # c # cs" "c \<noteq> CHR ''-''" | "plain_argument arg"
    | "\<And>rest opts err h. parse_argument arg rest opts err h = Inl (mch_error_set (''unknown option '' @ arg) err)"
proof (cases "long_flag arg")
  case None
  show thesis
  proof (cases "take 6 arg = ''--btf='' \<or> arg = ''--btf'' \<or> take 9 arg = ''--output='' \<or> arg = ''--output''")
    case True
    then show thesis using that(2-5) append_take_drop_id by metis
  next
    case False
    show thesis
    proof (cases arg)
      case Nil
      then show thesis using that(8) by (simp add: plain_argument_def)
    next
      case (Cons a as)
      show thesis
      proof (cases "a = CHR ''-'' \<and> as \<noteq> []")
        case False
        then show thesis using that(8) Cons by (auto simp: plain_argument_def)
      next
        case True
        then obtain c cs where c: "arg = CHR ''-'' # c # cs" using Cons by (cases as) auto
        show thesis
        proof (cases "c = CHR ''-'' \<and> cs \<noteq> []")
          case True
          then show thesis using that(9) parse_argument_unknown None False c
            \<open>\<not> (take 6 arg = ''--btf='' \<or> arg = ''--btf'' \<or> take 9 arg = ''--output='' \<or> arg = ''--output'')\<close> by metis
        next
          case False
          then show thesis using that(6,7) c by auto
        qed
      qed
    qed
  qed
qed (rule that(1))

lemma parse_argument_sound:
  assumes "parse_argument arg rest opts err plenty = Inr (rest', opts', h')" "arg \<noteq> ''--''"
  shows "h' = plenty \<and> (\<exists>ss. argument (arg # rest) ss rest' \<and> apply_settings ss opts = Some opts')"
proof (cases rule: argument_shapes [of arg])
  case (1 s)
  obtain opts1 where 2: "apply_setting s opts = Some opts1"
    "\<And>rest err h. parse_argument arg rest opts err h = Inr (rest, opts1, h)"
    using parse_argument_flag [OF 1] by metis
  then show ?thesis using assms(1) argument_flag [OF 1, of rest] by (intro conjI exI [of _ "[s]"]) simp_all
next
  case (2 p)
  then show ?thesis using assms(1) argument_btf [of p rest]
    by (auto simp: parse_argument_values bind_result_Inr setters_apply simp del: apply_setting.simps append.simps
        intro!: exI [of _ "[Btf p]"])
next
  case 3
  then show ?thesis using assms(1)
    by (auto simp: parse_argument_values bind_result_Inr require_value_def setters_apply simp del: apply_setting.simps
        split: list.split_asm intro!: exI [of _ "[Btf _]"] argument_btf_next)
next
  case (4 p)
  then show ?thesis using assms(1) argument_output [of p rest]
    by (auto simp: parse_argument_values bind_result_Inr setters_apply simp del: apply_setting.simps append.simps
        intro!: exI [of _ "[Output p]"])
next
  case 5
  then show ?thesis using assms(1)
    by (auto simp: parse_argument_values bind_result_Inr require_value_def setters_apply simp del: apply_setting.simps
        split: list.split_asm intro!: exI [of _ "[Output _]"] argument_output_next)
next
  case (7 c cs)
  then have "h' = plenty" "short_options (c # cs) rest opts err = Inr (rest', opts')"
    using assms(1) by (auto simp: parse_argument_letters bind_result_Inr simp del: short_options.simps)
  then show ?thesis using 7 short_options_sound argument_letters [of "c # cs" rest] by fastforce
next
  case 8
  then show ?thesis using assms(1) argument_object [of arg rest]
    by (auto simp: parse_argument_object plain_argument_def bind_result_Inr setters_apply simp del: apply_setting.simps
        intro!: exI [of _ "[Object arg]"])
qed (use assms in auto)

lemma letters_no_dash: "letters cs rest ss rest' \<Longrightarrow> cs \<noteq> [] \<Longrightarrow> hd cs \<noteq> CHR ''-''"
  by (cases rule: letters.cases) (auto simp: letter_def)

lemma parse_argument_complete:
  assumes "argument args ss rest'" "apply_settings ss opts = Some opts'"
  obtains arg rest where "args = arg # rest" "arg \<noteq> ''--''"
    "parse_argument arg rest opts err plenty = Inr (rest', opts', plenty)"
  using assms(1)
proof cases
  case (argument_flag arg s)
  obtain opts1 where 2: "apply_setting s opts = Some opts1"
    "\<And>rest err h. parse_argument arg rest opts err h = Inr (rest, opts1, h)"
    using parse_argument_flag [OF argument_flag(3)] by metis
  have "arg \<noteq> ''--''" using argument_flag(3) by (auto simp: long_flag_def)
  then show thesis using that argument_flag 2 assms(2) by simp
next
  case (argument_btf p)
  then show thesis using assms(2) that [of "''--btf='' @ p" rest']
    by (simp add: parse_argument_values [unfolded append.simps] setters_apply bind_result_def set_btf_path_def split: if_split_asm)
next
  case (argument_btf_next p)
  then show thesis using assms(2) that [of "''--btf''" "p # rest'"]
    by (simp add: parse_argument_values require_value_def bind_result_def set_btf_path_def split: if_split_asm)
next
  case (argument_output p)
  then show thesis using assms(2) that [of "''--output='' @ p" rest']
    by (simp add: parse_argument_values [unfolded append.simps] bind_result_def set_output_path_def split: if_split_asm)
next
  case (argument_output_next p)
  then show thesis using assms(2) that [of "''--output''" "p # rest'"]
    by (simp add: parse_argument_values require_value_def bind_result_def set_output_path_def split: if_split_asm)
next
  case (argument_letters cs rest)
  then obtain c cs' where c: "cs = c # cs'" "c \<noteq> CHR ''-''" using letters_no_dash by (cases cs) force+
  have "short_options (c # cs') rest opts err = Inr (rest', opts')"
    using short_options_complete [OF argument_letters(3) assms(2)] c(1) by simp
  then show thesis using that [of "CHR ''-'' # c # cs'" rest] argument_letters(1) c
    by (simp add: parse_argument_letters bind_result_def del: short_options.simps)
next
  case (argument_object arg)
  then have "plain_argument arg" "arg \<noteq> ''--''" by (auto simp: plain_argument_def)
  then show thesis using that [of arg rest'] argument_object assms(2)
    by (simp add: parse_argument_object add_object_def bind_result_def)
qed

subsection \<open>The whole line\<close>

lemma apply_settings_objects [simp]:
  "apply_settings (map Object objs) opts =
     Some (opts\<lparr>cl_objects := cl_objects opts @ objs, cl_object_count := cl_object_count opts + of_nat (length objs)\<rparr>)"
  by (induction objs arbitrary: opts) (simp_all add: algebra_simps)

lemma parse_loop_objects:
  "parse_loop True objs opts err plenty = Inr (the (apply_settings (map Object objs) opts), plenty)"
  by (induction objs arbitrary: opts) (simp_all add: parse_loop.simps(2) add_object_def algebra_simps)

lemma parse_loop_complete:
  "command_line args ss \<Longrightarrow> apply_settings ss opts = Some opts' \<Longrightarrow>
     parse_loop False args opts err plenty = Inr (opts', plenty)"
proof (induction arbitrary: opts rule: command_line.induct)
  case (command_objects objs)
  then show ?case by (simp add: parse_loop.simps(2) parse_loop_objects)
next
  case (command_argument args ss rest' ts)
  obtain opts1 where 1: "apply_settings ss opts = Some opts1" "apply_settings ts opts1 = Some opts'"
    using command_argument.prems by (auto simp: apply_settings_append bind_eq_Some_conv)
  obtain arg rest where "args = arg # rest" "arg \<noteq> ''--''"
    "parse_argument arg rest opts err plenty = Inr (rest', opts1, plenty)"
    using parse_argument_complete [OF command_argument.hyps(1) 1(1)] by metis
  then show ?case using command_argument.IH [OF 1(2)] by (simp add: parse_loop.simps(2))
qed simp

lemma parse_loop_sound:
  "parse_loop False args opts err plenty = Inr (opts', h') \<Longrightarrow>
     h' = plenty \<and> (\<exists>ss. command_line args ss \<and> apply_settings ss opts = Some opts')"
proof (induction "length args" arbitrary: args opts rule: less_induct)
  case less
  show ?case
  proof (cases args)
    case Nil
    then show ?thesis using less.prems command_end by fastforce
  next
    case (Cons arg rest)
    show ?thesis
    proof (cases "arg = ''--''")
      case True
      then show ?thesis using less.prems Cons command_objects [of rest]
        by (auto simp: parse_loop.simps(2) parse_loop_objects intro!: exI [of _ "map Object rest"])
    next
      case False
      obtain rest' opts1 h1 where p: "parse_argument arg rest opts err plenty = Inr (rest', opts1, h1)"
          "parse_loop False rest' opts1 err h1 = Inr (opts', h')"
        using less.prems Cons False by (auto simp: parse_loop.simps(2) split: sum.split_asm)
      obtain ss where s: "h1 = plenty" "argument args ss rest'" "apply_settings ss opts = Some opts1"
        using parse_argument_sound [OF p(1) False] Cons by blast
      have "length rest' < length args" using parse_argument_length [OF p(1)] Cons by simp
      from less.hyps [OF this] p(2) s(1) obtain ts where
        "h' = plenty" "command_line rest' ts" "apply_settings ts opts1 = Some opts'" by blast
      then show ?thesis using command_argument [OF s(2)] s(3) by (metis apply_settings_append bind.bind_lunit)
    qed
  qed
qed

lemma parse_loop_iff:
  "parse_loop False args opts err plenty = Inr (opts', h') \<longleftrightarrow>
     h' = plenty \<and> (\<exists>ss. command_line args ss \<and> apply_settings ss opts = Some opts')"
  using parse_loop_sound parse_loop_complete by blast

subsection \<open>What a list of settings means\<close>

definition btf_values :: "setting list \<Rightarrow> string list" where
  "btf_values ss = [p. Btf p \<leftarrow> ss]"

definition output_values :: "setting list \<Rightarrow> string list" where
  "output_values ss = [p. Output p \<leftarrow> ss]"

definition object_values :: "setting list \<Rightarrow> string list" where
  "object_values ss = [p. Object p \<leftarrow> ss]"

text \<open>The settings after the last \<^verbatim>\<open>--quiet\<close>, the last one first.\<close>

definition since_quiet :: "setting list \<Rightarrow> setting list" where
  "since_quiet ss = takeWhile (\<lambda>s. s \<noteq> Quiet) (rev ss)"

definition the_value :: "string list \<Rightarrow> string option" where
  "the_value ps = (case ps of [] \<Rightarrow> None | p # _ \<Rightarrow> Some p)"

definition meaning :: "setting list \<Rightarrow> mch_cli_options" where
  "meaning ss =
     \<lparr>cl_btf_path = the_value (btf_values ss), cl_output_path = the_value (output_values ss),
      cl_objects = object_values ss, cl_object_count = of_nat (length (object_values ss)),
      cl_verbose = int (count_list (since_quiet ss) Verbose),
      cl_quiet = (Quiet \<in> set ss \<and> Verbose \<notin> set (since_quiet ss)),
      cl_stats = (Stats \<in> set ss), cl_explain = (Explain \<in> set ss), cl_expand_pointers = (Expand_Pointers \<in> set ss),
      cl_help = (Help \<in> set ss), cl_version = (Version \<in> set ss)\<rparr>"

text \<open>One base and at most one output, which has a name.\<close>

definition well_formed :: "setting list \<Rightarrow> bool" where
  "well_formed ss \<longleftrightarrow> length (btf_values ss) \<le> 1 \<and> length (output_values ss) \<le> 1 \<and> [] \<notin> set (output_values ss)"

text \<open>What a run needs, unless the line only asks for help or for the version.\<close>

definition runnable :: "setting list \<Rightarrow> bool" where
  "runnable ss \<longleftrightarrow> Help \<in> set ss \<or> Version \<in> set ss \<or>
     (\<exists>p. btf_values ss = [p] \<and> p \<noteq> [] \<and> object_values ss \<noteq> [] \<and>
        (\<forall>out \<in> set (output_values ss). out \<noteq> p \<and> out \<notin> set (object_values ss)))"

lemma values_simps [simp]:
  "btf_values [] = []" "output_values [] = []" "object_values [] = []"
  "btf_values (ss @ ts) = btf_values ss @ btf_values ts"
  "output_values (ss @ ts) = output_values ss @ output_values ts"
  "object_values (ss @ ts) = object_values ss @ object_values ts"
  "btf_values (s # ss) = (case s of Btf p \<Rightarrow> [p] | _ \<Rightarrow> []) @ btf_values ss"
  "output_values (s # ss) = (case s of Output p \<Rightarrow> [p] | _ \<Rightarrow> []) @ output_values ss"
  "object_values (s # ss) = (case s of Object p \<Rightarrow> [p] | _ \<Rightarrow> []) @ object_values ss"
  by (simp_all add: btf_values_def output_values_def object_values_def)

lemma values_objects [simp]:
  "btf_values (map Object ps) = []" "output_values (map Object ps) = []" "object_values (map Object ps) = ps"
  by (induction ps) simp_all

lemma since_quiet_snoc [simp]:
  "since_quiet [] = []" "since_quiet (ss @ [s]) = (if s = Quiet then [] else s # since_quiet ss)"
  by (simp_all add: since_quiet_def)

lemma the_value_simps [simp]:
  "the_value [] = None" "the_value (p # ps) = Some p" "the_value ps = None \<longleftrightarrow> ps = []"
  "ps \<noteq> [] \<Longrightarrow> the_value (ps @ qs) = the_value ps"
  by (simp_all add: the_value_def split: list.split)

lemma meaning_snoc:
  assumes "well_formed ss"
  shows "apply_setting s (meaning ss) = (if well_formed (ss @ [s]) then Some (meaning (ss @ [s])) else None)"
  using assms by (cases s) (simp_all add: meaning_def well_formed_def be_verbose_def be_quiet_def)

lemma not_well_formed_snoc: "\<not> well_formed ss \<Longrightarrow> \<not> well_formed (ss @ [s])"
  by (auto simp: well_formed_def)

lemma apply_settings_init:
  "apply_settings ss mch_cli_options_init = (if well_formed ss then Some (meaning ss) else None)"
proof (induction ss rule: rev_induct)
  case Nil
  show ?case by (simp add: well_formed_def meaning_def mch_cli_options_init_def)
next
  case (snoc s ss)
  have "apply_settings [s] opts = apply_setting s opts" for opts by (cases "apply_setting s opts") simp_all
  then show ?case using snoc by (auto simp: apply_settings_append meaning_snoc not_well_formed_snoc)
qed

text \<open>An argument names at most one object.\<close>

lemma letters_no_objects: "letters cs rest ss rest' \<Longrightarrow> object_values ss = [] \<and> length rest' \<le> length rest"
  by (induction rule: letters.induct) (auto simp: letter_def split: if_split_asm)

lemma argument_objects: "argument args ss rest \<Longrightarrow> length (object_values ss) + length rest \<le> length args"
  by (induction rule: argument.induct)
    (auto simp: long_flag_def dest: letters_no_objects split: if_split_asm)

lemma command_line_objects: "command_line args ss \<Longrightarrow> length (object_values ss) \<le> length args"
  by (induction rule: command_line.induct) (auto dest: argument_objects)

lemma object_count_zero:
  "length ps < 2 ^ 64 \<Longrightarrow> (of_nat (length ps) :: size_t) = 0 \<longleftrightarrow> ps = []"
  using unat_of_nat_small [of "length ps", where ?'a = 64] by (auto simp: unat_eq_zero)

lemma check_options_meaning:
  assumes "well_formed ss" "length (object_values ss) < 2 ^ 64"
  shows "check_options (meaning ss) err = Inr opts \<longleftrightarrow> runnable ss \<and> opts = meaning ss"
proof -
  note count = object_count_zero [OF assms(2)]
  from assms(1) consider "btf_values ss = []" | p where "btf_values ss = [p]"
    by (cases "btf_values ss") (auto simp: well_formed_def)
  then show ?thesis
  proof cases
    case 1
    then show ?thesis by (auto simp: check_options_def runnable_def meaning_def)
  next
    case (2 p)
    from assms(1) consider "output_values ss = []" | out where "output_values ss = [out]"
      by (cases "output_values ss") (auto simp: well_formed_def)
    then show ?thesis
      by cases (use 2 count in \<open>auto simp: check_options_def runnable_def meaning_def\<close>)
  qed
qed

text \<open>What the final checks ensure, whatever the memory.\<close>

lemma check_options_Inr:
  assumes "check_options opts err = Inr opts'"
  shows "opts' = opts \<and> (cl_help opts \<or> cl_version opts
     \<or> (\<exists>p. cl_btf_path opts = Some p \<and> p \<noteq> []
          \<and> (\<forall>out. cl_output_path opts = Some out \<longrightarrow> out \<noteq> p \<and> out \<notin> set (cl_objects opts))))"
  using assms by (auto simp: check_options_def split: if_split_asm option.split_asm)

lemma mch_cli_parse_checked:
  assumes "mch_cli_parse argv opts0 err h = Inr (opts, h')" "\<not> cl_help opts" "\<not> cl_version opts"
  obtains p where "cl_btf_path opts = Some p" "p \<noteq> []"
    "\<And>out. cl_output_path opts = Some out \<Longrightarrow> out \<noteq> p \<and> out \<notin> set (cl_objects opts)"
proof -
  obtain opts1 where "check_options opts1 err = Inr opts"
    using assms(1) by (auto simp: mch_cli_parse_def bind_result_Inr)
  from check_options_Inr [OF this] assms(2,3) that show thesis by blast
qed

lemma mch_cli_parse_meaning:
  assumes "length args < 2 ^ 31"
  shows "mch_cli_parse (prog # args) mch_cli_options_init err plenty = Inr (opts, h) \<longleftrightarrow>
     h = plenty \<and> (\<exists>ss. command_line args ss \<and> well_formed ss \<and> runnable ss \<and> opts = meaning ss)"
proof -
  have check: "check_options (meaning ss) err = Inr o' \<longleftrightarrow> runnable ss \<and> o' = meaning ss"
    if "command_line args ss" "well_formed ss" for ss o'
    using check_options_meaning [OF that(2)] command_line_objects [OF that(1)] assms by simp
  have "mch_cli_parse (prog # args) mch_cli_options_init err plenty = Inr (opts, h) \<longleftrightarrow>
      h = plenty \<and> (\<exists>ss. command_line args ss \<and> well_formed ss \<and> check_options (meaning ss) err = Inr opts)"
    unfolding mch_cli_parse_def by (auto simp: bind_result_Inr parse_loop_iff apply_settings_init split: if_split_asm)
  then show ?thesis using check by blast
qed

subsection \<open>One line for every run\<close>

text \<open>The options written back as a command line.\<close>

definition unparse :: "mch_cli_options \<Rightarrow> string list" where
  "unparse opts =
     (if cl_help opts then [''--help''] else []) @ (if cl_version opts then [''--version''] else []) @
     (if cl_quiet opts then [''--quiet''] else []) @ replicate (nat (cl_verbose opts)) ''-v'' @
     (if cl_stats opts then [''--stats''] else []) @ (if cl_explain opts then [''--explain''] else []) @
     (if cl_expand_pointers opts then [''--expand-pointers''] else []) @
     (case cl_btf_path opts of None \<Rightarrow> [] | Some p \<Rightarrow> [''--btf'', p]) @
     (case cl_output_path opts of None \<Rightarrow> [] | Some p \<Rightarrow> [''-o'', p]) @
     ''--'' # cl_objects opts"

definition unparsed :: "mch_cli_options \<Rightarrow> setting list" where
  "unparsed opts =
     (if cl_help opts then [Help] else []) @ (if cl_version opts then [Version] else []) @
     (if cl_quiet opts then [Quiet] else []) @ replicate (nat (cl_verbose opts)) Verbose @
     (if cl_stats opts then [Stats] else []) @ (if cl_explain opts then [Explain] else []) @
     (if cl_expand_pointers opts then [Expand_Pointers] else []) @
     (case cl_btf_path opts of None \<Rightarrow> [] | Some p \<Rightarrow> [Btf p]) @
     (case cl_output_path opts of None \<Rightarrow> [] | Some p \<Rightarrow> [Output p]) @
     map Object (cl_objects opts)"

lemma command_line_flag: "long_flag arg = Some s \<Longrightarrow> command_line rest ts \<Longrightarrow> command_line (arg # rest) (s # ts)"
  using command_argument [OF argument_flag] by fastforce

lemma command_line_verbose:
  "command_line rest ts \<Longrightarrow> command_line (replicate n ''-v'' @ rest) (replicate n Verbose @ ts)"
proof (induction n)
  case (Suc n)
  have "letters ''v'' (replicate n ''-v'' @ rest) [Verbose] (replicate n ''-v'' @ rest)"
    by (intro letters_flag letters_end) (simp add: letter_def)
  from command_argument [OF argument_letters [OF _ this] Suc.IH [OF Suc.prems]] show ?case by simp
qed simp

lemma command_line_when:
  "(c \<Longrightarrow> long_flag arg = Some s) \<Longrightarrow> command_line rest ts \<Longrightarrow>
     command_line ((if c then [arg] else []) @ rest) ((if c then [s] else []) @ ts)"
  using command_line_flag by simp

lemma command_line_values:
  "command_line rest ts \<Longrightarrow> command_line ((case v of None \<Rightarrow> [] | Some p \<Rightarrow> [''--btf'', p]) @ rest)
     ((case v of None \<Rightarrow> [] | Some p \<Rightarrow> [Btf p]) @ ts)"
  "command_line rest ts \<Longrightarrow> command_line ((case v of None \<Rightarrow> [] | Some p \<Rightarrow> [''-o'', p]) @ rest)
     ((case v of None \<Rightarrow> [] | Some p \<Rightarrow> [Output p]) @ ts)"
  using command_argument [OF argument_btf_next, of rest ts]
    command_argument [OF argument_letters [OF _ letters_output_next], of rest ts]
  by (auto split: option.split)

lemma unparse_command_line: "command_line (unparse opts) (unparsed opts)"
  unfolding unparse_def unparsed_def
  by (intro command_line_when command_line_verbose command_line_values command_objects) (simp_all add: long_flag_def)

lemma since_quiet_append:
  "since_quiet (ss @ ts) = (if Quiet \<in> set ts then since_quiet ts else rev ts @ since_quiet ss)"
  by (induction ts rule: rev_induct) (auto simp flip: append_assoc)

lemma values_unparsed:
  "btf_values (unparsed opts) = (case cl_btf_path opts of None \<Rightarrow> [] | Some p \<Rightarrow> [p])"
  "output_values (unparsed opts) = (case cl_output_path opts of None \<Rightarrow> [] | Some p \<Rightarrow> [p])"
  "object_values (unparsed opts) = cl_objects opts"
proof -
  have "btf_values (replicate n Verbose) = []" "output_values (replicate n Verbose) = []"
      "object_values (replicate n Verbose) = []" for n
    by (induction n) simp_all
  then show "btf_values (unparsed opts) = (case cl_btf_path opts of None \<Rightarrow> [] | Some p \<Rightarrow> [p])"
    "output_values (unparsed opts) = (case cl_output_path opts of None \<Rightarrow> [] | Some p \<Rightarrow> [p])"
    "object_values (unparsed opts) = cl_objects opts"
    by (simp_all add: unparsed_def split: option.split)
qed

lemma count_replicate [simp]: "count_list (replicate n x) x = n" "x \<noteq> y \<Longrightarrow> count_list (replicate n x) y = 0"
  by (induction n) simp_all

definition counted :: "mch_cli_options \<Rightarrow> bool" where
  "counted opts \<longleftrightarrow> 0 \<le> cl_verbose opts \<and> (cl_quiet opts \<longrightarrow> cl_verbose opts = 0) \<and>
     cl_object_count opts = of_nat (length (cl_objects opts))"

lemma meaning_counted: "counted (meaning ss)"
  by (auto simp: counted_def meaning_def)

lemma since_quiet_unparsed:
  "since_quiet (unparsed opts) =
     rev ((if cl_help opts \<and> \<not> cl_quiet opts then [Help] else []) @
       (if cl_version opts \<and> \<not> cl_quiet opts then [Version] else []) @ replicate (nat (cl_verbose opts)) Verbose @
       (if cl_stats opts then [Stats] else []) @ (if cl_explain opts then [Explain] else []) @
       (if cl_expand_pointers opts then [Expand_Pointers] else []) @
       (case cl_btf_path opts of None \<Rightarrow> [] | Some p \<Rightarrow> [Btf p]) @
       (case cl_output_path opts of None \<Rightarrow> [] | Some p \<Rightarrow> [Output p]) @ map Object (cl_objects opts))"
  unfolding unparsed_def since_quiet_append by (auto simp: since_quiet_def split: option.split)

lemma count_objects [simp]: "count_list (map Object ps) Verbose = 0"
  by (induction ps) simp_all

lemma verbose_unparsed: "count_list (since_quiet (unparsed opts)) Verbose = nat (cl_verbose opts)"
  unfolding since_quiet_unparsed by (auto split: option.split)

lemma verbose_since_unparsed: "Verbose \<in> set (since_quiet (unparsed opts)) \<longleftrightarrow> 0 < cl_verbose opts"
  unfolding since_quiet_unparsed by (auto split: option.split)

lemma set_unparsed:
  "Help \<in> set (unparsed opts) \<longleftrightarrow> cl_help opts" "Version \<in> set (unparsed opts) \<longleftrightarrow> cl_version opts"
  "Quiet \<in> set (unparsed opts) \<longleftrightarrow> cl_quiet opts" "Stats \<in> set (unparsed opts) \<longleftrightarrow> cl_stats opts"
  "Explain \<in> set (unparsed opts) \<longleftrightarrow> cl_explain opts"
  "Expand_Pointers \<in> set (unparsed opts) \<longleftrightarrow> cl_expand_pointers opts"
  by (auto simp: unparsed_def split: option.split)

lemma meaning_unparsed: "counted opts \<Longrightarrow> meaning (unparsed opts) = opts"
  by (cases opts)
    (auto simp: meaning_def values_unparsed set_unparsed verbose_unparsed verbose_since_unparsed counted_def
       split: option.split)

lemma unparsed_well_formed: "well_formed ss \<Longrightarrow> well_formed (unparsed (meaning ss))"
  by (auto simp: well_formed_def values_unparsed meaning_def the_value_def split: option.split list.split_asm)

lemma the_value_inj: "length ps \<le> 1 \<Longrightarrow> length qs \<le> 1 \<Longrightarrow> the_value ps = the_value qs \<Longrightarrow> ps = qs"
  by (cases ps; cases qs) (simp_all add: the_value_def)

lemma runnable_meaning:
  assumes "well_formed ss" "well_formed ts" "meaning ss = meaning ts"
  shows "runnable ss = runnable ts"
proof -
  have "the_value (btf_values ss) = the_value (btf_values ts)" "the_value (output_values ss) = the_value (output_values ts)"
    and same: "object_values ss = object_values ts" "Help \<in> set ss \<longleftrightarrow> Help \<in> set ts" "Version \<in> set ss \<longleftrightarrow> Version \<in> set ts"
    using assms(3) by (simp_all add: meaning_def)
  then have "btf_values ss = btf_values ts" "output_values ss = output_values ts"
    using the_value_inj assms(1,2) by (auto simp: well_formed_def)
  with same show ?thesis by (simp add: runnable_def)
qed

lemma unparse_parses:
  assumes "mch_cli_parse (prog # args) mch_cli_options_init err plenty = Inr (opts, h)"
    "length args < 2 ^ 31" "length (unparse opts) < 2 ^ 31"
  shows "mch_cli_parse (prog # unparse opts) mch_cli_options_init err plenty = Inr (opts, plenty)"
proof -
  obtain ss where ss: "well_formed ss" "runnable ss" "opts = meaning ss"
    using assms(1) mch_cli_parse_meaning [OF assms(2)] by blast
  have "meaning (unparsed opts) = opts" using meaning_unparsed meaning_counted ss(3) by simp
  then show ?thesis using mch_cli_parse_meaning [OF assms(3)] unparse_command_line unparsed_well_formed ss runnable_meaning
    by metis
qed

end
