(* ===== verification/Pipeline_Spec.thy ===== *)
theory Pipeline_Spec
  imports Pipeline Closure Emit_Depth Cli_Spec
begin

text \<open>
  What a run of the program computes, in terms of the components' specifications: the requirements are what the
  objects need of the base, the required types what these lead to, the header their text.
\<close>

subsection \<open>What the objects need\<close>

text \<open>The file at a path holds the BTF \<open>ob\<close> and the relocations \<open>relos\<close>.\<close>

definition loaded :: "world \<Rightarrow> string \<Rightarrow> btf \<Rightarrow> bpf_core_relo list \<Rightarrow> bool" where
  "loaded w path ob relos \<longleftrightarrow>
     (\<exists>ext errno. w_object w path = (Some ob, ext, 0, errno)
        \<and> (case ext of None \<Rightarrow> relos = [] | Some x \<Rightarrow> ext_relocations (the (ext_raw x)) relos))"

definition object_needs :: "btf \<Rightarrow> btf \<Rightarrow> bpf_core_relo list \<Rightarrow> u32 set" where
  "object_needs b ob relos = (\<Union>i \<in> set (type_ids ob). object_seeds b ob i)
     \<union> (\<Union>relo \<in> set relos. base_matches b ob (relo_type_id relo))"

text \<open>The relocation reads the members \<open>P\<close> of the base type it matches.\<close>

definition reads_members :: "btf \<Rightarrow> btf \<Rightarrow> bpf_core_relo \<Rightarrow> (u32 \<times> nat) list \<Rightarrow> bool" where
  "reads_members b ob relo P \<longleftrightarrow> (\<exists>j. base_matches b ob (relo_type_id relo) = {j} \<and> relo_access b ob relo j P)"

definition readable_members :: "btf \<Rightarrow> (btf \<times> bpf_core_relo list) list \<Rightarrow> (nat \<times> nat) set" where
  "readable_members b inputs =
     {m. \<exists>ob relos relo P. (ob, relos) \<in> set inputs \<and> relo \<in> set relos \<and> reads_members b ob relo P \<and> m \<in> path_members P}"

definition work_ok :: "btf \<Rightarrow> work \<Rightarrow> bool" where
  "work_ok b wk \<longleftrightarrow> seed_invar b (work_seeds wk)
     \<and> ts_elems (wk_required wk) = req_roots (wk_requirements wk) \<union> fst ` req_members (wk_requirements wk)"

definition gathers :: "btf \<Rightarrow> (btf \<times> bpf_core_relo list) list \<Rightarrow> work \<Rightarrow> work \<Rightarrow> bool" where
  "gathers b inputs wk wk' \<longleftrightarrow>
     req_roots (wk_requirements wk') = req_roots (wk_requirements wk)
       \<union> unat ` (\<Union>(ob, relos) \<in> set inputs. object_needs b ob relos)
     \<and> req_members (wk_requirements wk) \<subseteq> req_members (wk_requirements wk')
     \<and> req_members (wk_requirements wk') \<subseteq> req_members (wk_requirements wk) \<union> readable_members b inputs
     \<and> (\<forall>(ob, relos) \<in> set inputs. \<forall>relo \<in> set relos. \<exists>P. reads_members b ob relo P
          \<and> path_members P \<subseteq> req_members (wk_requirements wk'))"

lemma gathers_refl [simp]: "gathers b [] wk wk"
  by (simp add: gathers_def)

lemma gathers_trans:
  assumes "gathers b xs wk wk1" "gathers b ys wk1 wk2"
  shows "gathers b (xs @ ys) wk wk2"
proof -
  have readable: "readable_members b (xs @ ys) = readable_members b xs \<union> readable_members b ys"
    by (auto simp: readable_members_def)
  have sub: "req_members (wk_requirements wk1) \<subseteq> req_members (wk_requirements wk2)"
    using assms(2) by (simp add: gathers_def)
  have reads: "\<exists>P. reads_members b ob relo P \<and> path_members P \<subseteq> req_members (wk_requirements wk2)"
    if rel: "(ob, relos) \<in> set (xs @ ys)" "relo \<in> set relos" for ob relos relo
  proof (cases "(ob, relos) \<in> set xs")
    case True
    then obtain P where "reads_members b ob relo P" "path_members P \<subseteq> req_members (wk_requirements wk1)"
      using assms(1) rel(2) unfolding gathers_def by blast
    then show ?thesis using sub by blast
  next
    case False
    then show ?thesis using assms(2) rel unfolding gathers_def by auto
  qed
  have roots: "req_roots (wk_requirements wk2) = req_roots (wk_requirements wk)
      \<union> unat ` (\<Union>(ob, relos) \<in> set (xs @ ys). object_needs b ob relos)"
    using assms unfolding gathers_def by (simp add: image_Un Un_assoc)
  have members: "req_members (wk_requirements wk) \<subseteq> req_members (wk_requirements wk2)"
    using assms sub unfolding gathers_def by (meson order_trans)
  have upper: "req_members (wk_requirements wk1) \<subseteq> req_members (wk_requirements wk) \<union> readable_members b xs"
    "req_members (wk_requirements wk2) \<subseteq> req_members (wk_requirements wk1) \<union> readable_members b ys"
    using assms by (simp_all add: gathers_def)
  then have upper': "req_members (wk_requirements wk2) \<subseteq> req_members (wk_requirements wk) \<union> readable_members b (xs @ ys)"
    unfolding readable by blast
  show ?thesis
    unfolding gathers_def by (intro conjI roots members upper') (use reads in \<open>auto simp del: set_append\<close>)
qed

lemma relo_effects_members:
  assumes "relo_effects b ob relos st st'" and "ss_requirements st = Some r"
    and "ts_elems (ss_seeds st) = req_roots r \<union> fst ` req_members r" "set relos \<subseteq> R"
  shows "\<exists>r'. ss_requirements st' = Some r' \<and> req_members r' \<subseteq> req_members r
       \<union> {m. \<exists>relo P. relo \<in> R \<and> reads_members b ob relo P \<and> m \<in> path_members P}
     \<and> ts_elems (ss_seeds st') = req_roots r' \<union> fst ` req_members r'"
  using assms
proof (induction relos arbitrary: st r)
  case (Cons relo relos)
  then obtain st1 where one: "relo_effect b ob relo st st1" and rest: "relo_effects b ob relos st1 st'" by auto
  then obtain j P r1 where j: "base_matches b ob (relo_type_id relo) = {j}" "relo_access b ob relo j P"
    and r1: "ss_requirements st1 = Some r1" "req_roots r1 = insert (unat j) (req_roots r)"
      "req_members r1 = req_members r \<union> path_members P"
    and seeds: "ts_elems (ss_seeds st1) = insert (unat j) (ts_elems (ss_seeds st)) \<union> fst ` path_members P"
    using Cons.prems(2) by (auto simp: relo_effect_def)
  have "reads_members b ob relo P" using j by (auto simp: reads_members_def)
  moreover have "ts_elems (ss_seeds st1) = req_roots r1 \<union> fst ` req_members r1"
    using seeds r1 Cons.prems(3) by auto
  from Cons.IH [OF rest r1(1) this] Cons.prems(4) obtain r' where "ss_requirements st' = Some r'"
    "req_members r' \<subseteq> req_members r1 \<union> {m. \<exists>relo P. relo \<in> R \<and> reads_members b ob relo P \<and> m \<in> path_members P}"
    "ts_elems (ss_seeds st') = req_roots r' \<union> fst ` req_members r'" by auto
  ultimately show ?case using r1(3) Cons.prems(4) by (intro exI [of _ r']) auto
qed auto

subsection \<open>The loop over the objects\<close>

text \<open>libbpf reports the size of a \<^verbatim>\<open>.BTF.ext\<close> section in 32 bits.\<close>

definition ext_sizes_fit :: "world \<Rightarrow> bool" where
  "ext_sizes_fit w \<longleftrightarrow>
     (\<forall>path b x e1 e2 raw. w_object w path = (b, Some x, e1, e2) \<longrightarrow> ext_raw x = Some raw \<longrightarrow> length raw < 2 ^ 32)"

lemma load_object_Inr:
  assumes "mch_load_object_btf parse se path err = Inr object"
  obtains ob ext errno where "parse path = (Some ob, ext, 0, errno)" "doc_btf object = Some ob" "doc_ext object = ext"
  using assms by (cases "parse path") (auto simp: mch_load_object_btf_def mch_btf_doc_init_def Let_def split: if_split_asm)

lemma process_object_Inr:
  assumes idx: "index_for b idx" and ok: "work_ok b wk" and fits: "ext_sizes_fit w"
    and run: "process_object w opts idx err path wk = Some (log, Inr wk')"
  obtains ob relos where "loaded w path ob relos" "gathers b [(ob, relos)] wk wk'" "work_ok b wk'"
proof -
  let ?rq = "wk_requirements wk"
  have inv: "seed_invar b (work_seeds wk)" and elems: "ts_elems (wk_required wk) = req_roots ?rq \<union> fst ` req_members ?rq"
    using ok by (simp_all add: work_ok_def)
  obtain object st1 st2 where load: "mch_load_object_btf (w_object w) (os_strerror (w_os w)) path err = Inr object"
    and own: "mch_extract_object_seeds_with_requirements idx (the (doc_btf object)) (Some path) err (work_seeds wk)
      = Some (Inr st1)"
    and core: "mch_extract_core_relo_seeds_with_requirements idx (the (doc_btf object)) (doc_ext object) (Some path) err st1
      = Some (Inr st2)"
    and wk': "wk_required wk' = ss_seeds st2" "wk_requirements wk' = the (ss_requirements st2)"
    using run unfolding process_object_def by (auto simp: bind_logged_Inr quietly_Inr tell_def)
  obtain ob ext errno where ob: "w_object w path = (Some ob, ext, 0, errno)" "doc_btf object = Some ob" "doc_ext object = ext"
    by (rule load_object_Inr [OF load])
  have loop: "extract_object_seeds_loop idx ob (Some path) err (type_ids ob) (work_seeds wk) = Some (Inr st1)"
    using own ob(2) by (simp add: mch_extract_object_seeds_with_requirements_def)
  obtain r1 where st1: "seed_invar b st1" "ss_requirements st1 = Some r1"
    "ts_elems (ss_seeds st1) = ts_elems (wk_required wk) \<union> unat ` (\<Union>i \<in> set (type_ids ob). object_seeds b ob i)"
    "req_roots r1 = req_roots ?rq \<union> unat ` (\<Union>i \<in> set (type_ids ob). object_seeds b ob i)"
    "req_members r1 = req_members ?rq"
    using extract_object_seeds_loop_Inr [OF idx inv loop] by (auto simp: extends_roots_def work_seeds_def)
  have elems1: "ts_elems (ss_seeds st1) = req_roots r1 \<union> fst ` req_members r1" using st1 elems by auto
  have "length raw < 2 ^ 32" if "ext = Some x" "ext_raw x = Some raw" for x raw
    using fits ob(1) that unfolding ext_sizes_fit_def by blast
  then have "\<exists>r. mch_extract_core_relo_seeds_with_requirements idx ob ext (Some path) err st1 = Some r
      \<and> (\<forall>st'. r = Inr st' \<longrightarrow> relo_extraction b ob ext st1 st')"
    using extract_core_relo_result [OF idx st1(1)] by blast
  then have core': "relo_extraction b ob ext st1 st2" using core ob(2,3) by simp
  show thesis
  proof (cases ext)
    case None
    then have "loaded w path ob []" using ob(1) by (auto simp: loaded_def)
    moreover have "st2 = st1" using core' None by (simp add: relo_extraction_def)
    then have "gathers b [(ob, [])] wk wk'" "work_ok b wk'"
      using st1 elems1 wk' by (auto simp: gathers_def object_needs_def work_ok_def work_seeds_def seed_invar_def)
    ultimately show thesis using that by blast
  next
    case (Some x)
    then obtain relos where relos: "ext_relocations (the (ext_raw x)) relos" "relo_effects b ob relos st1 st2"
      and inv2: "seed_invar b st2" using core' by (auto simp: relo_extraction_def)
    then have loaded: "loaded w path ob relos" using ob(1) Some by (auto simp: loaded_def)
    obtain r2 where r2: "ss_requirements st2 = Some r2"
      "req_roots r2 = req_roots r1 \<union> unat ` (\<Union>relo \<in> set relos. base_matches b ob (relo_type_id relo))"
      "req_members r1 \<subseteq> req_members r2"
      "\<forall>relo \<in> set relos. \<exists>j P. base_matches b ob (relo_type_id relo) = {j}
         \<and> relo_access b ob relo j P \<and> path_members P \<subseteq> req_members r2"
      using relo_effects_roots [OF relos(2) st1(2)] by blast
    have "req_members r2 \<subseteq> req_members r1
         \<union> {m. \<exists>relo P. relo \<in> set relos \<and> reads_members b ob relo P \<and> m \<in> path_members P}"
      and elems2: "ts_elems (ss_seeds st2) = req_roots r2 \<union> fst ` req_members r2"
      using relo_effects_members [OF relos(2) st1(2) elems1 order_refl] r2(1) by auto
    moreover have "\<forall>relo \<in> set relos. \<exists>P. reads_members b ob relo P \<and> path_members P \<subseteq> req_members r2"
      using r2(4) unfolding reads_members_def by meson
    ultimately have "gathers b [(ob, relos)] wk wk'"
      using st1(4,5) r2(1-3) wk' unfolding gathers_def object_needs_def readable_members_def by (auto simp: image_Un)
    moreover have "work_ok b wk'" using inv2 elems2 r2(1) wk' by (simp add: work_ok_def work_seeds_def seed_invar_def)
    ultimately show thesis using that loaded by blast
  qed
qed

lemma process_objects_Inr:
  assumes idx: "index_for b idx" and fits: "ext_sizes_fit w"
    and "work_ok b wk" "process_objects w opts idx err paths wk = Some (log, Inr wk')"
  shows "work_ok b wk' \<and> (\<exists>inputs. list_all2 (\<lambda>path (ob, relos). loaded w path ob relos) paths inputs
    \<and> gathers b inputs wk wk')"
  using assms(3,4)
proof (induction paths arbitrary: wk log)
  case (Cons path paths)
  then obtain log1 wk1 log2 where one: "process_object w opts idx err path wk = Some (log1, Inr wk1)"
    and rest: "process_objects w opts idx err paths wk1 = Some (log2, Inr wk')" by (auto simp: bind_logged_Inr)
  obtain ob relos where first: "loaded w path ob relos" "gathers b [(ob, relos)] wk wk1" "work_ok b wk1"
    by (rule process_object_Inr [OF idx Cons.prems(1) fits one])
  from Cons.IH [OF first(3) rest] obtain inputs where
    "work_ok b wk'" "list_all2 (\<lambda>path (ob, relos). loaded w path ob relos) paths inputs" "gathers b inputs wk1 wk'"
    by blast
  then show ?case using first gathers_trans [OF first(2), of inputs wk']
    by (intro conjI exI [of _ "(ob, relos) # inputs"]) simp_all
qed auto

subsection \<open>From the base to the required types\<close>

lemma load_base_Inr:
  assumes "mch_load_base_btf parse se path err = Inr base"
  obtains b errno where "parse path = (Some b, 0, errno)" "doc_btf base = Some b"
  using assms by (cases "parse path") (auto simp: mch_load_base_btf_def mch_btf_doc_init_def Let_def split: if_split_asm)

lemma type_count_fits: "unat (ucast (c :: u32) :: size_t) \<le> 2 ^ 32"
  using unat_u32_less [of c] by (simp add: unat_ucast_u32_u64)

lemma prepare_sets_Inr:
  assumes "prepare_sets (ucast (type_cnt b)) err h = Inr (s, r, h')"
  shows "ts_invar s" "ts_elems s = {}" "ts_count s = ucast (type_cnt b)"
    "req_invar b r" "req_roots r = {}" "req_members r = {}" "type_count r = ucast (type_cnt b)"
proof -
  let ?n = "ucast (type_cnt b) :: size_t"
  have n: "unat ?n \<le> 2 ^ 64 - 64" "unat ?n \<le> 2 ^ 32" using type_count_fits [of "type_cnt b"] by simp_all
  obtain h1 where s: "mch_type_set_init ?n h = (0, s, h1)" and r: "mch_requirements_init ?n h1 = (0, r, h')"
    using assms by (auto simp: prepare_sets_def split: prod.split_asm if_split_asm)
  show "ts_invar s" "ts_elems s = {}" "ts_count s = ucast (type_cnt b)" using mch_type_set_init_ok [OF n(1) s] by simp_all
  show "req_invar b r" "req_roots r = {}" "req_members r = {}" "type_count r = ucast (type_cnt b)"
    using mch_requirements_init_ok [OF n(2) r] by simp_all
qed

lemma prepare_Inr:
  assumes run: "prepare w opts err h = Some (log, Inr (b, idx, wk))"
  shows "index_for b idx" "work_ok b wk" "req_roots (wk_requirements wk) = {}" "req_members (wk_requirements wk) = {}"
    "\<exists>errno. w_base w (the (cl_btf_path opts)) = (Some b, 0, errno)"
proof -
  obtain base :: "unit mch_btf_doc" and h1 s r h2 where
    base: "mch_load_base_btf (w_base w) (os_strerror (w_os w)) (the (cl_btf_path opts)) err = Inr base" "b = the (doc_btf base)"
    and idx: "mch_btf_index_init b err h = Some (Inr (idx, h1))"
    and sets: "prepare_sets (ucast (type_cnt b)) err h1 = Inr (s, r, h2)"
    and wk: "wk = \<lparr>wk_required = s, wk_requirements = r, wk_total = mch_seed_stats_init, wk_heap = h2\<rparr>"
    using run unfolding prepare_def Let_def by (auto simp: bind_logged_Inr quietly_Inr tell_def)
  obtain b' errno where "w_base w (the (cl_btf_path opts)) = (Some b', 0, errno)" "doc_btf base = Some b'"
    by (rule load_base_Inr [OF base(1)])
  then show "\<exists>errno. w_base w (the (cl_btf_path opts)) = (Some b, 0, errno)" using base(2) by simp
  show "index_for b idx" using built_index_for idx unfolding built_index_def by blast
  note ok = prepare_sets_Inr [OF sets]
  show "req_roots (wk_requirements wk) = {}" "req_members (wk_requirements wk) = {}" using ok by (simp_all add: wk)
  show "work_ok b wk" using ok by (simp add: work_ok_def work_seeds_def seed_invar_def wk)
qed

text \<open>What the analysis of the inputs finds.\<close>

definition seed_ids :: "work \<Rightarrow> u32 set" where
  "seed_ids wk = {i. unat i \<in> req_roots (wk_requirements wk) \<union> fst ` req_members (wk_requirements wk)}"

definition analysed :: "world \<Rightarrow> mch_cli_options \<Rightarrow> btf \<Rightarrow> work \<Rightarrow> bool" where
  "analysed w opts b wk \<longleftrightarrow>
     (\<exists>errno. w_base w (the (cl_btf_path opts)) = (Some b, 0, errno))
     \<and> closure_start b (wk_required wk) \<and> req_invar b (wk_requirements wk)
     \<and> required_ids (wk_required wk) = dep_reachable b (Some (closure_options opts wk)) (seed_ids wk)
     \<and> (\<exists>inputs. list_all2 (\<lambda>path (ob, relos). loaded w path ob relos) (cl_objects opts) inputs
          \<and> req_roots (wk_requirements wk) = unat ` (\<Union>(ob, relos) \<in> set inputs. object_needs b ob relos)
          \<and> req_members (wk_requirements wk) \<subseteq> readable_members b inputs
          \<and> (\<forall>(ob, relos) \<in> set inputs. \<forall>relo \<in> set relos. \<exists>P. reads_members b ob relo P
               \<and> path_members P \<subseteq> req_members (wk_requirements wk)))"

lemma work_ok_seeds:
  assumes "work_ok b wk"
  shows "closure_start b (wk_required wk)" "required_ids (wk_required wk) = seed_ids wk" "req_invar b (wk_requirements wk)"
  using assms by (auto simp: work_ok_def work_seeds_def seed_invar_def closure_start_def required_ids_def seed_ids_def)

lemma analyse_Inr:
  assumes fits: "ext_sizes_fit w" and run: "analyse w opts err h = Some (log, Inr (b, wk, stats))"
  shows "analysed w opts b wk"
proof -
  obtain log1 log2 idx wk0 wk1 s h' where prep: "prepare w opts err h = Some (log1, Inr (b, idx, wk0))"
    and objs: "process_objects w opts idx err (cl_objects opts) wk0 = Some (log2, Inr wk1)"
    and clo: "mch_compute_dependency_closure_with_options b (wk_required wk1) mch_closure_stats_init
      (Some (closure_options opts wk1)) err (wk_heap wk1) = Some (Inr (s, stats, h'))"
    and wk: "wk = wk1\<lparr>wk_required := s, wk_heap := h'\<rparr>"
    using run unfolding analyse_def by (auto simp: bind_logged_Inr quietly_Inr tell_def)
  note start = prepare_Inr [OF prep]
  from process_objects_Inr [OF start(1) fits start(2) objs] obtain inputs where ok: "work_ok b wk1"
    and inputs: "list_all2 (\<lambda>path (ob, relos). loaded w path ob relos) (cl_objects opts) inputs"
      "gathers b inputs wk0 wk1" by blast
  note seeds = work_ok_seeds [OF ok]
  have closed: "closure_start b s \<and> required_ids s = dep_reachable b (Some (closure_options opts wk1)) (seed_ids wk1)"
    using closure_total [OF seeds(1), of mch_closure_stats_init "Some (closure_options opts wk1)" err "wk_heap wk1"] clo
    by (auto simp: seeds(2))
  have "closure_options opts wk = closure_options opts wk1" "seed_ids wk = seed_ids wk1"
    by (simp_all add: closure_options_def seed_ids_def wk)
  then show ?thesis
    using closed start(3-5) inputs seeds(3) unfolding analysed_def gathers_def by (auto simp: wk intro!: exI [of _ inputs])
qed

subsection \<open>The output\<close>

definition emit_options :: "work \<Rightarrow> mch_emit_options option" where
  "emit_options wk = Some \<lparr>eo_requirements = Some (wk_requirements wk)\<rparr>"

text \<open>The text goes to the output path or to \<^verbatim>\<open>stdout\<close>.\<close>

definition delivered :: "world \<Rightarrow> mch_cli_options \<Rightarrow> string \<Rightarrow> files \<Rightarrow> string \<Rightarrow> files \<Rightarrow> bool" where
  "delivered w opts written fs out fs' \<longleftrightarrow>
     (case cl_output_path opts of
        None \<Rightarrow> out = written \<and> fs' = fs
      | Some path \<Rightarrow> out = [] \<and> fs' = fs(os_entry (w_os w) path \<mapsto> written))"

text \<open>No file that was there has changed, and no other is left but a temporary one that cannot be removed.\<close>

definition undisturbed :: "world \<Rightarrow> mch_cli_options \<Rightarrow> files \<Rightarrow> files \<Rightarrow> bool" where
  "undisturbed w opts fs fs' \<longleftrightarrow>
     (case cl_output_path opts of None \<Rightarrow> fs' = fs | Some path \<Rightarrow> leftovers (w_os w) path fs fs')"

lemma write_output_True:
  assumes "write_output w n opts b wk err fs = Some (True, e, fs', out)"
  obtains ferror written h' where
    "mch_emit_header_with_options n ferror [] b (wk_required wk) (emit_options wk) err (wk_heap wk) = Some (True, written, e, h')"
    "delivered w opts written fs out fs'"
proof (cases "cl_output_path opts")
  case None
  then show thesis using assms that [of "w_stdout_fails w"]
    by (auto simp: write_output_def emit_options_def delivered_def)
next
  case (Some path)
  then obtain h' where "write_header_to_path (w_os w) n path b (wk_required wk) (emit_options wk) err (wk_heap wk) fs
      = Some (True, e, h', fs')" and out: "out = []"
    using assms by (auto simp: write_output_def emit_options_def)
  from write_header_result [OF this(1)] show thesis
    using that [of "os_write_fails (w_os w)"] Some out by (auto simp: delivered_def)
qed

lemma write_output_False:
  assumes "write_output w n opts b wk err fs = Some (False, e, fs', out)"
  shows "undisturbed w opts fs fs'"
proof (cases "cl_output_path opts")
  case None
  then show ?thesis using assms by (auto simp: write_output_def undisturbed_def)
next
  case (Some path)
  then obtain h' where "write_header_to_path (w_os w) n path b (wk_required wk) (emit_options wk) err (wk_heap wk) fs
      = Some (False, e, h', fs')"
    using assms by (auto simp: write_output_def emit_options_def)
  from write_header_result [OF this] show ?thesis using Some by (simp add: undisturbed_def)
qed

lemma undisturbed_refl [simp]: "undisturbed w opts fs fs"
  by (simp add: undisturbed_def split: option.split)

lemma undisturbed_keep: "undisturbed w opts fs fs' \<Longrightarrow> fs p \<noteq> None \<Longrightarrow> fs' p = fs p"
  by (cases "cl_output_path opts") (auto simp: undisturbed_def dest: leftovers_keep)

text \<open>What the header of a run contains.\<close>

definition header_of :: "btf \<Rightarrow> work \<Rightarrow> nat \<Rightarrow> string \<Rightarrow> bool" where
  "header_of b wk n written \<longleftrightarrow>
     (let rq = Some (wk_requirements wk); s = wk_required wk; fwds = filter (named_forward b) (required_list s)
      in \<exists>xs. written = header_text b rq n s xs \<and> distinct (map Forward fwds @ xs) \<and> root_items b s \<subseteq> set xs
           \<and> (\<forall>x \<in> set xs. \<exists>r \<in> root_items b s. r = x \<or> leads (requires b rq) r x)
           \<and> (acyclic (req_edges b rq) \<longrightarrow> (\<forall>ys x zs. xs = ys @ x # zs \<longrightarrow> requires b rq x \<subseteq> Forward ` set fwds \<union> set ys)))"

lemma emitted_header:
  assumes "closure_start b (wk_required wk)"
    and "mch_emit_header_with_options n ferror [] b (wk_required wk) (emit_options wk) err h = Some (True, written, e, h')"
  shows "header_of b wk n written"
proof -
  let ?rq = "Some (wk_requirements wk)" and ?s = "wk_required wk"
  let ?fs = "filter (named_forward b) (required_list ?s)"
  have rq: "option_requirements (emit_options wk) = ?rq" by (simp add: option_requirements_def emit_options_def)
  obtain xs where xs: "written = header_text b ?rq n ?s xs" "distinct (map Forward ?fs @ xs)" "root_items b ?s \<subseteq> set xs"
    "\<forall>x \<in> set xs. \<exists>r \<in> root_items b ?s. r = x \<or> leads (requires b ?rq) r x"
    "placed (requires b ?rq) {} (map Forward ?fs @ xs)"
    using header_success [OF assms] unfolding rq by auto
  have "requires b ?rq x \<subseteq> Forward ` set ?fs \<union> set ys" if "acyclic (req_edges b ?rq)" "xs = ys @ x # zs" for ys x zs
    using placed_acyclic [of "requires b ?rq" "{}" "map Forward ?fs @ ys" x zs] xs(5) that by (auto simp: req_edges_def)
  with xs(1-4) show ?thesis unfolding header_of_def Let_def by blast
qed

subsection \<open>The whole program\<close>

text \<open>The header is where it belongs, but the witness for it cannot be written.\<close>

definition only_unexplained :: "world \<Rightarrow> mch_cli_options \<Rightarrow> nat \<Rightarrow> heap \<Rightarrow> files \<Rightarrow> program_exit \<Rightarrow> bool" where
  "only_unexplained w opts n h fs r \<longleftrightarrow>
     cl_explain opts \<and> (\<exists>log b wk stats ferror written e h' witness e'.
       analyse w opts mch_error_clear h = Some (log, Inr (b, wk, stats))
       \<and> mch_emit_header_with_options n ferror [] b (wk_required wk) (emit_options wk) mch_error_clear (wk_heap wk)
           = Some (True, written, e, h')
       \<and> delivered w opts written fs (to_stdout r) (files_after r)
       \<and> mch_requirements_write_explanation (w_stderr_fails w) b (wk_requirements wk) e = (witness, Some e')
       \<and> to_stderr r = log @ witness @ mch_error_print e')"

lemma main_program_runs:
  assumes "mch_cli_parse argv mch_cli_options_init mch_error_clear h = Inr (opts, h1)" "\<not> cl_help opts" "\<not> cl_version opts"
  shows "main_program w n argv h fs =
     (case analyse w opts mch_error_clear h1 of
        None \<Rightarrow> None
      | Some (log, Inl e) \<Rightarrow>
          Some \<lparr>exit_code = 1, to_stdout = [], to_stderr = log @ mch_error_print e, files_after = fs\<rparr>
      | Some (log, Inr (b, wk, stats)) \<Rightarrow> finish w n opts log b wk stats mch_error_clear fs)"
  using assms by (simp add: main_program_def)

lemma finish_cases:
  assumes "finish w n opts log b wk stats err fs = Some r"
  obtains (failed) e where "write_output w n opts b wk err fs = Some (False, e, files_after r, to_stdout r)"
      "exit_code r = 1" "to_stderr r = log @ mch_error_print e"
    | (unexplained) e witness e' where
        "write_output w n opts b wk err fs = Some (True, e, files_after r, to_stdout r)"
      "exit_code r = 1" "cl_explain opts"
      "mch_requirements_write_explanation (w_stderr_fails w) b (wk_requirements wk) e = (witness, Some e')"
      "to_stderr r = log @ witness @ mch_error_print e'"
    | (completed) e where "write_output w n opts b wk err fs = Some (True, e, files_after r, to_stdout r)" "exit_code r = 0"
proof -
  obtain ok e fs' out where wr: "write_output w n opts b wk err fs = Some (ok, e, fs', out)"
    using assms by (auto simp: finish_def split: option.split_asm)
  obtain witness e' where ex: "explanation w opts b wk e = (witness, e')" by (cases "explanation w opts b wk e")
  show thesis
  proof (cases ok)
    case False
    with assms wr show thesis by (intro failed) (auto simp: finish_def)
  next
    case True
    show thesis
    proof (cases e')
      case None
      with assms wr ex True show thesis by (intro completed) (auto simp: finish_def)
    next
      case (Some e2)
      then have "cl_explain opts"
        "mch_requirements_write_explanation (w_stderr_fails w) b (wk_requirements wk) e = (witness, Some e2)"
        using ex by (auto simp: explanation_def split: if_split_asm)
      with Some assms wr ex True show thesis by (intro unexplained) (auto simp: finish_def)
    qed
  qed
qed

text \<open>A run with an exit code of 0 that was not asked for help or version has delivered a header.\<close>

lemma program_success:
  assumes "mch_cli_parse argv mch_cli_options_init mch_error_clear h = Inr (opts, h1)"
    and "\<not> cl_help opts" "\<not> cl_version opts" and "ext_sizes_fit w"
    and "main_program w n argv h fs = Some r" and "exit_code r = 0"
  obtains b wk written where "analysed w opts b wk" "header_of b wk n written"
    "delivered w opts written fs (to_stdout r) (files_after r)"
proof -
  from assms(5) [unfolded main_program_runs [OF assms(1-3)]] assms(6)
  obtain log b wk stats where an: "analyse w opts mch_error_clear h1 = Some (log, Inr (b, wk, stats))"
    and fin: "finish w n opts log b wk stats mch_error_clear fs = Some r"
    by (auto split: option.split_asm sum.split_asm)
  have analysed: "analysed w opts b wk" by (rule analyse_Inr [OF assms(4) an])
  from fin show thesis
  proof (cases rule: finish_cases)
    case (completed e)
    obtain ferror written h' where
      run: "mch_emit_header_with_options n ferror [] b (wk_required wk) (emit_options wk) mch_error_clear (wk_heap wk)
        = Some (True, written, e, h')" and out: "delivered w opts written fs (to_stdout r) (files_after r)"
      by (rule write_output_True [OF completed(1)])
    have "closure_start b (wk_required wk)" using analysed by (simp add: analysed_def)
    from analysed emitted_header [OF this run] out show thesis by (rule that)
  qed (use assms(6) in simp_all)
qed

text \<open>A run with another exit code has disturbed no file, or has delivered a header and failed to explain it.\<close>

lemma program_failure:
  assumes "mch_cli_parse argv mch_cli_options_init mch_error_clear h = Inr (opts, h1)"
    and "main_program w n argv h fs = Some r" "exit_code r \<noteq> 0"
  shows "exit_code r = 1" "undisturbed w opts fs (files_after r) \<or> only_unexplained w opts n h1 fs r"
proof -
  have no_text: "\<not> cl_help opts" "\<not> cl_version opts"
    using assms by (auto simp: main_program_def split: if_split_asm)
  have "exit_code r = 1 \<and> (undisturbed w opts fs (files_after r) \<or> only_unexplained w opts n h1 fs r)"
  proof (cases "\<exists>log e. analyse w opts mch_error_clear h1 = Some (log, Inl e)")
    case True
    then show ?thesis using assms(2) by (auto simp: main_program_runs [OF assms(1) no_text])
  next
    case False
    with assms(2) obtain log b wk stats where an: "analyse w opts mch_error_clear h1 = Some (log, Inr (b, wk, stats))"
      and fin: "finish w n opts log b wk stats mch_error_clear fs = Some r"
      unfolding main_program_runs [OF assms(1) no_text] by (auto split: option.split_asm sum.split_asm)
    from fin show ?thesis
    proof (cases rule: finish_cases)
      case (failed e)
      then show ?thesis using write_output_False by blast
    next
      case (unexplained e witness e')
      obtain ferror written h' where
        "mch_emit_header_with_options n ferror [] b (wk_required wk) (emit_options wk) mch_error_clear (wk_heap wk)
          = Some (True, written, e, h')" "delivered w opts written fs (to_stdout r) (files_after r)"
        by (rule write_output_True [OF unexplained(1)])
      then show ?thesis using unexplained an unfolding only_unexplained_def by blast
    qed (use assms(3) in simp)
  qed
  then show "exit_code r = 1" "undisturbed w opts fs (files_after r) \<or> only_unexplained w opts n h1 fs r" by simp_all
qed

subsection \<open>Quiet runs\<close>

definition silent :: "'a logged \<Rightarrow> bool" where
  "silent m \<longleftrightarrow> (\<forall>log r. m = Some (log, r) \<longrightarrow> log = [])"

named_theorems silent_intros "stages that write nothing to stderr"

lemma silent_basic [silent_intros]: "silent (quietly m)" "silent (Some ([], r))"
  by (auto simp: silent_def quietly_def)

lemma silent_bind [silent_intros]: "silent m \<Longrightarrow> (\<And>x. silent (f x)) \<Longrightarrow> silent (bind_logged m f)"
  by (fastforce simp: silent_def bind_logged_def split: option.split_asm sum.split_asm)

lemma silent_say [silent_intros]: "cl_quiet opts \<Longrightarrow> silent (tell (say opts level line))"
  by (simp add: silent_def tell_def say_def)

lemma silent_split [silent_intros]: "(\<And>x y. silent (f x y)) \<Longrightarrow> silent (case p of (x, y) \<Rightarrow> f x y)"
  by (cases p) simp

lemma silent_objects [silent_intros]:
  assumes "cl_quiet opts"
  shows "silent (process_objects w opts idx err paths wk)"
proof (induction paths arbitrary: wk)
  case (Cons path paths)
  have "silent (process_object w opts idx err path wk)" for wk
    unfolding process_object_def by (intro silent_intros assms)
  then show ?case by (simp add: silent_bind Cons.IH)
qed (simp add: silent_basic)

lemma silent_analysis: "cl_quiet opts \<Longrightarrow> silent (analyse w opts err h)"
  unfolding analyse_def prepare_def Let_def by (intro silent_intros)

end
