(* ===== verification/Pipeline_Returns.thy ===== *)
theory Pipeline_Returns
  imports Pipeline_Spec
begin

text \<open>
  When the program returns: its own stages always do, and the emitter does when the base has no circle of the kind
  that \<open>Emit_Depth\<close> names. Pruning the members of records takes edges away only, so that the graphs without requirements
  decide.
\<close>

subsection \<open>Requirements take edges away\<close>

lemma decl_edges_requirements: "decl_edges b rq \<subseteq> decl_edges b None"
proof -
  have "set (decl_targets b rq i) \<subseteq> set (decl_targets b None i)" for i
    by (cases "i < type_cnt b"; cases "type_by_id b i")
      (auto simp: decl_targets_def never_hidden split: btf_kind.split)
  then show ?thesis by (auto simp: decl_edges_def)
qed

lemma shown_members_requirements: "set (shown_members rq i t) \<subseteq> set (shown_members None i t)"
  by (auto simp: shown_members_def never_hidden)

lemma hard_edges_requirements: "hard_edges b rq \<subseteq> hard_edges b None"
proof -
  have "set (hard_targets b rq i t) \<subseteq> set (hard_targets b None i t)" for i t
    using shown_members_requirements [of rq i t] by (cases "kind t") (auto simp: hard_targets_def)
  then show ?thesis unfolding hard_edges_def by fast
qed

text \<open>A base whose types do not contain themselves, and depth enough for its size.\<close>

definition well_founded_base :: "nat \<Rightarrow> btf \<Rightarrow> bool" where
  "well_founded_base n b \<longleftrightarrow> acyclic (decl_edges b None) \<and> acyclic (soft_edges b) \<and> acyclic (hard_edges b None)
     \<and> level_depth (unat (type_cnt b)) (2 * unat (type_cnt b)) \<le> n"

lemma emission_returns:
  assumes "closure_start b s" "well_founded_base n b"
  shows "\<exists>r. mch_emit_header_with_options n ferror out b s options err h = Some r"
proof -
  note wf = assms(2) [unfolded well_founded_base_def]
  have "acyclic (decl_edges b (option_requirements options))"
    by (rule acyclic_subset [OF _ decl_edges_requirements]) (simp add: wf)
  moreover have "acyclic (hard_edges b (option_requirements options))"
    by (rule acyclic_subset [OF _ hard_edges_requirements]) (simp add: wf)
  ultimately have "mch_emit_header_with_options n ferror out b s options err h \<noteq> None"
    using wf by (intro header_returns [OF assms(1)]) simp_all
  then show ?thesis by simp
qed

subsection \<open>The stages\<close>

lemma tell_returns: "\<exists>r. tell text = Some r"
  by (simp add: tell_def)

lemma prepare_returns: "\<exists>r. prepare w opts err h = Some r"
proof -
  have index: "\<exists>r. mch_btf_index_init b err h = Some r" for b
    using mch_btf_index_init_cases(1) [of b err h] mch_btf_index_init_cases(2) [of b h err]
    by (cases "unat (type_cnt b) \<le> 2 ^ 30 + 1 \<and> shd h \<and> shd (stl h)") (auto split: if_split_asm)
  show ?thesis
    unfolding prepare_def Let_def
    by (intro bind_logged_returns quietly_returns tell_returns) (auto simp: index quietly_def bind_logged_def split: sum.split prod.split)
qed

lemma process_object_returns:
  assumes idx: "index_for b idx" and ok: "work_ok b wk" and fits: "ext_sizes_fit w"
  shows "\<exists>r. process_object w opts idx err path wk = Some r"
proof -
  have own: "\<exists>r. mch_extract_object_seeds_with_requirements idx ob (Some path) err st = Some r" for ob st
    using extract_object_seeds_loop_returns [OF idx] by (simp add: mch_extract_object_seeds_with_requirements_def)
  have core: "\<exists>r. mch_extract_core_relo_seeds_with_requirements idx (the (doc_btf object)) (doc_ext object) (Some path) err st
      = Some r"
    if load: "mch_load_object_btf (w_object w) (os_strerror (w_os w)) path err = Inr object"
      and st: "mch_extract_object_seeds_with_requirements idx (the (doc_btf object)) (Some path) err (work_seeds wk)
        = Some (Inr st)" for object st
  proof -
    obtain ob ext errno where ob: "w_object w path = (Some ob, ext, 0, errno)" "doc_ext object = ext"
      by (rule load_object_Inr [OF load])
    have "seed_invar b st"
      using extract_object_seeds_loop_Inr [OF idx, of "work_seeds wk"] st ok
      by (auto simp: mch_extract_object_seeds_with_requirements_def work_ok_def)
    moreover have "length raw < 2 ^ 32" if "ext = Some x" "ext_raw x = Some raw" for x raw
      using fits ob(1) that unfolding ext_sizes_fit_def by blast
    ultimately show ?thesis using extract_core_relo_result [OF idx] ob(2) by blast
  qed
  show ?thesis
    unfolding process_object_def
    by (intro bind_logged_returns quietly_returns tell_returns own core) (simp_all add: quietly_Inr)
qed

lemma process_objects_returns:
  assumes idx: "index_for b idx" and fits: "ext_sizes_fit w"
  shows "work_ok b wk \<Longrightarrow> \<exists>r. process_objects w opts idx err paths wk = Some r"
proof (induction paths arbitrary: wk)
  case (Cons path paths)
  have "work_ok b wk1" if "process_object w opts idx err path wk = Some (log, Inr wk1)" for log wk1
    using process_object_Inr [OF idx Cons.prems fits that] by blast
  then show ?case
    unfolding process_objects.simps
    by (intro bind_logged_returns process_object_returns [OF idx Cons.prems fits]) (rule Cons.IH)
qed simp

lemma analyse_returns:
  assumes fits: "ext_sizes_fit w"
  shows "\<exists>r. analyse w opts err h = Some r"
proof -
  have clo: "\<exists>r. mch_compute_dependency_closure_with_options b (wk_required wk) stats options err h1 = Some r"
    if "work_ok b wk" for b wk stats options h1
    using closure_total [OF work_ok_seeds(1) [OF that]] by blast
  have "\<exists>r. bind_logged (process_objects w opts idx err (cl_objects opts) wk0) (\<lambda>wk.
      bind_logged (tell (say opts 0 ''computing dependency closure'')) (\<lambda>_.
      bind_logged (quietly (mch_compute_dependency_closure_with_options b (wk_required wk) mch_closure_stats_init
        (Some (closure_options opts wk)) err (wk_heap wk))) (\<lambda>(required, stats, h').
      Some ([], Inr (b, wk\<lparr>wk_required := required, wk_heap := h'\<rparr>, stats))))) = Some r"
    if prep: "prepare w opts err h = Some (log, Inr (b, idx, wk0))" for log b idx wk0
  proof -
    note start = prepare_Inr [OF prep]
    have "work_ok b wk" if "process_objects w opts idx err (cl_objects opts) wk0 = Some (log, Inr wk)" for log wk
      using process_objects_Inr [OF start(1) fits start(2) that] by blast
    then show ?thesis
      by (intro bind_logged_returns quietly_returns tell_returns process_objects_returns [OF start(1) fits start(2)] clo)
        auto
  qed
  then show ?thesis
    unfolding analyse_def by (intro bind_logged_returns prepare_returns) (auto simp: split_beta)
qed

lemma write_output_returns:
  assumes "closure_start b (wk_required wk)" "well_founded_base n b"
  shows "\<exists>r. write_output w n opts b wk err fs = Some r"
proof -
  note emission = emission_returns [OF assms]
  have "\<exists>r. write_header_to_path env n path b (wk_required wk) options err h fs = Some r" for env path options h
  proof (cases "open_temp_output env path err fs")
    case (Pair r fs1)
    obtain rc written e h' where "mch_emit_header_with_options n (os_write_fails env) [] b (wk_required wk) options err h
        = Some (rc, written, e, h')"
      using emission by (metis prod_cases4)
    with Pair show ?thesis
      by (cases r) (auto simp: write_header_to_path_def Let_def split: prod.split option.split)
  qed
  then show ?thesis using emission
    by (cases "cl_output_path opts") (auto simp: write_output_def Let_def simp del: split_paired_Ex)
qed

lemma finish_returns:
  assumes "closure_start b (wk_required wk)" "well_founded_base n b"
  shows "\<exists>r. finish w n opts log b wk stats err fs = Some r"
  using write_output_returns [OF assms, of w opts err fs] by (auto simp: finish_def split: option.split)

end
