(* ===== verification/Emit_Sample.thy ===== *)
theory Emit_Sample
  imports Emit_Depth
begin

text \<open>
  The emitter on the sample BTF: the header of the struct, the typedef and the enum, and the facts on the
  sample's graphs that the properties ask for.
\<close>

definition sample_required :: mch_type_set where
  "sample_required = snd (mch_type_set_add (snd (mch_type_set_add sample_seeds 5)) 6)"

lemma sample_required_ok: "ts_invar sample_required" "ts_elems sample_required = {2, 5, 6}" "ts_count sample_required = 7"
  using sample_seeds_ok by (auto simp: sample_required_def ts.add_invar ts.add_elems)

lemma sample_required_ids: "required_ids sample_required = {2, 5, 6}"
proof -
  have "unat i = 2 \<longleftrightarrow> i = 2" "unat i = 5 \<longleftrightarrow> i = 5" "unat i = 6 \<longleftrightarrow> i = 6" for i :: u32
    by (auto simp: word_unat_eq_iff)
  then show ?thesis using sample_required_ok(2) by (auto simp: required_ids_def)
qed

lemma sample_required_start: "closure_start sample_base sample_required"
  using sample_required_ok sample_required_ids by (simp add: closure_start_def)

lemma sample_required_list: "required_list sample_required = [2, 5, 6]"
  unfolding required_list_def sample_required_ids by (simp add: insert_commute)

lemma sample_known [simp]:
  "known_type sample_base 0 = Some (plain_type BTF_KIND_UNKN 0 0)"
  "known_type sample_base 1 = Some (plain_type BTF_KIND_INT 1 4)"
  "known_type sample_base 2 = Some (record_type BTF_KIND_STRUCT 2 16
     [\<lparr>m_name_off = 3, m_type = 1, m_offset = 0\<rparr>, \<lparr>m_name_off = 0, m_type = 3, m_offset = 64\<rparr>])"
  "known_type sample_base 3 = Some (record_type BTF_KIND_UNION 0 8
     [\<lparr>m_name_off = 4, m_type = 1, m_offset = 0\<rparr>, \<lparr>m_name_off = 5, m_type = 4, m_offset = 0\<rparr>])"
  "known_type sample_base 4 = Some (plain_type BTF_KIND_PTR 0 2)"
  "known_type sample_base 5 = Some (plain_type BTF_KIND_TYPEDEF 6 2)"
  "known_type sample_base 6 = Some (enum_type 0 [\<lparr>e_name_off = 7, e_val = 0\<rparr>])"
  by (simp_all add: known_type_def sample_base_def btf_of_def)

lemma sample_void [simp]: "type_by_id sample_base 0 = Some (plain_type BTF_KIND_UNKN 0 0)"
  by (simp add: sample_base_def btf_of_def)

lemma sample_with_type:
  "known_type sample_base i = Some t \<Longrightarrow> with_type sample_base i f st = f t st"
  by (simp add: with_type_def after_def emit_type_known(1))

lemma sample_type_names [simp]:
  "mch_btf_type_name sample_base (plain_type k n r) = the (string_at sample_strings n)"
  if "n \<in> {0, 1, 6}" for n
  using that by (auto simp: mch_btf_type_name_def)

lemma append_record: "st\<lparr>ec_out := s\<rparr>\<lparr>ec_out := s'\<rparr> = st\<lparr>ec_out := s'\<rparr>"
  by simp

lemma sample_decl_int:
  "emit_decl_ex sample_base rq (Suc n) 1 d f st
     = Some (True, st\<lparr>ec_out := ec_out st @ ''unsigned int'' @ spaced d\<rparr>)"
  by (simp add: emit_decl_ex.simps sample_with_type emit_decl_kind_def put_def int_type_name_def Let_def plain_type_def)

lemma sample_decl_struct:
  "emit_decl_ex sample_base rq (Suc n) 2 d f st
     = Some (True, st\<lparr>ec_out := ec_out st @ ''struct task'' @ spaced d\<rparr>)"
  by (simp add: emit_decl_ex.simps sample_with_type emit_decl_kind_def put_def record_keyword_def
      mch_btf_type_name_def)

lemma sample_decl_pointer:
  "length d < 511 \<Longrightarrow> emit_decl_ex sample_base rq (Suc (Suc n)) 4 d f st
     = Some (True, st\<lparr>ec_out := ec_out st @ ''struct task *'' @ d\<rparr>)"
  by (simp add: emit_decl_ex.simps(2) [of _ _ "Suc n"] sample_with_type emit_decl_kind_def make_declarator_def
      sample_decl_struct spaced_def)

lemma sample_upt: "[0..<2] = [0, 1 :: nat]"
  by (simp add: upt_rec)

declare never_hidden [simp]

text \<open>Requirements that hide no member.\<close>

definition shows_all :: "mch_requirements option \<Rightarrow> bool" where
  "shows_all rq \<longleftrightarrow> (\<forall>i k. \<not> member_hidden rq i k)"

lemma shows_all_None [simp]: "shows_all None"
  by (simp add: shows_all_def)

lemma shows_allD [simp]: "shows_all rq \<Longrightarrow> \<not> member_hidden rq i k"
  by (simp add: shows_all_def)

lemma sample_decl_union:
  "shows_all rq \<Longrightarrow> emit_decl_ex sample_base rq (Suc (Suc (Suc n))) 3 [] f st
     = Some (True, st\<lparr>ec_out := ec_out st @ ''union {'' @ newline @ ''  unsigned int state;'' @ newline
         @ ''  struct task *next;'' @ newline @ ''}''\<rparr>)"
  by (simp add: emit_decl_ex.simps(2) [of _ _ "Suc (Suc n)"] sample_with_type emit_decl_kind_def
      mch_btf_type_name_def emit_inline_record_def emit_record_body_def sample_upt put_def success_def
      bitfield_size_def sample_decl_int sample_decl_pointer spaced_def)

lemma sample_record_body:
  "shows_all rq \<Longrightarrow> known_type sample_base 2 = Some t \<Longrightarrow>
     emit_record_body (emit_decl_ex sample_base rq (Suc (Suc (Suc n)))) sample_base rq 2 t st
     = Some (True, st\<lparr>ec_out := ec_out st @ '' {'' @ newline @ ''  unsigned int pid;'' @ newline
         @ ''  union {'' @ newline @ ''  unsigned int state;'' @ newline
         @ ''  struct task *next;'' @ newline @ ''};'' @ newline @ ''}''\<rparr>)"
  by (auto simp: emit_record_body_def sample_upt put_def success_def bitfield_size_def sample_decl_int
      sample_decl_union spaced_def)

text \<open>The dependencies, once the forward declaration is there.\<close>

lemma sample_forward_again: "ec_fwd_state st ! 2 = 1 \<Longrightarrow> emit_forward_decl sample_base 2 st = Some (True, st)"
  by (simp add: emit_forward_decl_def sample_with_type reading_def success_def Let_def)

lemma sample_soft:
  "ec_fwd_state st ! 2 = 1 \<Longrightarrow> emit_soft_deps sample_base rq (Suc n) 2 st = Some (True, st)"
  "ec_fwd_state st ! 2 = 1 \<Longrightarrow> emit_soft_deps sample_base rq (Suc (Suc n)) 4 st = Some (True, st)"
  by (simp_all add: emit_soft_deps.simps sample_with_type sample_forward_again)

lemma sample_hard:
  "emit_hard_deps sample_base rq (Suc n) 1 st = Some (True, st)"
  "ec_fwd_state st ! 2 = 1 \<Longrightarrow> emit_hard_deps sample_base rq (Suc (Suc (Suc n))) 4 st = Some (True, st)"
  by (simp_all add: emit_hard_deps.simps sample_with_type success_def sample_soft)

lemma sample_hard_union:
  "shows_all rq \<Longrightarrow> ec_fwd_state st ! 2 = 1 \<Longrightarrow> emit_hard_deps sample_base rq (Suc (Suc (Suc (Suc n)))) 3 st = Some (True, st)"
  by (simp add: emit_hard_deps.simps(2) [of _ _ "Suc (Suc (Suc n))"] sample_with_type is_named_record_def
      mch_btf_type_name_def shown_members_def sample_upt sample_hard)

lemma sample_record:
  assumes "shows_all rq" "ec_fwd_state st ! 2 = 1" and "ec_record_state st ! 2 = 0" and "2 < length (ec_record_state st)"
  shows "emit_record_definition sample_base rq (Suc (Suc (Suc (Suc (Suc n))))) 2 st
     = Some (True, st\<lparr>ec_out := ec_out st @ ''struct task {'' @ newline @ ''  unsigned int pid;'' @ newline
         @ ''  union {'' @ newline @ ''  unsigned int state;'' @ newline
         @ ''  struct task *next;'' @ newline @ ''};'' @ newline @ ''};'' @ newline @ newline,
         ec_record_state := (ec_record_state st)[2 := 2]\<rparr>)"
  using assms
  by (simp add: emit_record_definition.simps(2) [of _ _ "Suc (Suc (Suc (Suc n)))"] sample_with_type
      is_named_record_def mch_btf_type_name_def reading_def set_record_state_def shown_members_def sample_upt
      sample_hard sample_hard_union put_def sample_record_body)

lemma sample_target: "typedef_target_needs_hard_deps sample_base 2 st = (False, st)"
proof -
  have "hard_target_loop (Suc 31) sample_base 2 st = (False, st)"
    by (simp only: hard_target_loop.simps(2) emit_type_known(1) [OF sample_known(3)])
      (simp add: mch_btf_type_name_def)
  then show ?thesis by (simp add: typedef_target_needs_hard_deps_def)
qed

lemma sample_typedef:
  assumes "ec_fwd_state st ! 2 = 1" and "ec_typedef_state st ! 5 = 0"
  shows "emit_typedef_definition sample_base rq (Suc (Suc n)) 5 st
     = Some (True, st\<lparr>ec_out := ec_out st @ ''typedef struct task task_t;'' @ newline @ newline,
         ec_typedef_state := (ec_typedef_state st)[5 := 2]\<rparr>)"
  using assms
  by (simp add: emit_typedef_definition.simps(2) [of _ _ "Suc n"] sample_with_type reading_def set_typedef_state_def
      after_def sample_target sample_soft put_def emit_decl_def sample_decl_struct spaced_def mch_btf_type_name_def)

lemma digit_0: "digit_char 0 = CHR ''0''"
  by code_simp

lemma sample_enum_definition:
  "emit_enum_definition sample_base 6 st = Some (True, st\<lparr>ec_out := ec_out st @ ''enum {'' @ newline
     @ ''  IDLE = 0'' @ newline @ ''};'' @ newline @ newline\<rparr>)"
  by (simp add: emit_enum_definition_def sample_with_type mch_btf_type_name_def put_def enum_line_def value_name_def
      show_d_def show_nat.simps digit_0)

lemma sample_forward:
  "ec_fwd_state st ! 2 = 0 \<Longrightarrow> emit_forward_decl sample_base 2 st
     = Some (True, st\<lparr>ec_out := ec_out st @ ''struct task;'' @ newline, ec_fwd_state := (ec_fwd_state st)[2 := 1]\<rparr>)"
  by (simp add: emit_forward_decl_def sample_with_type reading_def put_def set_fwd_state_def record_keyword_def
      mch_btf_type_name_def Let_def)

lemma sample_kinds [simp]:
  "named_forward sample_base 2" "\<not> named_forward sample_base 5" "\<not> named_forward sample_base 6"
  "\<not> is_enum sample_base 2" "\<not> is_enum sample_base 5" "is_enum sample_base 6"
  "\<not> is_typedef sample_base 2" "is_typedef sample_base 5" "\<not> is_typedef sample_base 6"
  "named_record sample_base 2" "\<not> named_record sample_base 5" "\<not> named_record sample_base 6"
  by (simp_all add: named_forward_def is_enum_def is_typedef_def named_record_def of_type_def is_named_record_def
      mch_btf_type_name_def)

definition sample_header :: string where
  "sample_header = concat preamble @ ''struct task;'' @ newline @ newline
     @ ''enum {'' @ newline @ ''  IDLE = 0'' @ newline @ ''};'' @ newline @ newline
     @ ''typedef struct task task_t;'' @ newline @ newline
     @ ''struct task {'' @ newline @ ''  unsigned int pid;'' @ newline
     @ ''  union {'' @ newline @ ''  unsigned int state;'' @ newline
     @ ''  struct task *next;'' @ newline @ ''};'' @ newline @ ''};'' @ newline @ newline
     @ concat postamble"

lemma run_puts: "run_all (map put ss) st = Some (True, st\<lparr>ec_out := ec_out st @ concat ss\<rparr>)"
  by (induction ss arbitrary: st) (simp_all add: put_def)

lemma sample_header_run:
  "mch_emit_header_with_options (Suc (Suc (Suc (Suc (Suc n))))) (\<lambda>_. False) [] sample_base sample_required None
     mch_error_clear plenty = Some (True, sample_header, mch_error_clear, plenty)"
proof -
  let ?rest = "[emit_forward_decl sample_base 2, put newline, emit_enum_definition sample_base 6,
      emit_typedef_definition sample_base None (Suc (Suc (Suc (Suc (Suc n))))) 5,
      emit_record_definition sample_base None (Suc (Suc (Suc (Suc (Suc n))))) 2]"
  have zero: "ec_fwd_state (fresh_ctx [] sample_base e) ! 2 = 0" "ec_record_state (fresh_ctx [] sample_base e) ! 2 = 0"
    "ec_typedef_state (fresh_ctx [] sample_base e) ! 5 = 0" "length (ec_record_state (fresh_ctx [] sample_base e)) = 7"
    "length (ec_fwd_state (fresh_ctx [] sample_base e)) = 7" "ec_out (fresh_ctx [] sample_base e) = []" for e
    by (simp_all add: fresh_ctx_def Let_def)
  have "emit_ids_text sample_base None (Suc (Suc (Suc (Suc (Suc n))))) [2, 5, 6]
      = run_all (map put preamble @ ?rest @ map put postamble)"
    by (simp add: emit_ids_text_def)
  moreover have "run_all (map put preamble @ ?rest @ map put postamble) (fresh_ctx [] sample_base mch_error_clear)
      = Some (True, (fresh_ctx [] sample_base mch_error_clear)
          \<lparr>ec_fwd_state := (ec_fwd_state (fresh_ctx [] sample_base mch_error_clear))[2 := 1],
           ec_typedef_state := (ec_typedef_state (fresh_ctx [] sample_base mch_error_clear))[5 := 2],
           ec_record_state := (ec_record_state (fresh_ctx [] sample_base mch_error_clear))[2 := 2],
           ec_out := sample_header\<rparr>)"
    by (simp add: run_all_append run_puts sample_forward put_def zero sample_enum_definition sample_typedef
        sample_record sample_header_def)
  ultimately show ?thesis
    by (simp add: header_plenty [OF sample_required_start] sample_required_ids sample_required_list
        option_requirements_def) (simp add: fresh_ctx_def Let_def)
qed

text \<open>At any larger depth, by \<open>header_deeper\<close>.\<close>

lemma sample_header_deep:
  assumes "5 \<le> n"
  shows "mch_emit_header_with_options n (\<lambda>_. False) [] sample_base sample_required None mch_error_clear plenty
     = Some (True, sample_header, mch_error_clear, plenty)"
proof -
  obtain k where "n = Suc (Suc (Suc (Suc (Suc k))))"
    using assms by (metis add_2_eq_Suc add_Suc le_iff_add numeral_Bit1 numeral_code(2) Suc3_eq_add_3 eval_nat_numeral(3))
  then show ?thesis using sample_header_run by simp
qed

subsection \<open>The graphs of the sample\<close>

lemma rank_acyclic: "(\<And>i j. (i, j) \<in> r \<Longrightarrow> rank j < (rank i :: nat)) \<Longrightarrow> acyclic r"
  by (rule acyclicI_order [of r rank]) auto

lemma sample_ids_cases:
  assumes "known_type sample_base i = Some t"
  obtains "i = 0" | "i = 1" | "i = 2" | "i = 3" | "i = 4" | "i = 5" | "i = 6"
proof -
  have "i < 7" using known_type_some [OF assms] by simp
  then have "unat i < 7" by (simp add: word_less_nat_alt)
  then have "unat i \<in> {0, 1, 2, 3, 4, 5, 6}" by auto
  then have "i = 0 \<or> i = 1 \<or> i = 2 \<or> i = 3 \<or> i = 4 \<or> i = 5 \<or> i = 6" by (auto simp: word_unat_eq_iff)
  then show thesis using that by blast
qed

definition sample_rank :: "u32 \<Rightarrow> nat" where
  "sample_rank i = (if i = 3 then 2 else if i = 4 \<or> i = 5 then 1 else 0)"

lemma sample_type_name [simp]:
  "mch_btf_type_name sample_base (record_type k n r ms) = (if n = 0 then [] else the (string_at sample_strings n))"
  if "n \<in> {0, 2}" for n
  using that by (auto simp: mch_btf_type_name_def)

lemma sample_acyclic:
  "acyclic (decl_edges sample_base None)" "acyclic (soft_edges sample_base)" "acyclic (hard_edges sample_base None)"
proof -
  have decl: "decl_targets sample_base None i = (case known_type sample_base i of None \<Rightarrow> [] | Some t \<Rightarrow>
      decl_targets sample_base None i)" for i
    by (auto simp: decl_targets_def known_type_def split: option.split)
  show "acyclic (decl_edges sample_base None)"
  proof (rule rank_acyclic [of _ sample_rank])
    fix i j assume "(i, j) \<in> decl_edges sample_base None"
    then have j: "j \<in> set (decl_targets sample_base None i)" by (simp add: decl_edges_def)
    then obtain t where "known_type sample_base i = Some t" using decl [of i] by (auto split: option.splits)
    then show "sample_rank j < sample_rank i" using j
      by (cases rule: sample_ids_cases) (auto simp: decl_targets_def sample_upt sample_rank_def)
  qed
  show "acyclic (soft_edges sample_base)"
  proof (rule rank_acyclic [of _ sample_rank])
    fix i j assume "(i, j) \<in> soft_edges sample_base"
    then obtain t where t: "known_type sample_base i = Some t" "j \<in> set (soft_targets t)"
      by (auto simp: soft_edges_def)
    from t(1) show "sample_rank j < sample_rank i" using t
      by (cases rule: sample_ids_cases) (auto simp: soft_targets_def sample_rank_def)
  qed
  show "acyclic (hard_edges sample_base None)"
  proof (rule rank_acyclic [of _ sample_rank])
    fix i j assume "(i, j) \<in> hard_edges sample_base None"
    then obtain t where t: "known_type sample_base i = Some t" "j \<in> set (hard_targets sample_base None i t)"
      by (auto simp: hard_edges_def)
    from t(1) show "sample_rank j < sample_rank i" using t
      by (cases rule: sample_ids_cases) (auto simp: hard_targets_def shown_members_def sample_upt sample_rank_def)
  qed
qed

lemma hard_target_None: "known_type b k = None \<Longrightarrow> \<not> hard_target b k"
proof -
  assume "known_type b k = None"
  then have "fst (emit_type_by_id b k blank_ctx) = None" by (rule emit_type_known(2))
  then obtain st where "emit_type_by_id b k blank_ctx = (None, st)" by (metis prod.collapse)
  then have "\<not> fst (hard_target_loop (Suc 31) b k blank_ctx)" by (simp only: hard_target_loop.simps(2)) simp
  then show ?thesis by (simp add: hard_target_def typedef_target_needs_hard_deps_def)
qed

lemma hard_target_Some:
  assumes "known_type b k = Some t"
    and "kind t \<notin> {BTF_KIND_CONST, BTF_KIND_VOLATILE, BTF_KIND_RESTRICT, BTF_KIND_TYPE_TAG, BTF_KIND_DECL_TAG}"
  shows "hard_target b k \<longleftrightarrow> kind t = BTF_KIND_ARRAY \<or> is_record_kind (kind t) \<and> mch_btf_type_name b t = []"
proof -
  have "fst (hard_target_loop (Suc 31) b k blank_ctx)
      \<longleftrightarrow> kind t = BTF_KIND_ARRAY \<or> is_record_kind (kind t) \<and> mch_btf_type_name b t = []"
    unfolding hard_target_loop.simps(2) emit_type_known(1) [OF assms(1)]
    using assms(2) by (cases "kind t") simp_all
  then show ?thesis by (simp add: hard_target_def typedef_target_needs_hard_deps_def)
qed

lemma sample_soft_item: "soft_item sample_base i x \<Longrightarrow> i \<noteq> 5 \<Longrightarrow> x = Forward 2"
proof (induction rule: soft_item.induct)
  case (soft_item_here i t x)
  from soft_item_here(1) show ?case using soft_item_here
    by (cases rule: sample_ids_cases) (auto simp: soft_here_def split: if_splits)
next
  case (soft_item_through i t j x)
  from soft_item_through(1) show ?case using soft_item_through
    by (cases rule: sample_ids_cases) (auto simp: soft_targets_def)
qed

lemma sample_hard_item: "hard_item sample_base None i x \<Longrightarrow> i \<noteq> 2 \<Longrightarrow> i \<noteq> 5 \<Longrightarrow> x = Forward 2"
proof (induction rule: hard_item.induct)
  case (hard_item_here i t x)
  from hard_item_here(1) show ?case using hard_item_here
    by (cases rule: sample_ids_cases) (auto simp: hard_here_def mch_btf_type_name_def sample_soft_item)
next
  case (hard_item_through i t j x)
  from hard_item_through(1) show ?case using hard_item_through
    by (cases rule: sample_ids_cases) (auto simp: hard_targets_def shown_members_def sample_upt)
qed

lemma sample_no_hard_target: "known_type sample_base i = Some t \<Longrightarrow> \<not> hard_target sample_base (size_or_type t)"
proof -
  have none: "known_type sample_base 8 = None" "known_type sample_base 16 = None" by (simp_all add: known_type_def)
  assume t: "known_type sample_base i = Some t"
  then show ?thesis
    by (cases rule: sample_ids_cases)
      (use t in \<open>auto simp: hard_target_Some hard_target_None [OF none(1)] hard_target_None [OF none(2)]
        mch_btf_type_name_def\<close>)
qed

lemma sample_requires:
  "requires sample_base None (Typedef_Of i) \<subseteq> {Forward 2}" "requires sample_base None (Record_Of i) \<subseteq> {Forward 2}"
proof -
  show "requires sample_base None (Typedef_Of i) \<subseteq> {Forward 2}"
  proof (cases "known_type sample_base i")
    case (Some t)
    from Some have "size_or_type t \<noteq> 5" by (cases rule: sample_ids_cases) (use Some in auto)
    then show ?thesis using Some sample_no_hard_target [OF Some] sample_soft_item by auto
  qed simp
  show "requires sample_base None (Record_Of i) \<subseteq> {Forward 2}"
  proof (cases "known_type sample_base i")
    case (Some t)
    from Some have "set (shown_members None i t) \<subseteq> {0, 1, 3, 4}"
      by (cases rule: sample_ids_cases)
        (use Some in \<open>auto simp: shown_members_def enum_type_def plain_type_def dest!: less_2_cases\<close>)
    then show ?thesis using Some sample_hard_item by fastforce
  qed simp
qed

lemma sample_req_acyclic: "acyclic (req_edges sample_base None)"
proof (rule acyclicI_order [of _ "\<lambda>x. if is_forward x then 0 else 1 :: nat"])
  fix x y
  assume "(x, y) \<in> req_edges sample_base None"
  then have "y \<in> requires sample_base None x" by (simp add: req_edges_def)
  moreover from this have "\<not> is_forward x" by (auto simp: is_forward_def)
  moreover from calculation have "y = Forward 2"
    using sample_requires by (cases x) (auto simp: is_forward_def simp del: requires.simps(2,3))
  ultimately show "(if is_forward y then 0 else 1 :: nat) < (if is_forward x then 0 else 1)"
    by (simp add: is_forward_def)
qed

end
