(* ===== verification/Seed_Properties.thy ===== *)
theory Seed_Properties
  imports Core_Relo Sample
begin

text \<open>
  The properties of the seed extraction, each with its application to the sample object: the
  resolution of a type, the object's own types, access strings, and CO-RE relocations.
\<close>

subsection \<open>The sample object\<close>

lemma sample_walk_steps:
  "walk sample_object (Suc n) 2 = ([2], Stops_At 2)" "walk sample_object (Suc (Suc n)) 3 = ([3, 2], Stops_At 2)"
  "walk sample_object (Suc n) 4 = ([4], Stops_At 4)" "walk sample_object (Suc n) 5 = ([5], Stops_At 5)"
  by (simp_all add: is_chain_kind_def word_le_nat_alt)

lemma sample_walks:
  "walk sample_object 32 2 = ([2], Stops_At 2)" "walk sample_object 32 3 = ([3, 2], Stops_At 2)"
  "walk sample_object 32 4 = ([4], Stops_At 4)" "walk sample_object 32 5 = ([5], Stops_At 5)"
  using sample_walk_steps(1) [of 31] sample_walk_steps(2) [of 30] sample_walk_steps(3,4) [of 31]
  by (simp_all only: Suc_numeral add_num_simps)

lemma sample_base_hits:
  "base_hits sample_base sample_object 2 = {2}" "base_hits sample_base sample_object 3 = {}"
  "base_hits sample_base sample_object 4 = {}" "base_hits sample_base sample_object 5 = {6}"
  by (simp_all add: base_hits_def is_seedable_kind_def mch_btf_type_name_def sample_task sample_mine sample_enum)
    (simp add: enum_candidates_def)

lemma sample_matches:
  "base_matches sample_base sample_object 2 = {2}" "base_matches sample_base sample_object 3 = {2}"
  "base_matches sample_base sample_object 4 = {}" "base_matches sample_base sample_object 5 = {6}"
  by (simp_all add: base_matches_def sample_walks first_hit_def sample_base_hits)

lemma sample_candidates:
  "is_candidate sample_object 1 = False" "is_candidate sample_object 2 = True"
  "is_candidate sample_object 3 = False" "is_candidate sample_object 4 = True"
  "is_candidate sample_object 5 = True"
  by (simp_all add: is_candidate_def is_seedable_kind_def mch_btf_type_name_def)

lemma sample_object_seeds:
  "object_seeds sample_base sample_object 1 = {}" "object_seeds sample_base sample_object 2 = {2}"
  "object_seeds sample_base sample_object 3 = {}" "object_seeds sample_base sample_object 4 = {}"
  "object_seeds sample_base sample_object 5 = {6}"
  by (simp_all add: object_seeds_def sample_candidates sample_matches)

definition sample_state :: "mch_requirements option \<Rightarrow> seed_state" where
  "sample_state rq = \<lparr>ss_seeds = empty_set 7, ss_requirements = rq, ss_stats = mch_seed_stats_init,
     ss_heap = plenty\<rparr>"

lemma sample_state_ok:
  "seed_invar sample_base (sample_state None)" "seed_invar sample_base (sample_state (Some sample_requirements))"
proof -
  have "unat (7 :: size_t) \<le> 2 ^ 32" by simp
  note empty = empty_set_ok [OF this]
  show "seed_invar sample_base (sample_state None)" using empty by (simp add: seed_invar_def sample_state_def)
  show "seed_invar sample_base (sample_state (Some sample_requirements))"
    using empty sample_requirements_ok by (simp add: seed_invar_def sample_state_def)
qed

subsection \<open>Resolution\<close>

text \<open>
  C14: for every object BTF, cyclic chains included, the resolution of a type returns, and its result is
  read off the walk along at most 32 typedefs and modifiers: the first type on the way that the base
  BTF answers for decides, with its one match or with an ambiguity error; without
  an answer the end of the walk decides.
\<close>

theorem resolution_follows_the_chain:
  assumes "built_index b idx"
  shows "\<exists>r. resolve_object_type_to_base idx ob i path reference allow err = Some r
    \<and> (case first_hit b ob (fst (walk ob 32 i)) of
         Some k \<Rightarrow> (\<exists>j. base_hits b ob k = {j} \<and> 0 < j \<and> j < type_cnt b \<and> r = Inr (Some j))
           \<or> (\<forall>j. base_hits b ob k \<noteq> {j}) \<and> (\<exists>e. r = Inl e \<and> take 9 (message e) = ''ambiguous'')
       | None \<Rightarrow>
           if allow \<and> (\<exists>k. snd (walk ob 32 i) = Stops_At k) then r = Inr None
           else \<exists>e. r = Inl e \<and> end_message ob i reference (snd (walk ob 32 i)) (message e))"
proof -
  obtain r where run: "resolve_object_type_to_base idx ob i path reference allow err = Some r"
    and r: "resolves b ob i reference allow (walk ob 32 i) r"
    using resolve_walk [OF built_index_for [OF assms]] by blast
  have "0 < j \<and> j < type_cnt b" if "base_hits b ob k = {j}" for j k
    using base_hits_below [of b ob k] that by auto
  with r have "case first_hit b ob (fst (walk ob 32 i)) of
         Some k \<Rightarrow> (\<exists>j. base_hits b ob k = {j} \<and> 0 < j \<and> j < type_cnt b \<and> r = Inr (Some j))
           \<or> (\<forall>j. base_hits b ob k \<noteq> {j}) \<and> (\<exists>e. r = Inl e \<and> take 9 (message e) = ''ambiguous'')
       | None \<Rightarrow>
           if allow \<and> (\<exists>k. snd (walk ob 32 i) = Stops_At k) then r = Inr None
           else \<exists>e. r = Inl e \<and> end_message ob i reference (snd (walk ob 32 i)) (message e)"
    unfolding resolves_def by (cases "first_hit b ob (fst (walk ob 32 i))") (simp, fastforce)
  with run show ?thesis by blast
qed

theorem resolution_follows_the_chain_witness:
  "resolve_object_type_to_base sample_index sample_object 3 None ''test'' False mch_error_clear = Some (Inr (Some 2))
    \<and> resolve_object_type_to_base sample_index sample_object 4 None ''test'' True mch_error_clear = Some (Inr None)"
  using resolution_follows_the_chain [OF sample_index_built, of sample_object 3 None "''test''" False mch_error_clear]
    resolution_follows_the_chain [OF sample_index_built, of sample_object 4 None "''test''" True mch_error_clear]
  by (auto simp: sample_walks first_hit_def sample_base_hits)

subsection \<open>The object's own types\<close>

text \<open>
  C12: a successful extraction of the object's seeds adds exactly the base types that its candidates
  resolve to, to the seeds and to the type roots; it touches no record member; the
  counters count the candidates, those without a match, and the new seeds; and the requirements speak of seeds
  only, as before.
\<close>

theorem object_seeds_exact:
  assumes "built_index b idx" and "seed_invar b st"
    and "mch_extract_object_seeds_with_requirements idx ob path err st = Some (Inr st')"
  shows "seed_invar b st'
    \<and> ts_elems (ss_seeds st') = ts_elems (ss_seeds st) \<union> unat ` (\<Union>i \<in> set (type_ids ob). object_seeds b ob i)
    \<and> (\<forall>r. ss_requirements st = Some r \<longrightarrow> (\<exists>r'. ss_requirements st' = Some r'
         \<and> req_roots r' = req_roots r \<union> unat ` (\<Union>i \<in> set (type_ids ob). object_seeds b ob i)
         \<and> req_members r' = req_members r))
    \<and> seed_candidates (ss_stats st') = seed_candidates (ss_stats st)
        + of_nat (length (filter (is_candidate ob) (type_ids ob)))
    \<and> program_local_types (ss_stats st') = program_local_types (ss_stats st)
        + of_nat (length (filter (\<lambda>i. is_candidate ob i \<and> object_seeds b ob i = {}) (type_ids ob)))
    \<and> kernel_types (ss_stats st') = kernel_types (ss_stats st)
        + (ts_selected (ss_seeds st') - ts_selected (ss_seeds st))"
proof -
  have "extract_object_seeds_loop idx ob path err (type_ids ob) st = Some (Inr st')"
    using assms(3) by (simp add: mch_extract_object_seeds_with_requirements_def)
  note done1 = extract_object_seeds_loop_Inr [OF built_index_for [OF assms(1)] assms(2) this]
  then show ?thesis by (auto simp: extends_roots_def seeds_counted_def split: option.splits)
qed

lemma sample_extraction:
  "\<exists>st'. mch_extract_object_seeds_with_requirements sample_index sample_object path err
      (sample_state (Some sample_requirements)) = Some (Inr st')"
proof -
  have "\<forall>i \<in> set (type_ids sample_object). \<not> seed_fails sample_base sample_object i"
    by (simp add: sample_type_ids seed_fails_def sample_candidates sample_matches sample_walks)
  then show ?thesis
    using extract_object_seeds_loop_fails [OF built_index_for [OF sample_index_built] sample_state_ok(2),
        of sample_object path err "type_ids sample_object"]
    by (auto simp: mch_extract_object_seeds_with_requirements_def sample_state_def) (metis sum.exhaust)
qed

theorem object_seeds_exact_witness:
  "\<exists>st'. mch_extract_object_seeds_with_requirements sample_index sample_object None mch_error_clear
      (sample_state (Some sample_requirements)) = Some (Inr st')
    \<and> ts_elems (ss_seeds st') = {2, 6} \<and> seed_candidates (ss_stats st') = 3
    \<and> program_local_types (ss_stats st') = 1"
proof -
  obtain st' where run: "mch_extract_object_seeds_with_requirements sample_index sample_object None mch_error_clear
      (sample_state (Some sample_requirements)) = Some (Inr st')" using sample_extraction by blast
  have "ts_elems (ss_seeds (sample_state rq)) = {}" for rq
    by (simp add: sample_state_def empty_set_ok)
  moreover have "(\<Union>i \<in> set (type_ids sample_object). object_seeds sample_base sample_object i) = {2, 6}"
    by (auto simp: sample_type_ids sample_object_seeds)
  ultimately show ?thesis
    using object_seeds_exact [OF sample_index_built sample_state_ok(2) run] run
    by (simp add: sample_type_ids sample_object_seeds sample_candidates sample_state_def mch_seed_stats_init_def)
qed

text \<open>
  C20: when no allocation fails, the extraction returns, and it reports an error exactly when one of the
  object's types is missing or is a candidate whose first answer in the base BTF is not unique or, without an answer, whose chain
  does not end at a type. A chain into void does not end at a type: a valid typedef of void that the base does not have
  makes the extraction fail, where section 10.2 of \<^verbatim>\<open>docs/SPEC.md\<close> would leave it out without error.
\<close>

theorem object_seeds_fail_exactly:
  assumes "built_index b idx" and "seed_invar b st" and "ss_requirements st = None \<or> ss_heap st = plenty"
  shows "\<exists>r. mch_extract_object_seeds_with_requirements idx ob path err st = Some r
    \<and> ((\<exists>e. r = Inl e) \<longleftrightarrow> (\<exists>i \<in> set (type_ids ob). type_by_id ob i = None
         \<or> is_candidate ob i
           \<and> (case first_hit b ob (fst (walk ob 32 i)) of
                Some k \<Rightarrow> \<forall>j. base_hits b ob k \<noteq> {j}
              | None \<Rightarrow> \<forall>k. snd (walk ob 32 i) \<noteq> Stops_At k)))"
proof -
  have "seed_fails b ob i \<longleftrightarrow> type_by_id ob i = None \<or> is_candidate ob i
      \<and> (case first_hit b ob (fst (walk ob 32 i)) of
           Some k \<Rightarrow> \<forall>j. base_hits b ob k \<noteq> {j}
         | None \<Rightarrow> \<forall>k. snd (walk ob 32 i) \<noteq> Stops_At k)" for i
    by (auto simp: seed_fails_def base_matches_def dest: first_hit_Some split: option.splits)
  then show ?thesis
    using extract_object_seeds_loop_fails [OF built_index_for [OF assms(1)] assms(2,3), of ob path err "type_ids ob"]
    by (simp add: mch_extract_object_seeds_with_requirements_def)
qed

text \<open>\<^verbatim>\<open>typedef void mine;\<close>\<close>

definition sample_void_object :: btf where
  "sample_void_object = btf_of [plain_type BTF_KIND_UNKN 0 0, plain_type BTF_KIND_TYPEDEF 8 0] sample_strings"

lemma sample_void_type:
  "type_ids sample_void_object = [1]" "type_by_id sample_void_object 1 = Some (plain_type BTF_KIND_TYPEDEF 8 0)"
  "type_cnt sample_void_object = 2" "mch_btf_type_name sample_void_object (plain_type BTF_KIND_TYPEDEF 8 0) = ''mine''"
  by (simp_all add: sample_void_object_def btf_of_def type_ids_def upt_rec mch_btf_type_name_def)

lemma sample_void_unmatched:
  "is_candidate sample_void_object 1" "base_hits sample_base sample_void_object 1 = {}" "walk sample_void_object 32 1 = ([1], Invalid_Id 0)"
proof -
  show "is_candidate sample_void_object 1" by (simp add: is_candidate_def is_seedable_kind_def sample_void_type)
  have "candidates sample_base ''mine'' BTF_KIND_TYPEDEF = {}"
    unfolding candidates_def sample_type_ids by (auto simp: index_key_def mch_btf_type_name_def is_indexed_kind_def)
  then show "base_hits sample_base sample_void_object 1 = {}"
    by (simp add: base_hits_def is_seedable_kind_def sample_void_type)
  have "walk sample_void_object (Suc (Suc n)) 1 = ([1], Invalid_Id 0)" for n
    by (simp add: sample_void_type is_chain_kind_def word_le_nat_alt)
  from this [of 30] show "walk sample_void_object 32 1 = ([1], Invalid_Id 0)" by (simp only: Suc_numeral add_num_simps)
qed

theorem object_seeds_fail_exactly_witness:
  "(\<exists>st'. mch_extract_object_seeds_with_requirements sample_index sample_object None mch_error_clear
      (sample_state None) = Some (Inr st'))
   \<and> (\<exists>e. mch_extract_object_seeds_with_requirements sample_index sample_void_object None mch_error_clear
      (sample_state None) = Some (Inl e))"
proof -
  have plenty: "ss_requirements (sample_state None) = None \<or> ss_heap (sample_state None) = plenty"
    by (simp add: sample_state_def)
  note exact = object_seeds_fail_exactly [OF sample_index_built sample_state_ok(1) plenty, of _ None mch_error_clear]
  from exact [of sample_object]
  obtain r where r: "mch_extract_object_seeds_with_requirements sample_index sample_object None mch_error_clear
      (sample_state None) = Some r" "\<not> (\<exists>e. r = Inl e)"
    by (auto simp: sample_type_ids sample_candidates sample_walks first_hit_def sample_base_hits)
  from exact [of sample_void_object]
  have "\<exists>e. mch_extract_object_seeds_with_requirements sample_index sample_void_object None mch_error_clear
      (sample_state None) = Some (Inl e)"
    by (auto simp: sample_void_type(1) sample_void_unmatched first_hit_def)
  then show ?thesis using r by (cases r) auto
qed

subsection \<open>Access strings\<close>

text \<open>
  C27: the parser of an access component accepts exactly a nonempty decimal number below 2^32 that ends
  with the string or with a colon, returns its value, and leaves the cursor behind the colon.
\<close>

theorem access_component_grammar:
  "parse_access_component s = Some (v, r) \<longleftrightarrow>
     (\<exists>ds. ds \<noteq> [] \<and> list_all is_digit ds \<and> decimal 0 ds = unat v
        \<and> (s = ds \<and> r = [] \<or> s = ds @ CHR '':'' # r))"
proof
  assume "parse_access_component s = Some (v, r)"
  then show "\<exists>ds. ds \<noteq> [] \<and> list_all is_digit ds \<and> decimal 0 ds = unat v
      \<and> (s = ds \<and> r = [] \<or> s = ds @ CHR '':'' # r)"
    by (elim parse_access_component_Some) (auto simp: list_all_iff)
next
  assume "\<exists>ds. ds \<noteq> [] \<and> list_all is_digit ds \<and> decimal 0 ds = unat v
      \<and> (s = ds \<and> r = [] \<or> s = ds @ CHR '':'' # r)"
  then obtain ds where ds: "ds \<noteq> []" "\<forall>c \<in> set ds. is_digit c" "decimal 0 ds = unat v"
    and s: "s = ds \<and> r = [] \<or> s = ds @ CHR '':'' # r" by (auto simp: list_all_iff)
  then show "parse_access_component s = Some (v, r)"
    using parse_access_component_digits [OF ds(1,2), of "[]"]
      parse_access_component_digits [OF ds(1,2), of "CHR '':'' # r"] unat_u32_less [of v] by auto
qed

text \<open>
  C28: an access string written from a list of indices is parsed back into exactly this list.
\<close>

theorem access_string_roundtrip: "access_components (access_string is) = Some is"
  by (rule access_components_string)

text \<open>
  C18: the search for a base member is sound and complete. A successful search has marked exactly the members
  of a path that leads through unnamed records to a member of the wanted name, and returns its type; a
  search without result has changed nothing, and there is no such path within the 17 levels. When no
  allocation fails, the depth of the nesting is the only error.
\<close>

theorem member_search_sound_complete:
  assumes "valid_record b i t" and "seed_invar b st" and "memory_ok st"
  shows "case mark_base_member_path b i t name fallback origin err st of
      Inl e \<Rightarrow> message e = ''CO-RE member search through anonymous records is too deep''
    | Inr (None, st') \<Rightarrow> st' = st \<and> (\<nexists>p ty. member_path b name 17 fallback i t p ty)
    | Inr (Some ty, st') \<Rightarrow> seed_invar b st'
        \<and> (\<exists>p. member_path b name 17 fallback i t p ty \<and> adds_members st (path_members p) st')"
  using mark_path_spec [OF assms(1,2), of name 17 fallback origin err]
    mark_path_fails [OF assms, of origin err name 17 fallback]
  by (auto simp: mark_base_member_path_def path_result_def fails_deep_def split: sum.splits option.splits)

lemma sample_valid_record: "valid_record sample_base 2 (the (type_by_id sample_base 2))"
  by (simp add: valid_record_def)

lemma sample_union_path:
  "member_path sample_base (Some ''state'') 17 fb 2 (the (type_by_id sample_base 2)) [(2, 1), (3, 0)] 1"
proof -
  let ?task = "the (type_by_id sample_base 2)" and ?union = "the (type_by_id sample_base 3)"
  have named: "has_name (Some ''state'')" by (simp add: has_name_def)
  have two: "[0..<2] = [0, 1]" by (simp add: upt_rec)
  have "find_base_member sample_base ?union (Some ''state'') 0xFFFFFFFF = Some 0"
    by (simp add: find_base_member_def has_name_def two)
  from path_here [OF this, of 15 3] have here: "member_path sample_base (Some ''state'') 16 0xFFFFFFFF 3 ?union [(3, 0)] 1"
    by simp
  have none: "find_base_member sample_base ?task (Some ''state'') fb = None"
    by (simp add: find_base_member_def has_name_def two)
  have "peel_loop (Suc n) sample_base 3 = (type_by_id sample_base 3, 3)" for n
    by (simp add: peel_step_def word_le_nat_alt)
  from this [of 63] have "anonymous_record sample_base (member ?task 1) = Some (3, ?union)"
    by (simp add: anonymous_record_def peel_access_type_def has_name_def)
  from path_nested [OF none named _ this here, of 2] show ?thesis by simp
qed

lemma sample_state_memory: "memory_ok (sample_state rq)"
  by (simp add: memory_ok_def sample_state_def)

text \<open>The search for \<^verbatim>\<open>state\<close> succeeds, through the union.\<close>

lemma sample_union_found:
  assumes inv: "seed_invar sample_base st" and mem: "memory_ok st"
  shows "\<exists>st'. mark_base_member_path sample_base 2 (the (type_by_id sample_base 2)) (Some ''state'') fb og err st
    = Inr (Some 1, st')"
proof -
  let ?task = "the (type_by_id sample_base 2)" and ?union = "the (type_by_id sample_base 3)"
  have two: "[0..<2] = [0, 1]" by (simp add: upt_rec)
  have union: "valid_record sample_base 3 ?union" "0 < nvlen ?union" and task: "1 < nvlen ?task"
    by (simp_all add: valid_record_def)
  obtain st1 where st1: "mark_member sample_base og err 3 0 st = Inr st1" and mem1: "memory_ok st1"
    using mark_member_ok [OF inv union mem] by blast
  obtain st2 where st2: "mark_member sample_base og err 2 1 st1 = Inr st2"
    using mark_member_ok [OF mark_member_Inr(1) [OF inv union st1] sample_valid_record task mem1] by blast
  have inner: "mark_path sample_base og err (Some ''state'') (Suc n) 0xFFFFFFFF 3 ?union st = Inr (Some 1, st1)" for n
    using st1 by (simp add: find_base_member_def has_name_def two)
  have "peel_loop (Suc n) sample_base 3 = (type_by_id sample_base 3, 3)" for n
    by (simp add: peel_step_def word_le_nat_alt)
  from this [of 63] have anon: "anonymous_record sample_base (member ?task 1) = Some (3, ?union)"
    "anonymous_record sample_base (member ?task 0) = None"
    by (simp_all add: anonymous_record_def peel_access_type_def has_name_def)
  have "find_base_member sample_base ?task (Some ''state'') fb = None"
    by (simp add: find_base_member_def has_name_def two)
  moreover have "[0..<nvlen ?task] = [0, 1]" by (simp add: two)
  ultimately have "mark_path sample_base og err (Some ''state'') (Suc (Suc n)) fb 2 ?task st = Inr (Some 1, st2)" for n
    using st2 anon by (subst mark_path.simps(2))
      (simp add: has_name_def scan_anonymous_step inner del: sample_base_types mark_path.simps(2))
  from this [of 15] show ?thesis by (simp add: mark_base_member_path_def)
qed

theorem member_search_sound_complete_witness:
  "\<exists>st'. mark_base_member_path sample_base 2 (the (type_by_id sample_base 2)) (Some ''state'') 0 None mch_error_clear
      (sample_state (Some sample_requirements)) = Inr (Some 1, st') \<and> seed_invar sample_base st'"
  using member_search_sound_complete [OF sample_valid_record sample_state_ok(2) sample_state_memory,
      of "Some ''state''" 0 None mch_error_clear]
    sample_union_found [OF sample_state_ok(2) sample_state_memory, of 0 None mch_error_clear]
  by auto

subsection \<open>CO-RE relocations\<close>

text \<open>
  C3: for any bytes of a \<^verbatim>\<open>.BTF.ext\<close> section the extraction returns without a read outside of
  them. When it succeeds, the bytes are a well-formed sequence of relocations; each of them has been counted
  and matches exactly one base type, which is a seed and a type root now; the other roots are as
  before, and the members that the access of a field relocation reads are required.
\<close>

theorem core_relo_extraction:
  assumes "built_index b idx" and "seed_invar b st"
    and "\<forall>raw. ext_raw ext = Some raw \<longrightarrow> length raw < 2 ^ 32"
  shows "\<exists>r. mch_extract_core_relo_seeds_with_requirements idx ob (Some ext) path err st = Some r
    \<and> (\<forall>st'. r = Inr st' \<longrightarrow> seed_invar b st' \<and> (\<exists>relos.
         ext_relocations (the (ext_raw ext)) relos
         \<and> core_relocations (ss_stats st') = core_relocations (ss_stats st) + of_nat (length relos)
         \<and> (\<forall>relo \<in> set relos. \<exists>j. base_matches b ob (relo_type_id relo) = {j}
              \<and> unat j \<in> ts_elems (ss_seeds st'))
         \<and> ts_elems (ss_seeds st) \<subseteq> ts_elems (ss_seeds st')
         \<and> (\<forall>rq. ss_requirements st = Some rq \<longrightarrow> (\<exists>rq'. ss_requirements st' = Some rq'
              \<and> req_roots rq' = req_roots rq
                  \<union> unat ` (\<Union>relo \<in> set relos. base_matches b ob (relo_type_id relo))
              \<and> req_members rq \<subseteq> req_members rq'
              \<and> (\<forall>relo \<in> set relos. \<exists>j P. base_matches b ob (relo_type_id relo) = {j}
                   \<and> relo_access b ob relo j P \<and> path_members P \<subseteq> req_members rq')))))"
proof -
  obtain r where r: "mch_extract_core_relo_seeds_with_requirements idx ob (Some ext) path err st = Some r"
    and done1: "\<And>st'. r = Inr st' \<Longrightarrow> relo_extraction b ob (Some ext) st st'"
    using extract_core_relo_result [OF built_index_for [OF assms(1)] assms(2), of "Some ext" ob path err]
      assms(3) by auto
  have "seed_invar b st' \<and> (\<exists>relos. ext_relocations (the (ext_raw ext)) relos
         \<and> core_relocations (ss_stats st') = core_relocations (ss_stats st) + of_nat (length relos)
         \<and> (\<forall>relo \<in> set relos. \<exists>j. base_matches b ob (relo_type_id relo) = {j}
              \<and> unat j \<in> ts_elems (ss_seeds st'))
         \<and> ts_elems (ss_seeds st) \<subseteq> ts_elems (ss_seeds st')
         \<and> (\<forall>rq. ss_requirements st = Some rq \<longrightarrow> (\<exists>rq'. ss_requirements st' = Some rq'
              \<and> req_roots rq' = req_roots rq
                  \<union> unat ` (\<Union>relo \<in> set relos. base_matches b ob (relo_type_id relo))
              \<and> req_members rq \<subseteq> req_members rq'
              \<and> (\<forall>relo \<in> set relos. \<exists>j P. base_matches b ob (relo_type_id relo) = {j}
                   \<and> relo_access b ob relo j P \<and> path_members P \<subseteq> req_members rq'))))"
    if success: "r = Inr st'" for st'
  proof -
    obtain relos where inv: "seed_invar b st'" and layout: "ext_relocations (the (ext_raw ext)) relos"
      and effects: "relo_effects b ob relos st st'"
      using done1 [OF success] by (auto simp: relo_extraction_def)
    have "\<exists>j. base_matches b ob (relo_type_id relo) = {j} \<and> unat j \<in> ts_elems (ss_seeds st')"
      if "relo \<in> set relos" for relo
      using relo_effects_matches [OF effects that] relo_effects_seeds [OF effects] that by blast
    then show ?thesis
      using inv layout relo_effects_count [OF effects] relo_effects_seeds [OF effects] relo_effects_roots [OF effects]
      by blast
  qed
  with r show ?thesis by blast
qed

text \<open>One section with one relocation: the offset of \<^verbatim>\<open>state\<close> in \<^verbatim>\<open>struct task\<close>, type 2 of the object.\<close>

definition sample_ext_bytes :: "u8 list" where
  "sample_ext_bytes =
     [0x9F, 0xEB, 1, 0, 32, 0, 0, 0, 0, 0, 0, 0, 0, 0, 0, 0, 0, 0, 0, 0, 0, 0, 0, 0, 0, 0, 0, 0, 28, 0, 0, 0,
      16, 0, 0, 0, 2, 0, 0, 0, 1, 0, 0, 0, 0, 0, 0, 0, 2, 0, 0, 0, 9, 0, 0, 0, 0, 0, 0, 0]"

definition sample_ext :: btf_ext where
  "sample_ext = \<lparr>ext_little_endian = True, ext_raw = Some sample_ext_bytes\<rparr>"

lemma sample_ext_reads:
  "read_header sample_ext_bytes = Some \<lparr>hdr_magic = 0xEB9F, hdr_version = 1, hdr_len = 32, func_info_off = 0,
     func_info_len = 0, line_info_off = 0, line_info_len = 0, core_relo_off = 0, core_relo_len = 28\<rparr>"
  "read_u32 sample_ext_bytes 32 = Some 16"
  "read_sec sample_ext_bytes 36 = Some \<lparr>sec_name_off = 2, sec_num_info = 1\<rparr>"
  "read_core_relo sample_ext_bytes 44 = Some \<lparr>relo_insn_off = 0, relo_type_id = 2, relo_access_str_off = 9,
     relo_kind = BPF_CORE_FIELD_BYTE_OFFSET\<rparr>"
  by (simp_all add: sample_ext_bytes_def read_header_def read_u32_def read_sec_def read_core_relo_def copy_at_def
      u32_at_def relo_kind_of_def relo_kinds_def)

lemma sample_resolve:
  "resolve_object_type_to_base sample_index sample_object 2 path ref allow err = Some (Inr (Some 2))"
  using resolve_walk [OF built_index_for [OF sample_index_built], of sample_object 2 path ref allow err]
  by (auto simp: sample_walks resolves_def first_hit_def sample_base_hits)

lemma sample_index_btf: "the (index_btf sample_index) = sample_base"
  using built_index_for [OF sample_index_built] by (simp add: index_for_def)

lemma sample_peel: "peel_access_type sample_base 2 = (type_by_id sample_base 2, 2)"
  "peel_access_type sample_object 2 = (type_by_id sample_object 2, 2)"
proof -
  have "peel_loop (Suc n) sample_base 2 = (type_by_id sample_base 2, 2)"
    "peel_loop (Suc n) sample_object 2 = (type_by_id sample_object 2, 2)" for n
    by (simp_all add: peel_step_def word_le_nat_alt)
  from this [of 63] show "peel_access_type sample_base 2 = (type_by_id sample_base 2, 2)"
    "peel_access_type sample_object 2 = (type_by_id sample_object 2, 2)"
    by (simp_all add: peel_access_type_def)
qed

lemma sample_access:
  assumes "seed_invar sample_base st" and "memory_ok st"
  shows "\<exists>st'. access_loop sample_index sample_object path og access err ''1'' 2 2 st = Inr st'"
proof -
  obtain st' where st': "mark_base_member_path sample_base 2 (the (type_by_id sample_base 2)) (Some ''state'') 1
      og err st = Inr (Some 1, st')"
    using sample_union_found [OF assms] by blast
  have "parse_access_component ''1'' = Some (1, [])"
    by (simp add: parse_access_component_def is_digit_def)
  then have "access_loop sample_index sample_object path og access err ''1'' 2 2 st = Inr st'"
    using st' by (subst access_loop.simps)
      (simp add: sample_peel sample_index_btf access_loop.simps [of _ _ _ _ _ _ "[]"])
  then show ?thesis by blast
qed

lemma sample_relocation:
  assumes func: "rw_func w = no_ext_info" and line: "rw_line w = no_ext_info"
    and idx: "rw_index w = sample_index" and ob: "rw_object w = sample_object"
    and relo: "relo_type_id relo = 2" "relo_access_str_off relo = 9"
      "relo_kind relo = BPF_CORE_FIELD_BYTE_OFFSET"
    and inv: "seed_invar sample_base st" and mem: "memory_ok st"
  shows "\<exists>st'. process_relo w so relo i err st = Some (Inr st')"
proof -
  have none: "find_ext_info_section raw no_ext_info x = Some None" for raw x
    by (simp add: find_ext_info_section_def no_ext_info_def)
  obtain location where location: "format_core_relo_location (rw_raw w) sample_object no_ext_info no_ext_info so relo
      = Some location"
    by (simp add: format_core_relo_location_def find_line_location_def find_function_name_def none no_location_def)
  let ?og = "relo_origin (rw_path w) sample_object relo location"
  have "\<exists>rq h. mch_requirements_add_type_root (ss_requirements st) 2 (Some ?og) err (ss_heap st) = Inr (rq, h)
      \<and> (rq = None \<or> h = plenty)"
  proof (cases "ss_requirements st")
    case None
    then show ?thesis by (simp add: mch_requirements_add_type_root_def)
  next
    case (Some q)
    then have "req_invar sample_base q" "2 < type_count q" "ss_heap st = plenty"
      using inv mem by (auto simp: seed_invar_def memory_ok_def)
    then show ?thesis using add_type_root_plenty [of sample_base q 2 "Some ?og" err] Some by auto
  qed
  then obtain rq h where add: "mch_requirements_add_type_root (ss_requirements st) 2 (Some ?og) err (ss_heap st)
      = Inr (rq, h)" and rq: "rq = None \<or> h = plenty" by blast
  let ?st1 = "count_relo 2 rq h st"
  have root: "mch_requirements_add_type_root (ss_requirements st) (ucast (2 :: u32)) (Some ?og) err (ss_heap st)
      = Inr (rq, h)" using add by simp
  from seed_base_id [OF inv _ _ root]
  have "seed_invar sample_base ?st1" by (simp add: seed_invar_def count_relo_def Let_def)
  moreover have "memory_ok ?st1" using rq by (auto simp: memory_ok_def count_relo_def Let_def)
  ultimately obtain st' where "access_loop sample_index sample_object (rw_path w) (Some ?og) ''0:1'' err ''1'' 2 2 ?st1
      = Inr st'" using sample_access by blast
  moreover have "parse_access_component ''0:1'' = Some (0, ''1'')"
    by (simp add: parse_access_component_def is_digit_def)
  ultimately have "\<exists>st'. record_core_relo_requirements sample_index sample_object (rw_path w) relo 2 (Some ?og) err
      ?st1 = Inr st'"
    using relo
    by (auto simp: record_core_relo_requirements_def is_field_relo_kind_def has_name_def relo_origin_def Let_def)
  then obtain st' where "record_core_relo_requirements sample_index sample_object (rw_path w) relo 2 (Some ?og) err
      ?st1 = Inr st'" by blast
  then show ?thesis
    using process_relo_run [of w so relo location err 2 st rq h i] location root sample_resolve
    by (auto simp: func line idx ob relo)
qed

lemma sample_walk_returns:
  assumes w: "w = \<lparr>rw_index = sample_index, rw_object = sample_object, rw_raw = sample_ext_bytes,
      rw_core = \<lparr>info_pos = 36, info_end = 60, rec_size = 16, present = True\<rparr>, rw_func = no_ext_info,
      rw_line = no_ext_info, rw_path = path\<rparr>"
    and inv: "seed_invar sample_base st" and mem: "memory_ok st"
  shows "\<exists>st'. sections_loop w err 36 st = Some (Inr (60, st'))"
proof -
  let ?sec = "\<lparr>sec_name_off = 2, sec_num_info = 1\<rparr>"
  obtain st' where step: "process_relo w 2 \<lparr>relo_insn_off = 0, relo_type_id = 2, relo_access_str_off = 9,
      relo_kind = BPF_CORE_FIELD_BYTE_OFFSET\<rparr> 0 err st = Some (Inr st')"
    using sample_relocation [OF _ _ _ _ _ _ _ inv mem, where w = w and so = 2 and i = 0 and err = err]
    by (simp add: w) (meson bpf_core_relo.select_convs)
  have last: "relo_loop w ?sec err 1 60 st' = Some (Inr (60, st'))" by (simp add: relo_loop.simps)
  have "relo_loop w ?sec err 0 44 st = Some (Inr (60, st'))"
    using step last by (subst relo_loop.simps) (simp add: w sample_ext_reads)
  moreover have "sections_loop w err 60 st' = Some (Inr (60, st'))"
    by (subst sections_loop.simps) (simp add: w)
  ultimately have "sections_loop w err 36 st = Some (Inr (60, st'))"
    by (subst sections_loop.simps) (simp add: w sample_ext_reads)
  then show ?thesis by blast
qed

lemma sample_extraction_succeeds:
  assumes "seed_invar sample_base st" and "memory_ok st"
  shows "\<exists>st'. mch_extract_core_relo_seeds_with_requirements sample_index sample_object (Some sample_ext) path err st
    = Some (Inr st')"
proof -
  let ?header = "\<lparr>hdr_magic = 0xEB9F, hdr_version = 1, hdr_len = 32, func_info_off = 0,
     func_info_len = 0, line_info_off = 0, line_info_len = 0, core_relo_off = 0, core_relo_len = 28\<rparr>"
  have len: "length sample_ext_bytes = 60" by (simp add: sample_ext_bytes_def)
  have core: "init_ext_info sample_ext_bytes (of_nat (length sample_ext_bytes)) (hdr_len ?header) (core_relo_off ?header)
      (core_relo_len ?header) 16 ''CO-RE relocation'' path True err
      = Some (Inr \<lparr>info_pos = 36, info_end = 60, rec_size = 16, present = True\<rparr>)"
    using sample_ext_reads(2) by (simp add: init_ext_info_def len)
  have none: "init_ext_info sample_ext_bytes k hl 0 0 n label path False err = Some (Inr no_ext_info)" for k hl n label
    by (simp add: init_ext_info_def Let_def)
  obtain st' where "sections_loop \<lparr>rw_index = sample_index, rw_object = sample_object, rw_raw = sample_ext_bytes,
      rw_core = \<lparr>info_pos = 36, info_end = 60, rec_size = 16, present = True\<rparr>, rw_func = no_ext_info,
      rw_line = no_ext_info, rw_path = path\<rparr> err 36 st = Some (Inr (60, st'))"
    using sample_walk_returns [OF refl assms] by blast
  moreover note extract_core_relo_unfold [OF _ _ _ _ _ _ _ sample_ext_reads(1) _ _ core, of sample_ext no_ext_info
      no_ext_info sample_index sample_object st]
  ultimately have "mch_extract_core_relo_seeds_with_requirements sample_index sample_object (Some sample_ext) path err st
    = Some (Inr st')"
    by (simp add: len none sample_ext_def host_is_little_endian_def)
  then show ?thesis by blast
qed

theorem core_relo_extraction_witness:
  "\<exists>st' rq. mch_extract_core_relo_seeds_with_requirements sample_index sample_object (Some sample_ext) None
      mch_error_clear (sample_state (Some sample_requirements)) = Some (Inr st')
    \<and> seed_invar sample_base st' \<and> ss_requirements st' = Some rq"
proof -
  obtain st' where run: "mch_extract_core_relo_seeds_with_requirements sample_index sample_object (Some sample_ext) None
      mch_error_clear (sample_state (Some sample_requirements)) = Some (Inr st')"
    using sample_extraction_succeeds [OF sample_state_ok(2) sample_state_memory] by blast
  have size: "\<forall>raw. ext_raw sample_ext = Some raw \<longrightarrow> length raw < 2 ^ 32"
    by (auto simp: sample_ext_def sample_ext_bytes_def)
  from core_relo_extraction [where ob = sample_object and ext = sample_ext and path = None
      and err = mch_error_clear, OF sample_index_built sample_state_ok(2) size] run
  have "seed_invar sample_base st' \<and> (\<exists>rq. ss_requirements st' = Some rq)"
    by (auto simp: sample_state_def)
  with run show ?thesis by blast
qed

end
