(* ===== verification/Closure_Properties.thy ===== *)
theory Closure_Properties
  imports Closure
begin

text \<open>The properties of the dependency closure, each with its application to the sample BTF.\<close>

subsection \<open>The closure of the sample\<close>

lemma unat_sample_2: "unat (2 :: u32) = 2"
  by simp

lemma sample_start: "closure_start sample_base sample_seeds" "required_ids sample_seeds = {2}"
proof -
  have "unat i = 2 \<longleftrightarrow> i = 2" for i :: u32 by (metis unat_sample_2 word_unat_eq_iff)
  then show req: "required_ids sample_seeds = {2}"
    using sample_seeds_ok(2) by (auto simp: required_ids_def)
  then show "closure_start sample_base sample_seeds"
    using sample_seeds_ok by (simp add: closure_start_def)
qed

lemma upt_2: "[0..<2] = [0, 1 :: nat]" by (simp add: upt_rec)

lemma sample_deps [simp]:
  "type_deps None i (plain_type BTF_KIND_INT n r) = []"
  "type_deps None i (plain_type BTF_KIND_PTR n r) = []"
  "type_deps None i (record_type BTF_KIND_STRUCT n r [m, m']) = [m_type m, m_type m']"
  "type_deps None i (record_type BTF_KIND_UNION n r [m, m']) = [m_type m, m_type m']"
  by (simp_all add: type_deps_def member_pruned_def upt_2)

lemma sample_reachable: "dep_reachable sample_base None {2} = {1, 2, 3, 4}"
proof
  have edge: "dep_edge sample_base None i j
      \<longleftrightarrow> j \<noteq> 0 \<and> j \<in> set (type_deps None i (the (type_by_id sample_base i)))"
    if "type_by_id sample_base i = Some t" for i j t
    using that by (auto simp: dep_edge_def)
  show "dep_reachable sample_base None {2} \<subseteq> {1, 2, 3, 4}"
    by (rule dep_reachable_least) (auto simp: edge)
  have two: "2 \<in> dep_reachable sample_base None {2}" using dep_reachable_refl by auto
  have "dep_edge sample_base None 2 1" "dep_edge sample_base None 2 3" "dep_edge sample_base None 3 4"
    by (simp_all add: edge)
  then show "{1, 2, 3, 4} \<subseteq> dep_reachable sample_base None {2}"
    using two dep_reachable_step by blast
qed

text \<open>No options lead further, so the computation succeeds on the sample.\<close>

lemma sample_reachable_options:
  assumes "S \<subseteq> {1, 2, 3, 4}"
  shows "dep_reachable sample_base options S \<subseteq> {1, 2, 3, 4}"
  by (rule dep_reachable_least [OF assms])
    (auto simp: dep_edge_def type_deps_def less_2_cases_iff split: option.split_asm if_split_asm)

lemma sample_closure_from:
  assumes start: "closure_start sample_base s" and S: "required_ids s \<subseteq> {1, 2, 3, 4}"
  shows "\<exists>s' stats'. mch_compute_dependency_closure_with_options sample_base s mch_closure_stats_init
      options mch_error_clear plenty = Some (Inr (s', stats', plenty))
    \<and> required_ids s' = dep_reachable sample_base options (required_ids s)"
proof -
  let ?R = "dep_reachable sample_base options (required_ids s)"
  obtain r where run: "mch_compute_dependency_closure_with_options sample_base s
        mch_closure_stats_init options mch_error_clear plenty = Some r"
    and r: "case r of
         Inr (s', stats', h') \<Rightarrow> closure_start sample_base s' \<and> required_ids s' = ?R
           \<and> (\<forall>i \<in> required_ids s'. type_by_id sample_base i \<noteq> None)
           \<and> added_types stats' = added_types mch_closure_stats_init + (ts_selected s' - ts_selected s)
           \<and> (plenty = plenty \<longrightarrow> h' = plenty)
       | Inl e \<Rightarrow> plenty = plenty \<longrightarrow> closure_fault sample_base options (required_ids s) mch_error_clear e"
    using closure_total [OF start, of mch_closure_stats_init options mch_error_clear plenty] by blast
  show ?thesis
  proof (cases r)
    case (Inl e)
    have inside: "j < type_cnt sample_base" "type_by_id sample_base j \<noteq> None" if "j \<in> ?R" for j
      using subsetD [OF sample_reachable_options [OF S] that] by (auto simp: word_less_nat_alt)
    from r [unfolded Inl] obtain i where "i \<in> ?R"
      and "type_by_id sample_base i = None
        \<or> (\<exists>j. dep_edge sample_base options i j \<and> j \<ge> type_cnt sample_base)"
      by (auto simp: closure_fault_def)
    with inside dep_reachable_step [of i sample_base options "required_ids s"] have False
      by (metis not_less)
    then show ?thesis ..
  next
    case (Inr x)
    obtain s' stats' h' where x: "x = (s', stats', h')" by (metis prod_cases3)
    have "h' = plenty" "required_ids s' = ?R" using r [unfolded Inr x] by simp_all
    with run Inr x show ?thesis by (intro exI [of _ s'] exI [of _ stats']) simp
  qed
qed

lemma sample_closure:
  "\<exists>s' stats'. mch_compute_dependency_closure_with_options sample_base sample_seeds mch_closure_stats_init
      options mch_error_clear plenty = Some (Inr (s', stats', plenty))
    \<and> required_ids s' = dep_reachable sample_base options {2}"
  using sample_closure_from [OF sample_start(1)] by (simp add: sample_start(2))

subsection \<open>Properties\<close>

text \<open>
  C2: the closure computation returns for every BTF and all answers of the heap. When it
  succeeds, the required types are exactly those reachable from the given ones along the dependencies, they are
  all ids of the BTF, and the counter has grown by the number of types added.
\<close>

theorem closure_is_reachability:
  assumes "closure_start b s"
  shows "\<exists>r. mch_compute_dependency_closure_with_options b s stats options err h = Some r
    \<and> (\<forall>s' stats' h'. r = Inr (s', stats', h') \<longrightarrow>
         required_ids s' = dep_reachable b options (required_ids s)
         \<and> required_ids s' \<subseteq> {0 <..< type_cnt b} \<and> ts_invar s'
         \<and> added_types stats' = added_types stats + (ts_selected s' - ts_selected s))"
proof -
  obtain r where run: "mch_compute_dependency_closure_with_options b s stats options err h = Some r"
    and r: "case r of
         Inr (s', stats', h') \<Rightarrow> closure_start b s'
           \<and> required_ids s' = dep_reachable b options (required_ids s)
           \<and> (\<forall>i \<in> required_ids s'. type_by_id b i \<noteq> None)
           \<and> added_types stats' = added_types stats + (ts_selected s' - ts_selected s)
           \<and> (h = plenty \<longrightarrow> h' = plenty)
       | Inl e \<Rightarrow> h = plenty \<longrightarrow> closure_fault b options (required_ids s) err e"
    using closure_total [OF assms, of stats options err h] by blast
  have "required_ids s' = dep_reachable b options (required_ids s)
      \<and> required_ids s' \<subseteq> {0 <..< type_cnt b} \<and> ts_invar s'
      \<and> added_types stats' = added_types stats + (ts_selected s' - ts_selected s)"
    if inr: "r = Inr (s', stats', h')" for s' stats' h'
  proof -
    have start: "closure_start b s'" using r inr by simp
    then have "ts_invar s'" by (simp add: closure_start_def)
    with required_below [OF start] r inr show ?thesis by simp
  qed
  with run show ?thesis by blast
qed

theorem closure_is_reachability_witness:
  "\<exists>s' stats'. mch_compute_dependency_closure_with_options sample_base sample_seeds mch_closure_stats_init None
        mch_error_clear plenty = Some (Inr (s', stats', plenty)) \<and> required_ids s' = {1, 2, 3, 4} \<and> ts_invar s'"
proof -
  obtain s' stats' where run: "mch_compute_dependency_closure_with_options sample_base sample_seeds
      mch_closure_stats_init None mch_error_clear plenty = Some (Inr (s', stats', plenty))"
    using sample_closure [of None] by auto
  from closure_is_reachability [OF sample_start(1), of mch_closure_stats_init None mch_error_clear plenty] run
  have "required_ids s' = {1, 2, 3, 4} \<and> ts_invar s'" by (simp add: sample_start(2) sample_reachable)
  with run show ?thesis by blast
qed

text \<open>
  C19: when no allocation fails, the computation fails exactly when a reachable id is out of the range of the BTF or
  has no type in it. The message names such an id, as one that a type refers to in the first case and as a missing type in
  the second.
\<close>

theorem closure_fails_exactly:
  assumes "closure_start b s"
  shows "case mch_compute_dependency_closure_with_options b s stats options err plenty of
      None \<Rightarrow> False
    | Some (Inr _) \<Rightarrow> \<forall>j \<in> dep_reachable b options (required_ids s). j < type_cnt b \<and> type_by_id b j \<noteq> None
    | Some (Inl e) \<Rightarrow> \<exists>j \<in> dep_reachable b options (required_ids s).
        j \<ge> type_cnt b \<and> message e = c_snprintf 256 (''BTF dependency references invalid type id '' @ show_u j)
      \<or> j < type_cnt b \<and> type_by_id b j = None
          \<and> message e = c_snprintf 256 (''base BTF is missing required type id '' @ show_u j)"
proof -
  let ?R = "dep_reachable b options (required_ids s)"
  obtain r where run: "mch_compute_dependency_closure_with_options b s stats options err plenty = Some r"
    and r: "case r of
         Inr (s', stats', h') \<Rightarrow> closure_start b s' \<and> required_ids s' = ?R
           \<and> (\<forall>i \<in> required_ids s'. type_by_id b i \<noteq> None)
           \<and> added_types stats' = added_types stats + (ts_selected s' - ts_selected s)
           \<and> (plenty = plenty \<longrightarrow> h' = plenty)
       | Inl e \<Rightarrow> plenty = plenty \<longrightarrow> closure_fault b options (required_ids s) err e"
    using closure_total [OF assms(1), of stats options err plenty] by blast
  show ?thesis
  proof (cases r)
    case (Inr x)
    then obtain s' where "closure_start b s'" "required_ids s' = ?R" "\<forall>i \<in> required_ids s'. type_by_id b i \<noteq> None"
      using r by (cases x) auto
    with required_below [of b s'] have "\<forall>j \<in> ?R. j < type_cnt b \<and> type_by_id b j \<noteq> None" by auto
    with run Inr show ?thesis by simp
  next
    case (Inl e)
    then have "closure_fault b options (required_ids s) err e" using r by simp
    then obtain i where i: "i \<in> ?R" and fault: "i < type_cnt b \<and> type_by_id b i = None
          \<and> e = mch_error_set (''base BTF is missing required type id '' @ show_u i) err
        \<or> (\<exists>j. dep_edge b options i j \<and> j \<ge> type_cnt b \<and> e = bad_dep_error j err)"
      by (auto simp: closure_fault_def)
    then have "\<exists>j \<in> ?R. j \<ge> type_cnt b \<and> message e = c_snprintf 256 (''BTF dependency references invalid type id '' @ show_u j)
      \<or> j < type_cnt b \<and> type_by_id b j = None
          \<and> message e = c_snprintf 256 (''base BTF is missing required type id '' @ show_u j)"
      using dep_reachable_step [OF i] by (auto simp: bad_dep_error_def mch_error_set_def)
    with run Inl show ?thesis by simp
  qed
qed

theorem closure_fails_exactly_witness:
  "(\<exists>x. mch_compute_dependency_closure_with_options sample_base sample_seeds mch_closure_stats_init None
        mch_error_clear plenty = Some (Inr x))
   \<and> (\<exists>e. mch_compute_dependency_closure_with_options (sample_base\<lparr>type_by_id := (\<lambda>_. None)\<rparr>) sample_seeds
        mch_closure_stats_init None mch_error_clear plenty = Some (Inl e)
      \<and> message e = c_snprintf 256 (''base BTF is missing required type id '' @ show_u (2 :: u32)))"
proof
  have "\<forall>j \<in> {1, 2, 3, 4}. \<not> j \<ge> type_cnt sample_base \<and> type_by_id sample_base j \<noteq> None" by (simp add: word_le_nat_alt)
  with closure_fails_exactly [OF sample_start(1), where options = None and stats = mch_closure_stats_init
      and err = mch_error_clear, unfolded sample_start(2) sample_reachable]
  show "\<exists>x. mch_compute_dependency_closure_with_options sample_base sample_seeds mch_closure_stats_init None
        mch_error_clear plenty = Some (Inr x)"
    by (cases "mch_compute_dependency_closure_with_options sample_base sample_seeds mch_closure_stats_init None
        mch_error_clear plenty") (auto split: sum.splits)
next
  let ?b = "sample_base\<lparr>type_by_id := (\<lambda>_. None)\<rparr>"
  have start: "closure_start ?b sample_seeds" using sample_start by (simp add: closure_start_def)
  have "dep_reachable ?b None {2} = {2}"
    by (intro subset_antisym dep_reachable_least dep_reachable_refl) (auto simp: dep_edge_def)
  moreover have "\<not> (2 :: u32) \<ge> 7" by simp
  ultimately show "\<exists>e. mch_compute_dependency_closure_with_options ?b sample_seeds mch_closure_stats_init None
        mch_error_clear plenty = Some (Inl e)
      \<and> message e = c_snprintf 256 (''base BTF is missing required type id '' @ show_u (2 :: u32))"
    using closure_fails_exactly [OF start, of None mch_closure_stats_init mch_error_clear]
    by (cases "mch_compute_dependency_closure_with_options ?b sample_seeds mch_closure_stats_init None
        mch_error_clear plenty") (auto simp: sample_start(2) split: sum.splits)
qed

text \<open>
  C37: the closure is closed: a second computation on the result of the first adds nothing.
\<close>

theorem closure_idempotent:
  assumes "closure_start b s"
    and "mch_compute_dependency_closure_with_options b s stats options err h = Some (Inr (s', stats', h'))"
  shows "\<exists>s'' stats''. mch_compute_dependency_closure_with_options b s' stats' options err plenty
      = Some (Inr (s'', stats'', plenty))
    \<and> required_ids s'' = required_ids s' \<and> added_types stats'' = added_types stats'"
proof -
  have start: "closure_start b s'" and closed: "required_ids s' = dep_reachable b options (required_ids s)"
    and present: "\<forall>i \<in> required_ids s'. type_by_id b i \<noteq> None"
    using closure_total [OF assms(1), of stats options err h] assms(2) by auto
  have again: "dep_reachable b options (required_ids s') = required_ids s'"
  proof
    show "dep_reachable b options (required_ids s') \<subseteq> required_ids s'"
      by (rule dep_reachable_least) (auto simp: closed intro: dep_reachable_step)
  qed (rule dep_reachable_refl)
  obtain r where run: "mch_compute_dependency_closure_with_options b s' stats' options err plenty = Some r"
    and r: "case r of
         Inr (s'', stats'', h'') \<Rightarrow> closure_start b s'' \<and> required_ids s'' = required_ids s'
           \<and> (\<forall>i \<in> required_ids s''. type_by_id b i \<noteq> None)
           \<and> added_types stats'' = added_types stats' + (ts_selected s'' - ts_selected s')
           \<and> (plenty = plenty \<longrightarrow> h'' = plenty)
       | Inl e \<Rightarrow> plenty = plenty \<longrightarrow> closure_fault b options (required_ids s') err e"
    using closure_total [OF start, of stats' options err plenty] unfolding again by blast
  show ?thesis
  proof (cases r)
    case (Inl e)
    then have "closure_fault b options (required_ids s') err e" using r by simp
    then obtain i where i: "i \<in> required_ids s'"
      and fault: "type_by_id b i = None \<or> (\<exists>j. dep_edge b options i j \<and> j \<ge> type_cnt b)"
      by (auto simp: closure_fault_def again)
    have "type_by_id b i \<noteq> None" using present i by blast
    moreover have "j < type_cnt b" if "dep_edge b options i j" for j
      using that i dep_reachable_step [of i b options "required_ids s" j] closed required_below [OF start] by auto
    ultimately show ?thesis using fault by (auto simp: not_le [symmetric])
  next
    case (Inr x)
    obtain s'' stats'' h'' where x: "x = (s'', stats'', h'')" by (metis prod_cases3)
    have eq: "required_ids s'' = required_ids s'" and start'': "closure_start b s''"
      using r Inr x by auto
    have "ts_selected s'' = ts_selected s'"
      using card_required_ids [of s'' b] card_required_ids [of s' b] start start'' eq
      by (simp add: closure_start_def word_unat_eq_iff)
    then show ?thesis using run r Inr x by simp
  qed
qed

theorem closure_idempotent_witness:
  "\<exists>s' stats' s'' stats''. mch_compute_dependency_closure_with_options sample_base s' stats' None mch_error_clear plenty
      = Some (Inr (s'', stats'', plenty)) \<and> required_ids s'' = {1, 2, 3, 4}
    \<and> added_types stats'' = added_types stats'"
proof -
  obtain s' stats' where "mch_compute_dependency_closure_with_options sample_base sample_seeds
      mch_closure_stats_init None mch_error_clear plenty = Some (Inr (s', stats', plenty))"
    and "required_ids s' = {1, 2, 3, 4}"
    using sample_closure [of None] unfolding sample_reachable by auto
  from closure_idempotent [OF sample_start(1) this(1)] this(2) show ?thesis by metis
qed

subsection \<open>What the options do\<close>

text \<open>The types that a type names, whatever the options say.\<close>

definition named_types :: "btf_type \<Rightarrow> u32 set" where
  "named_types t =
     (if kind t \<in> {BTF_KIND_PTR, BTF_KIND_TYPEDEF, BTF_KIND_VOLATILE, BTF_KIND_CONST, BTF_KIND_RESTRICT,
          BTF_KIND_FUNC, BTF_KIND_VAR, BTF_KIND_DECL_TAG, BTF_KIND_TYPE_TAG} then {size_or_type t}
      else if kind t = BTF_KIND_ARRAY then {a_type (array_of t), a_index_type (array_of t)}
      else if is_record_kind (kind t) then {m_type (member t k) | k. k < nvlen t}
      else if kind t = BTF_KIND_FUNC_PROTO then insert (size_or_type t) {p_type (param t k) | k. k < nvlen t}
      else if kind t = BTF_KIND_DATASEC then {s_type (secinfo t k) | k. k < nvlen t} else {})"

text \<open>The member is among the required ones of its record, or no member of the record is required.\<close>

definition member_wanted :: "mch_requirements option \<Rightarrow> u32 \<Rightarrow> nat \<Rightarrow> bool" where
  "member_wanted rq i k \<longleftrightarrow>
     (case rq of None \<Rightarrow> True
      | Some r \<Rightarrow> (\<forall>k'. (unat i, k') \<notin> req_members r) \<or> (unat i, k) \<in> req_members r)"

lemma member_pruned_wanted:
  assumes "\<forall>r. rq = Some r \<longrightarrow> req_invar b r" and "k < nvlen t"
  shows "member_pruned (Some \<lparr>expand_pointers = p, co_requirements = rq\<rparr>) i k \<longleftrightarrow> \<not> member_wanted rq i k"
proof (cases rq)
  case (Some r)
  have "unat (ucast i :: size_t) = unat i" by (simp add: word_nat)
  moreover have "unat (of_nat k :: size_t) = k" using assms(2) unat_u16_less [of "vlen t"]
    by (simp add: unat_of_nat)
  moreover have "members_of r (unat i) \<noteq> {} \<longleftrightarrow> (\<exists>k'. (unat i, k') \<in> req_members r)"
    by (auto simp: req_members_def members_of_def split: if_splits)
  ultimately show ?thesis using assms(1) Some
    by (simp add: member_pruned_def member_wanted_def Some has_record_members_iff contains_record_member_iff)
qed (simp add: member_pruned_def member_wanted_def)

text \<open>Between the types of a dependency: what the options leave of the types named.\<close>

definition followed :: "btf \<Rightarrow> bool \<Rightarrow> mch_requirements option \<Rightarrow> u32 \<Rightarrow> u32 \<Rightarrow> bool" where
  "followed b p rq i j \<longleftrightarrow> j \<noteq> 0 \<and> (\<exists>t. type_by_id b i = Some t \<and> j \<in> named_types t
     \<and> (kind t = BTF_KIND_PTR \<longrightarrow> p)
     \<and> (is_record_kind (kind t) \<longrightarrow> (\<exists>k < nvlen t. member_wanted rq i k \<and> m_type (member t k) = j)))"

lemma dep_edge_followed:
  assumes "\<forall>r. rq = Some r \<longrightarrow> req_invar b r"
  shows "dep_edge b (Some \<lparr>expand_pointers = p, co_requirements = rq\<rparr>) i j \<longleftrightarrow> followed b p rq i j"
proof -
  have "j \<in> set (type_deps (Some \<lparr>expand_pointers = p, co_requirements = rq\<rparr>) i t) \<longleftrightarrow> j \<in> named_types t
      \<and> (kind t = BTF_KIND_PTR \<longrightarrow> p)
      \<and> (is_record_kind (kind t) \<longrightarrow> (\<exists>k < nvlen t. member_wanted rq i k \<and> m_type (member t k) = j))" for t
    using member_pruned_wanted [where rq = rq and b = b and t = t and p = p and i = i, OF assms]
    by (cases "kind t") (auto simp: type_deps_def named_types_def image_iff)
  then show ?thesis by (auto simp: dep_edge_def followed_def)
qed

text \<open>The ids that come after others are followed from one of them.\<close>

lemma dep_reachable_from:
  assumes "j \<in> dep_reachable b options S" "j \<notin> S"
  shows "\<exists>i \<in> dep_reachable b options S. dep_edge b options i j"
proof -
  from assms(1) obtain i where i: "i \<in> S" "(dep_edge b options)\<^sup>*\<^sup>* i j" by (auto simp: dep_reachable_def)
  with assms(2) obtain k where "(dep_edge b options)\<^sup>*\<^sup>* i k" "dep_edge b options k j" by (metis rtranclp.cases)
  with i(1) show ?thesis by (auto simp: dep_reachable_def)
qed

text \<open>
  C38: Under the same requirements, following pointers only adds types. It is the only way through a pointer: every type that
  has been added was named by a required one, by a pointer only if pointers are followed, and by a record only through a member
  that is wanted. Conversely all that wanted members and, if they are followed, pointers name is required.
\<close>

theorem closure_follows_options:
  assumes "closure_start b s" and "\<forall>r. rq = Some r \<longrightarrow> req_invar b r"
    and "mch_compute_dependency_closure_with_options b s st0 (Some \<lparr>expand_pointers = False, co_requirements = rq\<rparr>) err h0
      = Some (Inr (s0, st0', h0'))"
    and "mch_compute_dependency_closure_with_options b s st1 (Some \<lparr>expand_pointers = True, co_requirements = rq\<rparr>) err h1
      = Some (Inr (s1, st1', h1'))"
  shows "required_ids s0 \<subseteq> required_ids s1
    \<and> (\<forall>(R, p) \<in> {(required_ids s0, False), (required_ids s1, True)}. required_ids s \<subseteq> R
       \<and> (\<forall>j \<in> R. j \<in> required_ids s \<or> (\<exists>i \<in> R. followed b p rq i j))
       \<and> (\<forall>i \<in> R. \<forall>j. followed b p rq i j \<longrightarrow> j \<in> R))"
proof -
  let ?o = "\<lambda>p. Some \<lparr>expand_pointers = p, co_requirements = rq\<rparr>"
  note edge = dep_edge_followed [OF assms(2)]
  have ids: "required_ids s0 = dep_reachable b (?o False) (required_ids s)"
    "required_ids s1 = dep_reachable b (?o True) (required_ids s)"
    using closure_total [OF assms(1), of st0 "?o False" err h0] closure_total [OF assms(1), of st1 "?o True" err h1]
      assms(3,4) by simp_all
  have closed: "required_ids s \<subseteq> R \<and> (\<forall>j \<in> R. j \<in> required_ids s \<or> (\<exists>i \<in> R. followed b p rq i j))
       \<and> (\<forall>i \<in> R. \<forall>j. followed b p rq i j \<longrightarrow> j \<in> R)" if "R = dep_reachable b (?o p) (required_ids s)" for R p
  proof (intro conjI ballI allI impI)
    show "required_ids s \<subseteq> R" unfolding that by (rule dep_reachable_refl)
  next
    fix j assume "j \<in> R"
    then show "j \<in> required_ids s \<or> (\<exists>i \<in> R. followed b p rq i j)"
      using dep_reachable_from [of j b "?o p" "required_ids s"] unfolding edge that by blast
  next
    fix i j assume "i \<in> R" "followed b p rq i j"
    then show "j \<in> R" unfolding that edge [symmetric] by (rule dep_reachable_step)
  qed
  have "dep_edge b (?o True) i j" if "dep_edge b (?o False) i j" for i j
    using that unfolding edge by (auto simp: followed_def)
  then have "required_ids s0 \<subseteq> required_ids s1"
    unfolding ids by (intro dep_reachable_least dep_reachable_refl) (blast intro: dep_reachable_step)
  with closed [OF ids(1)] closed [OF ids(2)] show ?thesis by simp
qed


definition sample_union_seeds :: mch_type_set where
  "sample_union_seeds = snd (mch_type_set_add (empty_set 7) 3)"

lemma sample_union_start:
  "closure_start sample_base sample_union_seeds" "required_ids sample_union_seeds = {3}"
proof -
  have "unat (7 :: size_t) \<le> 2 ^ 32" by simp
  note empty = empty_set_ok [OF this]
  have ok: "ts_invar sample_union_seeds" "ts_elems sample_union_seeds = {3}" "ts_count sample_union_seeds = 7"
    using empty by (simp_all add: sample_union_seeds_def ts.add_invar ts.add_elems)
  have three: "unat (3 :: u32) = 3" by simp
  have "unat i = 3 \<longleftrightarrow> i = 3" for i :: u32 by (metis three word_unat_eq_iff)
  then show "required_ids sample_union_seeds = {3}" using ok(2) by (auto simp: required_ids_def)
  then show "closure_start sample_base sample_union_seeds" using ok by (simp add: closure_start_def)
qed

text \<open>From the union, only a pointer leads to the struct.\<close>

theorem closure_follows_options_witness:
  "\<exists>s0 t0 s1 t1.
     mch_compute_dependency_closure_with_options sample_base sample_union_seeds mch_closure_stats_init
       (Some \<lparr>expand_pointers = False, co_requirements = Some sample_requirements\<rparr>) mch_error_clear plenty
       = Some (Inr (s0, t0, plenty))
     \<and> mch_compute_dependency_closure_with_options sample_base sample_union_seeds mch_closure_stats_init
       (Some \<lparr>expand_pointers = True, co_requirements = Some sample_requirements\<rparr>) mch_error_clear plenty
       = Some (Inr (s1, t1, plenty))
     \<and> required_ids s0 \<subseteq> required_ids s1 \<and> 2 \<notin> required_ids s0 \<and> 2 \<in> required_ids s1"
proof -
  let ?rq = "Some sample_requirements"
  let ?o = "\<lambda>p. Some \<lparr>expand_pointers = p, co_requirements = ?rq\<rparr>"
  have inv: "\<forall>r. ?rq = Some r \<longrightarrow> req_invar sample_base r" by (simp add: sample_requirements_ok(1))
  have from_union: "\<exists>s' stats'. mch_compute_dependency_closure_with_options sample_base sample_union_seeds
      mch_closure_stats_init (?o p) mch_error_clear plenty = Some (Inr (s', stats', plenty))
    \<and> required_ids s' \<subseteq> {1, 2, 3, 4}" for p
    using sample_closure_from [OF sample_union_start(1), of "?o p"] sample_reachable_options [of "{3}" "?o p"]
    by (auto simp: sample_union_start(2))
  obtain s0 t0 where r0: "mch_compute_dependency_closure_with_options sample_base sample_union_seeds
      mch_closure_stats_init (?o False) mch_error_clear plenty = Some (Inr (s0, t0, plenty))"
    "required_ids s0 \<subseteq> {1, 2, 3, 4}" using from_union by blast
  obtain s1 t1 where r1: "mch_compute_dependency_closure_with_options sample_base sample_union_seeds
      mch_closure_stats_init (?o True) mch_error_clear plenty = Some (Inr (s1, t1, plenty))" using from_union by blast
  note all = closure_follows_options [OF sample_union_start(1) inv r0(1) r1, unfolded sample_union_start(2)]
  have not_led: "\<not> followed sample_base False ?rq i 2" if "i \<in> {1, 2, 3, 4}" for i
    using that by (auto simp: followed_def named_types_def less_2_cases_iff)
  have "2 \<notin> required_ids s0"
  proof
    assume "2 \<in> required_ids s0"
    with all obtain i where "i \<in> required_ids s0" "followed sample_base False ?rq i 2" by auto
    with not_led r0(2) show False by blast
  qed
  moreover have "followed sample_base True ?rq 4 2" by (simp add: followed_def named_types_def)
  moreover have "followed sample_base True ?rq 3 4"
    by (auto simp: followed_def named_types_def member_wanted_def sample_requirements_ok(3) intro!: exI [of _ 1])
  moreover have "3 \<in> required_ids s1" using all by auto
  moreover have "j \<in> required_ids s1" if "i \<in> required_ids s1" "followed sample_base True ?rq i j" for i j
    using all that by auto
  ultimately have "2 \<in> required_ids s1" by blast
  with \<open>2 \<notin> required_ids s0\<close> all r0(1) r1 show ?thesis by blast
qed

end
