(* ===== verification/Pipeline_Sample.thy ===== *)
theory Pipeline_Sample
  imports Pipeline_Returns Emit_Sample Seed_Properties Closure_Properties
begin

text \<open>A run of the whole program: the sample base and object as files, a command line that names an output, in a
  system where \<^verbatim>\<open>./\<close> in front of a path does not matter.\<close>

definition sample_os :: os where
  "sample_os = \<lparr>os_pid = 7, os_entry = (\<lambda>p. if take 2 p = ''./'' then drop 2 p else p), os_open = (\<lambda>_. None), os_fdopen = None, os_write_fails = (\<lambda>_. False),
     os_fclose = None, os_stored = (\<lambda>_. []), os_rename = None, os_remove_fails = (\<lambda>_. False),
     os_strerror = (\<lambda>_. ''error'')\<rparr>"

lemma sample_os_answers [simp]:
  "os_pid sample_os = 7" "os_open sample_os = (\<lambda>_. None)" "os_fdopen sample_os = None"
  "os_write_fails sample_os = (\<lambda>_. False)" "os_fclose sample_os = None" "os_rename sample_os = None"
  by (simp_all add: sample_os_def)

lemma sample_entries [simp]:
  "os_entry sample_os ''out.h'' = ''out.h''" "os_entry sample_os ''a.o'' = ''a.o''"
  "os_entry sample_os ''vmlinux'' = ''vmlinux''" "os_entry sample_os ''./vmlinux'' = ''vmlinux''"
  "os_entry sample_os (tmp_path sample_os ''out.h'' k) = tmp_path sample_os ''out.h'' k"
  "os_entry sample_os (tmp_path sample_os ''a'' k) = tmp_path sample_os ''a'' k"
  "tmp_path sample_os ''out.h'' k \<noteq> ''out.h''"
  by (simp_all add: sample_os_def tmp_path_def)

definition sample_world :: world where
  "sample_world = \<lparr>w_base = (\<lambda>_. (Some sample_base, 0, 0)), w_object = (\<lambda>_. (Some sample_object, None, 0, 0)),
     w_os = sample_os, w_stdout_fails = (\<lambda>_. False), w_stderr_fails = False,
     w_versions = \<lparr>MIN_COREHDR_VERSION = ''1'', MIN_COREHDR_GIT_REVISION = ''2'', libbpf_version_string = ''3''\<rparr>\<rparr>"

definition sample_args :: "string \<Rightarrow> string list" where
  "sample_args out = [''--btf=vmlinux'', ''-qo'', out, ''a.o'']"

definition sample_options :: "string \<Rightarrow> mch_cli_options" where
  "sample_options out = mch_cli_options_init\<lparr>cl_btf_path := Some ''vmlinux'', cl_output_path := Some out,
     cl_objects := [''a.o''], cl_object_count := 1, cl_quiet := True\<rparr>"

subsection \<open>The command line\<close>

lemma sample_command_line:
  "command_line (sample_args out) [Btf ''vmlinux'', Quiet, Output out, Object ''a.o'']"
proof -
  have "letters ''qo'' [out, ''a.o''] [Quiet, Output out] [''a.o'']"
    by (intro letters_flag letters_output_next) (simp add: letter_def)
  from argument_letters [OF _ this] have q: "argument [''-qo'', out, ''a.o''] [Quiet, Output out] [''a.o'']" by simp
  have o: "argument [''a.o''] [Object ''a.o''] []" by (rule argument_object) simp
  have b: "argument (sample_args out) [Btf ''vmlinux''] [''-qo'', out, ''a.o'']"
    using argument_btf [of "''vmlinux''" "[''-qo'', out, ''a.o'']"] by (simp add: sample_args_def)
  from command_argument [OF b command_argument [OF q command_argument [OF o command_end]]] show ?thesis by simp
qed

text \<open>The output must not be spelled as an input.\<close>

definition sample_name :: "string \<Rightarrow> bool" where
  "sample_name out \<longleftrightarrow> out \<noteq> [] \<and> out \<noteq> ''vmlinux'' \<and> out \<noteq> ''a.o'' \<and> length out < 1000"

lemma sample_outputs [simp]: "sample_name ''out.h''" "sample_name ''./vmlinux''"
  by (simp_all add: sample_name_def)

lemma sample_parse:
  assumes "sample_name out"
  shows "mch_cli_parse (''min-corehdr'' # (sample_args out)) mch_cli_options_init err plenty = Inr (sample_options out, plenty)"
proof -
  let ?ss = "[Btf ''vmlinux'', Quiet, Output out, Object ''a.o'']"
  have "well_formed ?ss" "runnable ?ss" using assms by (auto simp: sample_name_def well_formed_def runnable_def)
  moreover have "meaning ?ss = sample_options out"
    by (simp add: meaning_def sample_options_def mch_cli_options_init_def since_quiet_def)
  moreover have "length (sample_args out) < 2 ^ 31" by (simp add: sample_args_def)
  ultimately show ?thesis using mch_cli_parse_meaning sample_command_line by metis
qed

lemmas sample_parse_out = sample_parse [OF sample_outputs(1)]

subsection \<open>The analysis\<close>

lemma sample_index_init: "mch_btf_index_init sample_base mch_error_clear plenty = Some (Inr (sample_index, plenty))"
proof -
  obtain idx where "mch_btf_index_init sample_base mch_error_clear plenty = Some (Inr (idx, plenty))"
    using mch_btf_index_init_cases(2) [of sample_base plenty mch_error_clear] by auto
  then show ?thesis by (simp add: sample_index_def)
qed

lemma sample_sets: "prepare_sets 7 err plenty = Inr (empty_set 7, sample_requirements, plenty)"
proof -
  have "mch_requirements_init 7 plenty = (0, sample_requirements, plenty)"
    "mch_type_set_init 7 plenty = (0, empty_set 7, plenty)"
    by (simp_all add: empty_set_def sample_requirements_def mch_type_set_init_def mch_requirements_init_def
        heap_calloc_def word_count_for_bits_def Let_def)
  then show ?thesis by (simp add: prepare_sets_def)
qed

definition sample_start_work :: work where
  "sample_start_work = \<lparr>wk_required = empty_set 7, wk_requirements = sample_requirements,
     wk_total = mch_seed_stats_init, wk_heap = plenty\<rparr>"

lemma sample_quiet [simp]: "say (sample_options out) level line = []"
  by (simp add: say_def sample_options_def)

text \<open>A world with the sample files, whatever its operating system does.\<close>

definition sample_inputs :: "world \<Rightarrow> bool" where
  "sample_inputs w \<longleftrightarrow> w_base w = w_base sample_world \<and> w_object w = w_object sample_world"

lemma sample_prepare:
  assumes "sample_inputs w"
  shows "prepare w (sample_options out) mch_error_clear plenty = Some ([], Inr (sample_base, sample_index, sample_start_work))"
proof -
  have "(ucast (7 :: u32) :: size_t) = 7" by simp
  then show ?thesis using assms
    by (simp add: prepare_def bind_tell tell_def quietly_def bind_logged_def sample_inputs_def sample_world_def mch_load_base_btf_def
        mch_btf_doc_init_def sample_index_init sample_sets sample_start_work_def)
qed

text \<open>The object needs the struct and the unnamed enum.\<close>

definition sample_found :: "seed_state \<Rightarrow> mch_requirements \<Rightarrow> bool" where
  "sample_found st rq \<longleftrightarrow> seed_invar sample_base st \<and> ts_elems (ss_seeds st) = {2, 6}
     \<and> ss_requirements st = Some rq \<and> req_roots rq = {2, 6} \<and> req_members rq = {} \<and> ss_heap st = plenty"

lemma seeds_loop_heap:
  assumes "index_for b idx"
  shows "seed_invar b st \<Longrightarrow> ss_requirements st = None \<or> ss_heap st = plenty
    \<Longrightarrow> extract_object_seeds_loop idx ob path err ids st = Some (Inr st')
    \<Longrightarrow> ss_requirements st' = None \<or> ss_heap st' = plenty"
proof (induction ids arbitrary: st)
  case (Cons i ids)
  then obtain st1 where one: "extract_object_seed idx ob path err i st = Some (Inr st1)"
    and rest: "extract_object_seeds_loop idx ob path err ids st1 = Some (Inr st')" by (auto simp: bind_outcome_Inr)
  have "seed_invar b st1" using extract_object_seed_Inr [OF assms Cons.prems(1) one] by blast
  then show ?case
    using Cons.IH [OF _ _ rest] extract_object_seed_fails_iff(3) [OF assms Cons.prems(1,2) one] by blast
qed simp

lemma sample_found_exists:
  obtains st rq where "mch_extract_object_seeds_with_requirements sample_index sample_object path err
      (sample_state (Some sample_requirements)) = Some (Inr st)" "sample_found st rq"
proof -
  obtain st where run: "mch_extract_object_seeds_with_requirements sample_index sample_object path err
      (sample_state (Some sample_requirements)) = Some (Inr st)"
    using sample_extraction by blast
  then have loop: "extract_object_seeds_loop sample_index sample_object path err (type_ids sample_object)
      (sample_state (Some sample_requirements)) = Some (Inr st)"
    by (simp add: mch_extract_object_seeds_with_requirements_def)
  note idx = built_index_for [OF sample_index_built]
  have start: "ts_elems (ss_seeds (sample_state rq)) = {}" "ss_requirements (sample_state rq) = rq"
      "ss_heap (sample_state rq) = plenty" for rq
    by (simp_all add: sample_state_def empty_set_ok)
  have J: "(\<Union>i \<in> set (type_ids sample_object). object_seeds sample_base sample_object i) = {2, 6}"
    by (auto simp: sample_type_ids sample_object_seeds)
  have inv: "seed_invar sample_base st" and ext: "extends_roots (sample_state (Some sample_requirements)) {2, 6} st"
    using extract_object_seeds_loop_Inr [OF idx sample_state_ok(2) loop] unfolding J by blast+
  from ext obtain rq where "ss_requirements st = Some rq" "req_roots rq = {2, 6}" "req_members rq = {}"
    "ts_elems (ss_seeds st) = {2, 6}"
    by (auto simp: extends_roots_def start sample_requirements_ok)
  moreover from this have "ss_heap st = plenty"
    using seeds_loop_heap [OF idx sample_state_ok(2) _ loop] by (simp add: start)
  ultimately have "sample_found st rq" using inv by (simp add: sample_found_def)
  with run show thesis by (rule that)
qed

subsection \<open>The closure\<close>

lemma no_members_hidden:
  assumes "req_invar b rq" "req_members rq = {}"
  shows "\<not> mch_requirements_has_record_members (Some rq) i"
proof (cases "i < type_count rq")
  case True
  then have "members_of rq (unat i) = {}" using assms(2) by (auto simp: req_members_def word_less_nat_alt)
  then show ?thesis by (simp add: has_record_members_iff [OF assms(1)])
qed (simp add: mch_requirements_has_record_members_def)

lemma sample_shows_all: "sample_found st rq \<Longrightarrow> shows_all (Some rq)"
  using no_members_hidden [of sample_base rq]
  by (auto simp: shows_all_def member_hidden_def sample_found_def seed_invar_def)

lemma sample_dependencies:
  assumes "sample_found st rq"
  shows "dep_reachable sample_base (Some \<lparr>expand_pointers = False, co_requirements = Some rq\<rparr>) {2, 6} = {1, 2, 3, 4, 6}"
proof -
  let ?options = "Some \<lparr>expand_pointers = False, co_requirements = Some rq\<rparr>"
  have "\<not> mch_requirements_has_record_members (Some rq) i" for i
    using assms by (intro no_members_hidden [of sample_base]) (auto simp: sample_found_def seed_invar_def)
  then have "type_deps ?options i t = type_deps None i t" for i t
    by (auto simp: type_deps_def member_pruned_def)
  then have edges: "dep_edge sample_base ?options = dep_edge sample_base None" by (auto simp: dep_edge_def fun_eq_iff)
  have "dep_reachable sample_base None {6} = {6}"
  proof
    show "dep_reachable sample_base None {6} \<subseteq> {6}"
      by (rule dep_reachable_least) (auto simp: dep_edge_def type_deps_def)
  qed (rule dep_reachable_refl)
  moreover have "dep_reachable sample_base ?options {2, 6}
      = dep_reachable sample_base None {2} \<union> dep_reachable sample_base None {6}"
    by (auto simp: dep_reachable_def edges)
  ultimately show ?thesis using sample_reachable by auto
qed

lemma sample_closed:
  assumes found: "sample_found st rq"
  obtains s stats where "mch_compute_dependency_closure_with_options sample_base (ss_seeds st) mch_closure_stats_init
      (Some \<lparr>expand_pointers = False, co_requirements = Some rq\<rparr>) mch_error_clear plenty = Some (Inr (s, stats, plenty))"
    "closure_start sample_base s" "required_ids s = {1, 2, 3, 4, 6}"
proof -
  let ?options = "Some \<lparr>expand_pointers = False, co_requirements = Some rq\<rparr>"
  have "unat i = 2 \<longleftrightarrow> i = 2" "unat i = 6 \<longleftrightarrow> i = 6" for i :: u32 by (auto simp: word_unat_eq_iff)
  then have ids: "required_ids (ss_seeds st) = {2, 6}" using found by (auto simp: required_ids_def sample_found_def)
  then have start: "closure_start sample_base (ss_seeds st)"
    using found by (simp add: closure_start_def sample_found_def seed_invar_def)
  note reach = sample_dependencies [OF found]
  have inside: "j < type_cnt sample_base" "type_by_id sample_base j \<noteq> None"
    if "j \<in> dep_reachable sample_base ?options {2, 6}" for j
    using that unfolding reach by (auto simp: word_less_nat_alt)
  then have "\<not> closure_fault sample_base ?options {2, 6} mch_error_clear e" for e
    using dep_reachable_step unfolding closure_fault_def by (meson not_less)
  with closure_total [OF start, of mch_closure_stats_init ?options mch_error_clear plenty]
  obtain r where run: "mch_compute_dependency_closure_with_options sample_base (ss_seeds st) mch_closure_stats_init
      ?options mch_error_clear plenty = Some r"
    and r: "case r of Inl e \<Rightarrow> False
      | Inr (s, stats, h) \<Rightarrow> closure_start sample_base s \<and> required_ids s = {1, 2, 3, 4, 6} \<and> h = plenty"
    unfolding ids reach by (force split: sum.split_asm sum.split prod.split_asm)
  show thesis
  proof (cases r)
    case (Inr x)
    then show thesis using run r by (cases x) (auto intro: that)
  qed (use r in simp)
qed

definition sample_result :: "work \<Rightarrow> bool" where
  "sample_result wk \<longleftrightarrow> closure_start sample_base (wk_required wk) \<and> required_ids (wk_required wk) = {1, 2, 3, 4, 6}
     \<and> shows_all (Some (wk_requirements wk)) \<and> wk_heap wk = plenty"

lemma sample_analysis:
  assumes inputs: "sample_inputs w"
  obtains wk stats where
    "analyse w (sample_options out) mch_error_clear plenty = Some ([], Inr (sample_base, wk, stats))" "sample_result wk"
proof -
  obtain st rq where own: "mch_extract_object_seeds_with_requirements sample_index sample_object (Some ''a.o'')
      mch_error_clear (sample_state (Some sample_requirements)) = Some (Inr st)" and found: "sample_found st rq"
    by (rule sample_found_exists)
  obtain s stats where closed: "mch_compute_dependency_closure_with_options sample_base (ss_seeds st)
      mch_closure_stats_init (Some \<lparr>expand_pointers = False, co_requirements = Some rq\<rparr>) mch_error_clear plenty
      = Some (Inr (s, stats, plenty))"
    "closure_start sample_base s" "required_ids s = {1, 2, 3, 4, 6}"
    by (rule sample_closed [OF found])
  let ?wk = "\<lparr>wk_required = ss_seeds st, wk_requirements = rq,
      wk_total = add_stats mch_seed_stats_init (ss_stats st), wk_heap = plenty\<rparr>"
  have "work_seeds sample_start_work = sample_state (Some sample_requirements)"
    by (simp add: work_seeds_def sample_start_work_def sample_state_def)
  then have "process_object w (sample_options out) sample_index mch_error_clear ''a.o'' sample_start_work
      = Some ([], Inr ?wk)"
    using own found inputs
    by (simp add: process_object_def bind_tell tell_def quietly_def bind_logged_def sample_inputs_def sample_world_def mch_load_object_btf_def
        mch_btf_doc_init_def mch_extract_core_relo_seeds_with_requirements_def sample_found_def sample_start_work_def)
  then have "process_objects w (sample_options out) sample_index mch_error_clear (cl_objects (sample_options out))
      sample_start_work = Some ([], Inr ?wk)"
    by (simp add: sample_options_def bind_logged_def)
  moreover have "closure_options (sample_options out) ?wk = \<lparr>expand_pointers = False, co_requirements = Some rq\<rparr>"
    by (simp add: closure_options_def sample_options_def mch_cli_options_init_def)
  ultimately have "analyse w (sample_options out) mch_error_clear plenty
      = Some ([], Inr (sample_base, ?wk\<lparr>wk_required := s, wk_heap := plenty\<rparr>, stats))"
    using closed(1) by (simp add: analyse_def sample_prepare [OF inputs] bind_logged_def tell_def quietly_def)
  moreover have "sample_result (?wk\<lparr>wk_required := s, wk_heap := plenty\<rparr>)"
    using closed(2,3) sample_shows_all [OF found] by (simp add: sample_result_def)
  ultimately show thesis by (rule that)
qed

subsection \<open>The header\<close>

lemma sample_run_kinds [simp]:
  "\<not> named_forward sample_base 1" "\<not> named_forward sample_base 3" "\<not> named_forward sample_base 4"
  "\<not> is_enum sample_base 1" "\<not> is_enum sample_base 3" "\<not> is_enum sample_base 4"
  "\<not> is_typedef sample_base 1" "\<not> is_typedef sample_base 3" "\<not> is_typedef sample_base 4"
  "\<not> named_record sample_base 1" "\<not> named_record sample_base 3" "\<not> named_record sample_base 4"
  by (simp_all add: named_forward_def is_enum_def is_typedef_def named_record_def of_type_def is_named_record_def
      mch_btf_type_name_def)

definition run_header :: string where
  "run_header = concat preamble @ ''struct task;'' @ newline @ newline
     @ ''enum {'' @ newline @ ''  IDLE = 0'' @ newline @ ''};'' @ newline @ newline
     @ ''struct task {'' @ newline @ ''  unsigned int pid;'' @ newline
     @ ''  union {'' @ newline @ ''  unsigned int state;'' @ newline
     @ ''  struct task *next;'' @ newline @ ''};'' @ newline @ ''};'' @ newline @ newline
     @ concat postamble"

lemma run_header_emitted:
  assumes res: "sample_result wk"
  shows "mch_emit_header_with_options (Suc (Suc (Suc (Suc (Suc n))))) (\<lambda>_. False) [] sample_base (wk_required wk)
     (emit_options wk) mch_error_clear plenty = Some (True, run_header, mch_error_clear, plenty)"
proof -
  let ?rq = "Some (wk_requirements wk)"
  let ?rest = "[emit_forward_decl sample_base 2, put newline, emit_enum_definition sample_base 6,
      emit_record_definition sample_base ?rq (Suc (Suc (Suc (Suc (Suc n))))) 2]"
  have zero: "ec_fwd_state (fresh_ctx [] sample_base e) ! 2 = 0" "ec_record_state (fresh_ctx [] sample_base e) ! 2 = 0"
    "length (ec_record_state (fresh_ctx [] sample_base e)) = 7"
    "length (ec_fwd_state (fresh_ctx [] sample_base e)) = 7" "ec_out (fresh_ctx [] sample_base e) = []" for e
    by (simp_all add: fresh_ctx_def Let_def)
  have list: "required_list (wk_required wk) = [1, 2, 3, 4, 6]"
    using res by (simp add: required_list_def sample_result_def insert_commute)
  have start: "closure_start sample_base (wk_required wk)" and ids: "required_ids (wk_required wk) = {1, 2, 3, 4, 6}"
    and all_shown: "shows_all ?rq" using res by (simp_all add: sample_result_def)
  have "emit_ids_text sample_base ?rq (Suc (Suc (Suc (Suc (Suc n))))) [1, 2, 3, 4, 6]
      = run_all (map put preamble @ ?rest @ map put postamble)"
    by (simp add: emit_ids_text_def)
  moreover have "run_all (map put preamble @ ?rest @ map put postamble) (fresh_ctx [] sample_base mch_error_clear)
      = Some (True, (fresh_ctx [] sample_base mch_error_clear)
          \<lparr>ec_fwd_state := (ec_fwd_state (fresh_ctx [] sample_base mch_error_clear))[2 := 1],
           ec_record_state := (ec_record_state (fresh_ctx [] sample_base mch_error_clear))[2 := 2],
           ec_out := run_header\<rparr>)"
    using all_shown
    by (simp add: run_all_append run_puts sample_forward put_def zero sample_enum_definition sample_record run_header_def)
  ultimately show ?thesis
    by (simp add: header_plenty [OF start] ids list option_requirements_def emit_options_def)
      (simp add: fresh_ctx_def Let_def)
qed

lemma run_header_deep:
  assumes "sample_result wk" "5 \<le> n"
  shows "mch_emit_header_with_options n (\<lambda>_. False) [] sample_base (wk_required wk) (emit_options wk) mch_error_clear plenty
     = Some (True, run_header, mch_error_clear, plenty)"
proof -
  obtain k where "n = Suc (Suc (Suc (Suc (Suc k))))"
    using assms(2) by (metis add_2_eq_Suc add_Suc le_iff_add numeral_Bit1 numeral_code(2) Suc3_eq_add_3 eval_nat_numeral(3))
  then show ?thesis using run_header_emitted [OF assms(1)] by simp
qed

subsection \<open>The output\<close>

lemma show_nat_small: "n < 10 \<Longrightarrow> show_nat n = [digit_char n]"
  by (simp add: show_nat.simps)

lemma sample_temp:
  assumes "os_pid env = 7" "os_open env = (\<lambda>_. None)" "os_fdopen env = None"
    "fs (os_entry env (tmp_path env out 0)) = None" "sample_name out"
  shows "open_temp_output env out err fs
    = (Inr (tmp_path env out 0), fs(os_entry env (tmp_path env out 0) \<mapsto> []))"
proof -
  have "length (tmp_path env out 0) < 1024" using assms(1,5) by (simp add: tmp_path_def show_int_def show_nat_small sample_name_def)
  then show ?thesis
    unfolding open_temp_output_def using assms by (subst open_attempts_first [where k = 0]) simp_all
qed

lemma sample_write:
  assumes "sample_result wk" "5 \<le> n" and free: "fs (os_entry sample_os (tmp_path sample_os out 0)) = None" "sample_name out"
  shows "write_output sample_world n (sample_options out) sample_base wk mch_error_clear fs
    = Some (True, mch_error_clear, fs(os_entry sample_os out \<mapsto> run_header), [])"
proof -
  have heap: "wk_heap wk = plenty" using assms(1) by (simp add: sample_result_def)
  let ?tmp = "tmp_path sample_os out 0"
  have temp: "open_temp_output sample_os out mch_error_clear fs = (Inr ?tmp, fs(os_entry sample_os ?tmp \<mapsto> []))"
    by (rule sample_temp) (use free in \<open>simp_all add: sample_os_def\<close>)
  have files: "c_rename sample_os ?tmp out (fs(os_entry sample_os ?tmp \<mapsto> run_header))
      = (None, fs(os_entry sample_os out \<mapsto> run_header))"
    using free(1) by (auto simp: c_rename_def fun_upd_def)
  have w: "w_os sample_world = sample_os" "cl_output_path (sample_options out) = Some out"
    by (simp_all add: sample_world_def sample_options_def mch_cli_options_init_def)
  show ?thesis
    using run_header_deep [OF assms(1,2)] heap temp files
    by (simp add: write_output_def write_header_to_path_def w c_fclose_def Let_def flip: emit_options_def)
qed

lemma sample_program:
  assumes "5 \<le> n" "fs (os_entry sample_os (tmp_path sample_os out 0)) = None" "sample_name out"
  shows "main_program sample_world n (''min-corehdr'' # sample_args out) plenty fs
    = Some \<lparr>exit_code = 0, to_stdout = [], to_stderr = [], files_after = fs(os_entry sample_os out \<mapsto> run_header)\<rparr>"
proof -
  obtain wk stats where an: "analyse sample_world (sample_options out) mch_error_clear plenty
      = Some ([], Inr (sample_base, wk, stats))" and res: "sample_result wk"
    by (rule sample_analysis [of sample_world]) (simp_all add: sample_inputs_def)
  have opts: "\<not> cl_help (sample_options out)" "\<not> cl_version (sample_options out)" "\<not> cl_explain (sample_options out)" "\<not> cl_stats (sample_options out)"
    by (simp_all add: sample_options_def mch_cli_options_init_def)
  show ?thesis
    unfolding main_program_runs [OF sample_parse [OF assms(3)] opts(1,2)] an
    by (simp add: finish_def sample_write [where fs = fs, OF res assms] explanation_def opts)
qed

end
