(* ===== verification/Pipeline_Properties.thy ===== *)
theory Pipeline_Properties
  imports Pipeline_Sample
begin

text \<open>The properties of the whole program and of its output file, each with its application to the sample run.\<close>

subsection \<open>The program\<close>

text \<open>
  C1: When the program succeeds, the requirements are exactly what the objects need: the base types that their own types
  and their CO-RE relocations resolve to, and record members that a relocation reads, all of those it may need
  among them. The header shows the types that these requirements lead to, prints every item once and, unless what the items
  require goes round in a circle, after what it requires; it is the whole text of the output: of the output file, with no other
  file touched, or of standard output.
\<close>

theorem program_end_to_end:
  assumes "mch_cli_parse argv mch_cli_options_init mch_error_clear h = Inr (opts, h1)"
    and "\<not> cl_help opts" "\<not> cl_version opts" and "ext_sizes_fit w"
    and "main_program w n argv h fs = Some r" and "exit_code r = 0"
  shows "\<exists>b wk written. analysed w opts b wk \<and> header_of b wk n written
     \<and> delivered w opts written fs (to_stdout r) (files_after r)"
  using program_success [OF assms] by blast

theorem program_end_to_end_witness:
  "\<exists>wk. analysed sample_world (sample_options ''out.h'') sample_base wk \<and> header_of sample_base wk 248 run_header"
proof -
  have opts: "\<not> cl_help (sample_options ''out.h'')" "\<not> cl_version (sample_options ''out.h'')"
    "cl_output_path (sample_options ''out.h'') = Some ''out.h''" "w_os sample_world = sample_os"
    by (simp_all add: sample_options_def mch_cli_options_init_def sample_world_def)
  have "ext_sizes_fit sample_world" by (simp add: ext_sizes_fit_def sample_world_def)
  from program_end_to_end [OF sample_parse_out opts(1,2) this sample_program [of 248 Map.empty]]
  obtain b wk written where an: "analysed sample_world (sample_options ''out.h'') b wk" and "header_of b wk 248 written"
    and "delivered sample_world (sample_options ''out.h'') written Map.empty [] [''out.h'' \<mapsto> run_header]" by (auto simp: sample_world_def)
  moreover from this have "written = run_header" by (auto simp: delivered_def opts fun_eq_iff split: if_split_asm)
  moreover have "b = sample_base" using an by (auto simp: analysed_def sample_world_def)
  ultimately show ?thesis by blast
qed

text \<open>
  C4: When the program fails, the exit code is 2 exactly when the command line is refused, and 1 otherwise. Every file is as it was
  before, the output included, and at most a new temporary file that could not be removed is left; the one exception is that the
  header was emitted and delivered in full, and after that the witness for \<^verbatim>\<open>--explain\<close> could not be written.
\<close>

theorem program_failure_harmless:
  assumes "main_program w n argv h fs = Some r" and "exit_code r \<noteq> 0"
  shows "case mch_cli_parse argv mch_cli_options_init mch_error_clear h of
       Inl e \<Rightarrow> exit_code r = 2 \<and> files_after r = fs \<and> to_stdout r = [] \<and> to_stderr r = mch_error_print e
     | Inr (opts, h1) \<Rightarrow> exit_code r = 1
         \<and> (undisturbed w opts fs (files_after r) \<or> only_unexplained w opts n h1 fs r)"
proof (cases "mch_cli_parse argv mch_cli_options_init mch_error_clear h")
  case (Inl e)
  then show ?thesis using assms(1) by (auto simp: main_program_def)
next
  case (Inr x)
  then show ?thesis using program_failure [OF _ assms] by (cases x) simp
qed

theorem program_failure_harmless_witness:
  "\<exists>r. main_program sample_world 0 [] plenty [''x'' \<mapsto> ''y''] = Some r \<and> exit_code r = 2 \<and> files_after r = [''x'' \<mapsto> ''y'']"
proof -
  let ?e = "mch_error_set ''missing required --btf FILE'' mch_error_clear"
  have parse: "mch_cli_parse [] mch_cli_options_init mch_error_clear plenty = Inl ?e"
    by (simp add: mch_cli_parse_def check_options_def mch_cli_options_init_def)
  have run: "main_program sample_world 0 [] plenty [''x'' \<mapsto> ''y'']
      = Some \<lparr>exit_code = 2, to_stdout = [], to_stderr = mch_error_print ?e, files_after = [''x'' \<mapsto> ''y'']\<rparr>"
    by (simp add: main_program_def parse)
  from program_failure_harmless [OF run] run show ?thesis by (simp add: parse)
qed

text \<open>
  C10: The program never changes its inputs when different spellings name different files: whatever happens, a file at the path of
  the base or of an object is after the run as it was before, provided that an output path spelled otherwise names another
  directory entry. That it is not spelled the same the program checks itself.
\<close>

theorem program_keeps_inputs:
  assumes "mch_cli_parse argv mch_cli_options_init mch_error_clear h = Inr (opts, h1)"
    and "main_program w n argv h fs = Some r"
    and "cl_btf_path opts = Some p \<or> p \<in> set (cl_objects opts)" and "fs (os_entry (w_os w) p) \<noteq> None"
    and "\<And>out. cl_output_path opts = Some out \<Longrightarrow> out \<noteq> p \<Longrightarrow> os_entry (w_os w) out \<noteq> os_entry (w_os w) p"
  shows "files_after r (os_entry (w_os w) p) = fs (os_entry (w_os w) p)"
proof (cases "cl_help opts \<or> cl_version opts")
  case True
  then show ?thesis using assms(1,2) by (auto simp: main_program_def split: if_split_asm)
next
  case False
  then have no_text: "\<not> cl_help opts" "\<not> cl_version opts" by simp_all
  have "cl_output_path opts = Some out \<Longrightarrow> out \<noteq> p" for out
    using assms(3) by (cases rule: mch_cli_parse_checked [OF assms(1) no_text]) auto
  then have kept: "delivered w opts written fs out' fs' \<Longrightarrow> fs' (os_entry (w_os w) p) = fs (os_entry (w_os w) p)"
    for written out' fs'
    using assms(5) by (auto simp: delivered_def split: option.split_asm)
  have still: "fs' (os_entry (w_os w) p) = fs (os_entry (w_os w) p)" if "undisturbed w opts fs fs'" for fs'
    using undisturbed_keep [where p = "os_entry (w_os w) p", OF that assms(4)] .
  show ?thesis
  proof (cases "\<exists>log e. analyse w opts mch_error_clear h1 = Some (log, Inl e)")
    case True
    then show ?thesis using assms(2) by (auto simp: main_program_runs [OF assms(1) no_text])
  next
    case False
    with assms(2) obtain log b wk stats where "finish w n opts log b wk stats mch_error_clear fs = Some r"
      unfolding main_program_runs [OF assms(1) no_text] by (auto split: option.split_asm sum.split_asm)
    then show ?thesis
      by (cases rule: finish_cases) (metis write_output_True write_output_False kept still)+
  qed
qed

theorem program_keeps_inputs_witness:
  "\<exists>r. main_program sample_world 248 (''min-corehdr'' # sample_args ''out.h'') plenty [''a.o'' \<mapsto> ''elf''] = Some r
     \<and> exit_code r = 0 \<and> files_after r ''a.o'' = Some ''elf''"
proof -
  have "os_entry sample_os (tmp_path sample_os ''out.h'' 0) \<noteq> ''a.o''" by (simp add: sample_os_def tmp_path_def)
  then have run: "main_program sample_world 248 (''min-corehdr'' # sample_args ''out.h'') plenty [''a.o'' \<mapsto> ''elf'']
      = Some \<lparr>exit_code = 0, to_stdout = [], to_stderr = [],
          files_after = [''a.o'' \<mapsto> ''elf''](os_entry sample_os ''out.h'' \<mapsto> run_header)\<rparr>"
    by (intro sample_program) simp_all
  have "cl_btf_path (sample_options ''out.h'') = Some ''a.o'' \<or> ''a.o'' \<in> set (cl_objects (sample_options ''out.h''))"
    by (simp add: sample_options_def)
  moreover have "w_os sample_world = sample_os" "cl_output_path (sample_options ''out.h'') = Some ''out.h''"
    by (simp_all add: sample_world_def sample_options_def)
  ultimately show ?thesis
    using program_keeps_inputs [OF sample_parse_out run, of "''a.o''"] run by simp
qed

text \<open>
  C39: The check on the output path compares spellings. When the output path is another spelling of the path of an input, the two
  name one directory entry, and the run succeeds, then the input has been replaced by the header.
\<close>

theorem second_spelling_overwrites_input:
  assumes "mch_cli_parse argv mch_cli_options_init mch_error_clear h = Inr (opts, h1)"
    and "\<not> cl_help opts" "\<not> cl_version opts" and "ext_sizes_fit w"
    and "main_program w n argv h fs = Some r" and "exit_code r = 0"
    and "cl_btf_path opts = Some p \<or> p \<in> set (cl_objects opts)"
    and "cl_output_path opts = Some out" "os_entry (w_os w) out = os_entry (w_os w) p"
  shows "out \<noteq> p \<and> (\<exists>b wk written. analysed w opts b wk \<and> header_of b wk n written
     \<and> files_after r (os_entry (w_os w) p) = Some written)"
proof -
  have "out \<noteq> p" using assms(7,8) by (cases rule: mch_cli_parse_checked [OF assms(1-3)]) auto
  moreover obtain b wk written where "analysed w opts b wk" "header_of b wk n written"
    "delivered w opts written fs (to_stdout r) (files_after r)" by (rule program_success [OF assms(1-6)])
  ultimately show ?thesis using assms(8,9) by (auto simp: delivered_def)
qed

theorem second_spelling_overwrites_input_witness:
  "\<exists>r wk. main_program sample_world 248 (''min-corehdr'' # sample_args ''./vmlinux'') plenty [''vmlinux'' \<mapsto> ''btf''] = Some r
     \<and> cl_btf_path (sample_options ''./vmlinux'') = Some ''vmlinux''
     \<and> (\<exists>written. files_after r ''vmlinux'' = Some written \<and> header_of sample_base wk 248 written)"
proof -
  have "os_entry sample_os (tmp_path sample_os ''./vmlinux'' 0) \<noteq> ''vmlinux''" by (simp add: sample_os_def tmp_path_def)
  then have run: "main_program sample_world 248 (''min-corehdr'' # sample_args ''./vmlinux'') plenty [''vmlinux'' \<mapsto> ''btf'']
      = Some \<lparr>exit_code = 0, to_stdout = [], to_stderr = [],
          files_after = [''vmlinux'' \<mapsto> ''btf''](os_entry sample_os ''./vmlinux'' \<mapsto> run_header)\<rparr>"
    by (intro sample_program) simp_all
  have opts: "\<not> cl_help (sample_options ''./vmlinux'')" "\<not> cl_version (sample_options ''./vmlinux'')"
    "cl_btf_path (sample_options ''./vmlinux'') = Some ''vmlinux''"
    "cl_output_path (sample_options ''./vmlinux'') = Some ''./vmlinux''"
    by (simp_all add: sample_options_def mch_cli_options_init_def)
  have fits: "ext_sizes_fit sample_world" by (simp add: ext_sizes_fit_def sample_world_def)
  have entry: "w_os sample_world = sample_os" by (simp add: sample_world_def)
  obtain b wk written where "analysed sample_world (sample_options ''./vmlinux'') b wk" "header_of b wk 248 written"
    and "run_header = written"
    using second_spelling_overwrites_input [OF sample_parse [OF sample_outputs(2)] opts(1,2) fits run, of "''vmlinux''" "''./vmlinux''"]
    by (auto simp: opts entry)
  moreover from this have "b = sample_base" by (auto simp: analysed_def sample_world_def)
  ultimately show ?thesis using run opts(3) by auto
qed

text \<open>
  C11: The program returns whatever memory, files and streams do, when the base does not go round in a circle and the depth of
  the emitter's recursion is that of its size.
\<close>

theorem program_returns:
  assumes "ext_sizes_fit w"
    and "\<And>path b errno. w_base w path = (Some b, 0, errno) \<Longrightarrow> well_founded_base n b"
  shows "\<exists>r. main_program w n argv h fs = Some r"
proof (cases "mch_cli_parse argv mch_cli_options_init mch_error_clear h")
  case (Inr x)
  obtain opts h1 where x: "x = (opts, h1)" by (cases x)
  show ?thesis
  proof (cases "cl_help opts \<or> cl_version opts")
    case False
    obtain log a where an: "analyse w opts mch_error_clear h1 = Some (log, a)"
      using analyse_returns [OF assms(1)] by (metis surj_pair)
    show ?thesis
    proof (cases a)
      case right: (Inr y)
      obtain b wk stats where y: "y = (b, wk, stats)" by (metis prod_cases3)
      have "analysed w opts b wk" using analyse_Inr [OF assms(1)] an right y by blast
      then have "closure_start b (wk_required wk)" "well_founded_base n b" using assms(2) by (auto simp: analysed_def)
      from finish_returns [OF this] show ?thesis
        using False Inr x an right y by (simp add: main_program_def)
    qed (use False Inr x an in \<open>simp add: main_program_def\<close>)
  qed (use Inr x in \<open>auto simp: main_program_def\<close>)
qed (simp add: main_program_def)

theorem program_returns_witness:
  "\<exists>r. main_program (sample_world\<lparr>w_os := sample_os\<lparr>os_rename := Some 5\<rparr>\<rparr>) 248 (''min-corehdr'' # sample_args ''out.h'')
     (False ## plenty) Map.empty = Some r"
proof -
  let ?w = "sample_world\<lparr>w_os := sample_os\<lparr>os_rename := Some 5\<rparr>\<rparr>"
  have "ext_sizes_fit ?w" by (simp add: ext_sizes_fit_def sample_world_def)
  moreover have "well_founded_base 248 b" if "w_base ?w path = (Some b, 0, errno)" for path b errno
    using that sample_acyclic by (auto simp: sample_world_def well_founded_base_def level_depth_def)
  ultimately show ?thesis by (rule program_returns)
qed

text \<open>
  C33: A write error goes unexplained. If the header would be written, but its stream reports an error at the end, as on a full
  disk, the program exits with 1 and its diagnostics end with nothing about the failure: no error record has been set.
\<close>

theorem write_error_unexplained:
  assumes "mch_cli_parse argv mch_cli_options_init mch_error_clear h = Inr (opts, h1)"
    and "\<not> cl_help opts" "\<not> cl_version opts"
    and "analyse w opts mch_error_clear h1 = Some (log, Inr (b, wk, stats))"
    and "mch_emit_header_with_options n (\<lambda>_. False) [] b (wk_required wk) (emit_options wk) mch_error_clear (wk_heap wk)
      = Some (True, written, e, h2)" and "message e = []"
    and "case cl_output_path opts of
        None \<Rightarrow> w_stdout_fails w written
      | Some path \<Rightarrow> os_write_fails (w_os w) written
          \<and> (\<exists>tmp fs1. open_temp_output (w_os w) path mch_error_clear fs = (Inr tmp, fs1))"
  shows "\<exists>r. main_program w n argv h fs = Some r \<and> exit_code r = 1 \<and> to_stderr r = log"
proof -
  have silent: "mch_error_print e = []" using assms(6) by (simp add: mch_error_print_def)
  have emission: "mch_emit_header_with_options n ferror [] b (wk_required wk) (emit_options wk) mch_error_clear (wk_heap wk)
      = Some (\<not> ferror written, written, e, h2)" for ferror
    by (subst emission_stream) (simp add: assms(5))
  have "\<exists>fs' out. write_output w n opts b wk mch_error_clear fs = Some (False, e, fs', out)"
  proof (cases "cl_output_path opts")
    case None
    then show ?thesis using assms(7) emission by (simp add: write_output_def flip: emit_options_def)
  next
    case (Some path)
    then show ?thesis using assms(7) emission
      by (auto simp: write_output_def write_header_to_path_def c_fclose_def Let_def split: option.split
          simp flip: emit_options_def)
  qed
  then show ?thesis
    using assms(4) silent by (auto simp: main_program_runs [OF assms(1-3)] finish_def)
qed

theorem write_error_unexplained_witness:
  "\<exists>r. main_program (sample_world\<lparr>w_os := sample_os\<lparr>os_write_fails := (\<lambda>_. True)\<rparr>\<rparr>) 248 (''min-corehdr'' # sample_args ''out.h'')
     plenty Map.empty = Some r \<and> exit_code r = 1 \<and> to_stderr r = []"
proof -
  let ?w = "sample_world\<lparr>w_os := sample_os\<lparr>os_write_fails := (\<lambda>_. True)\<rparr>\<rparr>"
  obtain wk stats where an: "analyse ?w (sample_options ''out.h'') mch_error_clear plenty = Some ([], Inr (sample_base, wk, stats))"
    and res: "sample_result wk"
    by (rule sample_analysis [of ?w]) (simp_all add: sample_inputs_def)
  have opts: "\<not> cl_help (sample_options ''out.h'')" "\<not> cl_version (sample_options ''out.h'')" "cl_output_path (sample_options ''out.h'') = Some ''out.h''"
    by (simp_all add: sample_options_def mch_cli_options_init_def)
  have "\<exists>tmp fs1. open_temp_output (w_os ?w) ''out.h'' mch_error_clear Map.empty = (Inr tmp, fs1)"
    using sample_temp [of "w_os ?w" Map.empty "''out.h''" mch_error_clear] by simp
  moreover have "wk_heap wk = plenty" "message mch_error_clear = []"
    using res by (simp_all add: sample_result_def mch_error_clear_def)
  ultimately show ?thesis
    using run_header_deep [OF res, of 248]
    by (intro write_error_unexplained [OF sample_parse_out opts(1,2) an]) (auto simp: opts)
qed

text \<open>
  C34: A quiet run says nothing but errors: without \<^verbatim>\<open>--explain\<close> and \<^verbatim>\<open>--stats\<close>, standard error holds the
  text of one error record after a failure, and nothing after a success.
\<close>

theorem quiet_run_only_errors:
  assumes "mch_cli_parse argv mch_cli_options_init mch_error_clear h = Inr (opts, h1)"
    and "cl_quiet opts" "\<not> cl_explain opts" "\<not> cl_stats opts"
    and "main_program w n argv h fs = Some r"
  shows "\<exists>e. to_stderr r = (if exit_code r = 0 then [] else mch_error_print e)"
proof (cases "cl_help opts \<or> cl_version opts")
  case True
  then show ?thesis using assms(1,5) by (auto simp: main_program_def split: if_split_asm)
next
  case False
  have log: "log = []" if "analyse w opts mch_error_clear h1 = Some (log, a)" for log a
    using silent_analysis [OF assms(2)] that unfolding silent_def by blast
  from False have no_text: "\<not> cl_help opts" "\<not> cl_version opts" by simp_all
  obtain log a where an: "analyse w opts mch_error_clear h1 = Some (log, a)"
    using assms(5) by (auto simp: main_program_runs [OF assms(1) no_text] split: option.split_asm)
  have run: "main_program w n argv h fs = (case a of
        Inl e \<Rightarrow> Some \<lparr>exit_code = 1, to_stdout = [], to_stderr = mch_error_print e, files_after = fs\<rparr>
      | Inr (b, wk, stats) \<Rightarrow> finish w n opts [] b wk stats mch_error_clear fs)"
    using an log [OF an] by (simp add: main_program_runs [OF assms(1) no_text])
  show ?thesis
  proof (cases a)
    case (Inl e)
    then show ?thesis using run assms(5) by auto
  next
    case (Inr x)
    then obtain b wk stats where "finish w n opts [] b wk stats mch_error_clear fs = Some r"
      using run assms(5) by (auto split: prod.split_asm)
    then show ?thesis using assms(3,4)
      by (auto simp: finish_def explanation_def split: option.split_asm)
  qed
qed

theorem quiet_run_only_errors_witness:
  "\<exists>r e. main_program sample_world 248 (''min-corehdr'' # sample_args ''out.h'') plenty Map.empty = Some r
     \<and> to_stderr r = (if exit_code r = 0 then [] else mch_error_print e)"
proof -
  have opts: "cl_quiet (sample_options ''out.h'')" "\<not> cl_explain (sample_options ''out.h'')" "\<not> cl_stats (sample_options ''out.h'')"
    by (simp_all add: sample_options_def mch_cli_options_init_def)
  have run: "\<exists>r. main_program sample_world 248 (''min-corehdr'' # sample_args ''out.h'') plenty Map.empty = Some r"
    using sample_program [of 248 Map.empty] by simp
  then show ?thesis using quiet_run_only_errors [OF sample_parse_out opts] by blast
qed

subsection \<open>The output file\<close>

text \<open>
  C9: Replacing the output is all or nothing: after a success the output holds exactly the emitted text and no other file has
  changed; after a failure every file that existed is as before, and a new one exists only under a temporary name whose removal failed.
\<close>

theorem output_replaced_atomically:
  assumes "write_header_to_path env n path b required options err h fs = Some (ok, err', h', fs')"
  shows "(ok \<longrightarrow> (\<exists>written. mch_emit_header_with_options n (os_write_fails env) [] b required options err h
              = Some (True, written, err', h') \<and> fs' = fs(os_entry env path \<mapsto> written)))
     \<and> (\<not> ok \<longrightarrow> (\<forall>p. fs' p \<noteq> fs p \<longrightarrow> fs p = None
           \<and> (\<exists>k < 128. p = os_entry env (tmp_path env path k) \<and> os_remove_fails env (tmp_path env path k))))"
  using write_header_result [OF assms] by (auto simp: leftovers_def)

theorem output_replaced_atomically_witness:
  "\<exists>fs'. write_header_to_path sample_os 5 ''out.h'' sample_base sample_required None mch_error_clear plenty Map.empty
      = Some (True, mch_error_clear, plenty, fs') \<and> fs' = [''out.h'' \<mapsto> sample_header]"
proof -
  have emit: "mch_emit_header_with_options 5 (os_write_fails sample_os) [] sample_base sample_required None mch_error_clear
      plenty = Some (True, sample_header, mch_error_clear, plenty)"
    using sample_header_deep [OF order_refl] by simp
  have "open_temp_output sample_os ''out.h'' mch_error_clear Map.empty
      = (Inr (tmp_path sample_os ''out.h'' 0), [tmp_path sample_os ''out.h'' 0 \<mapsto> []])"
    using sample_temp [of sample_os Map.empty "''out.h''" mch_error_clear] by simp
  with emit obtain fs' where run: "write_header_to_path sample_os 5 ''out.h'' sample_base sample_required None mch_error_clear
      plenty Map.empty = Some (True, mch_error_clear, plenty, fs')"
    by (auto simp: write_header_to_path_def c_fclose_def c_rename_def Let_def)
  from output_replaced_atomically [OF run] emit run show ?thesis by auto
qed

text \<open>
  C35: The temporary file is the first of 128 names that is free; when all of them are taken, the error says that no
  unique name was found, and no file has changed.
\<close>

theorem temporary_name_first_free:
  assumes "\<forall>j < 128. os_open env (tmp_path env path j) = None \<and> length (tmp_path env path j) < 1024"
    and "os_fdopen env = None"
  shows "case find (\<lambda>j. fs (os_entry env (tmp_path env path j)) = None) [0..<128] of
       Some k \<Rightarrow> open_temp_output env path err fs = (Inr (tmp_path env path k), fs(os_entry env (tmp_path env path k) \<mapsto> []))
     | None \<Rightarrow> open_temp_output env path err fs = (Inl (mch_error_set_file (Some path)
         (mch_error_set ''failed to create a unique temporary output path'' err)), fs)"
proof (cases "find (\<lambda>j. fs (os_entry env (tmp_path env path j)) = None) [0..<128]")
  case None
  then have "\<forall>k \<in> set [0..<128]. fs (os_entry env (tmp_path env path k)) \<noteq> None" by (simp add: find_None_iff)
  then have "open_attempts env path [0..<128] err fs = (Inl (mch_error_set_file (Some path)
      (mch_error_set ''failed to create a unique temporary output path'' err)), fs)"
    using assms(1) by (intro open_attempts_exhausted) simp
  then show ?thesis by (simp add: None open_temp_output_def)
next
  case (Some k)
  then have "k < 128" "fs (os_entry env (tmp_path env path k)) = None"
    "\<forall>j < k. fs (os_entry env (tmp_path env path j)) \<noteq> None"
    by (auto simp: find_Some_iff)
  then show ?thesis using open_attempts_first [of k fs env path 0 128 err] assms Some
    by (simp add: open_temp_output_def)
qed

lemma show_nat_length: "length (show_nat n) \<le> Suc n"
proof (induction n rule: show_nat.induct)
  case (1 n)
  show ?case
  proof (cases "n < 10")
    case False
    then have "length (show_nat (n div 10)) \<le> Suc (n div 10)" "n div 10 < n" using 1 by auto
    then show ?thesis using False by (subst show_nat.simps) simp
  qed (simp add: show_nat.simps)
qed

theorem temporary_name_first_free_witness:
  "open_temp_output sample_os ''a'' mch_error_clear [tmp_path sample_os ''a'' 0 \<mapsto> ''x'']
     = (Inr (tmp_path sample_os ''a'' 1), [tmp_path sample_os ''a'' 0 \<mapsto> ''x'', tmp_path sample_os ''a'' 1 \<mapsto> []])"
proof -
  have "length (tmp_path sample_os ''a'' j) < 1024" if "j < 128" for j
    using that show_nat_length [of j] by (simp add: tmp_path_def sample_os_def show_int_def show_nat_small)
  then have "\<forall>j < 128. os_open sample_os (tmp_path sample_os ''a'' j) = None \<and> length (tmp_path sample_os ''a'' j) < 1024"
    by (simp add: sample_os_def)
  moreover have "os_fdopen sample_os = None" by (simp add: sample_os_def)
  moreover have "tmp_path sample_os ''a'' 1 \<noteq> tmp_path sample_os ''a'' 0"
    by (simp add: tmp_path_def show_nat_small digit_char_def)
  moreover have "[0..<128] = 0 # 1 # [2..<128 :: nat]" by (simp add: upt_conv_Cons)
  ultimately show ?thesis
    using temporary_name_first_free [where env = sample_os and path = "''a''" and err = mch_error_clear
        and fs = "[tmp_path sample_os ''a'' 0 \<mapsto> ''x'']"]
    by simp
qed

end
