(* ===== verification/Cli_Properties.thy ===== *)
theory Cli_Properties
  imports Cli_Spec
begin

text \<open>The properties of the command line, each with its application to a concrete line.\<close>

definition example_args :: "string list" where
  "example_args = [''-vq'', ''--btf=b'', ''-vv'', ''--stats'', ''-oh'', ''--'', ''--help'', ''x'']"

definition example_settings :: "setting list" where
  "example_settings = [Verbose, Quiet, Btf ''b'', Verbose, Verbose, Stats, Output ''h'', Object ''--help'', Object ''x'']"

definition example_options :: mch_cli_options where
  "example_options = mch_cli_options_init\<lparr>cl_btf_path := Some ''b'', cl_output_path := Some ''h'',
     cl_objects := [''--help'', ''x''], cl_object_count := 2, cl_verbose := 2, cl_stats := True\<rparr>"

lemma example_command_line: "command_line example_args example_settings"
proof -
  have "letters ''vq'' r [Verbose, Quiet] r" "letters ''vv'' r [Verbose, Verbose] r" for r
    by (intro letters_flag letters_end; simp add: letter_def)+
  then have vq: "argument (''-vq'' # r) [Verbose, Quiet] r" and vv: "argument (''-vv'' # r) [Verbose, Verbose] r" for r
    using argument_letters by fastforce+
  have oh: "argument (''-oh'' # r) [Output ''h''] r" for r
    using argument_letters [OF _ letters_output [of "''h''" r]] by simp
  have st: "argument (''--stats'' # r) [Stats] r" for r by (rule argument_flag) (simp add: long_flag_def)
  have b: "argument (''--btf=b'' # r) [Btf ''b''] r" for r using argument_btf [of "''b''" r] by simp
  have objs: "command_line [''--'', ''--help'', ''x''] [Object ''--help'', Object ''x'']"
    using command_objects [of "[''--help'', ''x'']"] by simp
  from command_argument [OF vq command_argument [OF b command_argument [OF vv command_argument [OF st
        command_argument [OF oh objs]]]]]
  show ?thesis by (simp add: example_args_def example_settings_def)
qed

lemma example_meaning: "well_formed example_settings" "runnable example_settings" "meaning example_settings = example_options"
proof -
  show "well_formed example_settings" "runnable example_settings"
    by (simp_all add: well_formed_def runnable_def example_settings_def)
  have "since_quiet example_settings = rev [Btf ''b'', Verbose, Verbose, Stats, Output ''h'', Object ''--help'', Object ''x'']"
    by (simp add: since_quiet_def example_settings_def)
  then show "meaning example_settings = example_options"
    by (simp add: meaning_def example_settings_def example_options_def mch_cli_options_init_def)
qed

subsection \<open>What the parser accepts\<close>

text \<open>
  C5: With memory enough, the parser accepts exactly the command lines of the grammar (letters may be bundled, a value
  may follow in the same or the next argument, everything after two dashes is an object) whose settings name one base,
  at most one output, at least one object and no output that is an input, or that ask for help or the version; its
  answer is the meaning of the settings: verbosity counts from the last request to be quiet.
\<close>

theorem command_line_accepted:
  assumes "length args < 2 ^ 31"
  shows "mch_cli_parse (prog # args) mch_cli_options_init err plenty = Inr (opts, h) \<longleftrightarrow>
     h = plenty \<and> (\<exists>ss. command_line args ss \<and> well_formed ss \<and> runnable ss \<and> opts = meaning ss)"
  using assms by (rule mch_cli_parse_meaning)

theorem command_line_accepted_witness:
  "mch_cli_parse (''p'' # example_args) mch_cli_options_init mch_error_clear plenty = Inr (example_options, plenty)"
proof -
  have "length example_args < 2 ^ 31" by (simp add: example_args_def)
  from command_line_accepted [OF this, of "''p''" mch_error_clear example_options plenty] show ?thesis
    using example_command_line example_meaning by metis
qed

text \<open>
  C17: Writing accepted options back as a command line and parsing that gives the same options, in whatever order and
  spelling they were given first.
\<close>

theorem options_roundtrip:
  assumes "mch_cli_parse (prog # args) mch_cli_options_init err plenty = Inr (opts, h)"
    "length args < 2 ^ 31" "length (unparse opts) < 2 ^ 31"
  shows "mch_cli_parse (prog # unparse opts) mch_cli_options_init err plenty = Inr (opts, plenty)"
  using assms by (rule unparse_parses)

theorem options_roundtrip_witness:
  "unparse example_options = [''-v'', ''-v'', ''--stats'', ''--btf'', ''b'', ''-o'', ''h'', ''--'', ''--help'', ''x'']
   \<and> mch_cli_parse (''p'' # unparse example_options) mch_cli_options_init mch_error_clear plenty
       = Inr (example_options, plenty)"
proof -
  have small: "length example_args < 2 ^ 31" by (simp add: example_args_def)
  then have parsed: "mch_cli_parse (''p'' # example_args) mch_cli_options_init mch_error_clear plenty
      = Inr (example_options, plenty)"
    using mch_cli_parse_meaning example_command_line example_meaning by metis
  have two: "replicate (nat 2) x = [x, x]" for x :: string by (simp add: numeral_2_eq_2)
  have line: "unparse example_options
      = [''-v'', ''-v'', ''--stats'', ''--btf'', ''b'', ''-o'', ''h'', ''--'', ''--help'', ''x'']"
    by (simp add: unparse_def example_options_def mch_cli_options_init_def two numeral_2_eq_2)
  then have "length (unparse example_options) < 2 ^ 31" by simp
  from options_roundtrip [OF parsed small this] line show ?thesis by simp
qed

end
