(* ===== verification/Emit_Uses.thy ===== *)
theory Emit_Uses
  imports Emit_Depth
begin

text \<open>
  What C needs to have seen before it reads an item: the definitions of the records that the item embeds and the typedefs
  that its text names. Both notions are read off the printed declarations, not off the dependency walk; the theory
  shows how far the items that the walk prints first cover them.
\<close>

subsection \<open>Records that have to be complete\<close>

text \<open>An object of type \<open>i\<close> has a part of the record type \<open>k\<close>.\<close>

inductive by_value :: "btf \<Rightarrow> mch_requirements option \<Rightarrow> u32 \<Rightarrow> u32 \<Rightarrow> bool" for b rq where
  by_value_record: "known_type b i = Some t \<Longrightarrow> is_named_record b t \<Longrightarrow> by_value b rq i i"
| by_value_member: "known_type b i = Some t \<Longrightarrow> is_record_kind (kind t) \<Longrightarrow> mch_btf_type_name b t = []
    \<Longrightarrow> j \<in> set (shown_members rq i t) \<Longrightarrow> by_value b rq j k \<Longrightarrow> by_value b rq i k"
| by_value_array: "known_type b i = Some t \<Longrightarrow> kind t = BTF_KIND_ARRAY \<Longrightarrow> by_value b rq (a_type (array_of t)) k
    \<Longrightarrow> by_value b rq i k"
| by_value_alias: "known_type b i = Some t
    \<Longrightarrow> kind t \<in> {BTF_KIND_TYPEDEF, BTF_KIND_CONST, BTF_KIND_VOLATILE, BTF_KIND_RESTRICT, BTF_KIND_TYPE_TAG, BTF_KIND_DECL_TAG}
    \<Longrightarrow> by_value b rq (size_or_type t) k \<Longrightarrow> by_value b rq i k"

text \<open>
  A declaration of type \<open>i\<close> that defines no object, as in a typedef, still needs complete elements of an
  array and complete members of a record that it spells out.
\<close>

inductive spells_out :: "btf \<Rightarrow> mch_requirements option \<Rightarrow> u32 \<Rightarrow> u32 \<Rightarrow> bool" for b rq where
  spells_member: "known_type b i = Some t \<Longrightarrow> is_record_kind (kind t) \<Longrightarrow> mch_btf_type_name b t = []
    \<Longrightarrow> j \<in> set (shown_members rq i t) \<Longrightarrow> by_value b rq j k \<Longrightarrow> spells_out b rq i k"
| spells_element: "known_type b i = Some t \<Longrightarrow> kind t = BTF_KIND_ARRAY \<Longrightarrow> by_value b rq (a_type (array_of t)) k
    \<Longrightarrow> spells_out b rq i k"
| spells_qualified: "known_type b i = Some t
    \<Longrightarrow> kind t \<in> {BTF_KIND_CONST, BTF_KIND_VOLATILE, BTF_KIND_RESTRICT, BTF_KIND_TYPE_TAG, BTF_KIND_DECL_TAG}
    \<Longrightarrow> spells_out b rq (size_or_type t) k \<Longrightarrow> spells_out b rq i k"

fun needs_complete :: "btf \<Rightarrow> mch_requirements option \<Rightarrow> item \<Rightarrow> u32 \<Rightarrow> bool" where
  "needs_complete b rq (Forward i) k \<longleftrightarrow> False"
| "needs_complete b rq (Typedef_Of i) k \<longleftrightarrow> (\<exists>t. known_type b i = Some t \<and> spells_out b rq (size_or_type t) k)"
| "needs_complete b rq (Record_Of i) k \<longleftrightarrow>
     (\<exists>t. known_type b i = Some t \<and> (\<exists>j \<in> set (shown_members rq i t). by_value b rq j k))"

lemma by_value_hard: "by_value b rq i k \<Longrightarrow> hard_item b rq i (Record_Of k)"
proof (induction rule: by_value.induct)
  case (by_value_record i t)
  then have "Record_Of i \<in> hard_here b i t" by (auto simp: hard_here_def is_named_record_def)
  with by_value_record(1) show ?case by (rule hard_item_here)
next
  case (by_value_member i t j k)
  then have "j \<in> set (hard_targets b rq i t)" by (auto simp: hard_targets_def)
  with by_value_member(1) show ?case using by_value_member.IH by (rule hard_item_through)
next
  case (by_value_array i t k)
  then have "a_type (array_of t) \<in> set (hard_targets b rq i t)" by (auto simp: hard_targets_def)
  with by_value_array(1) show ?case using by_value_array.IH by (rule hard_item_through)
next
  case (by_value_alias i t k)
  then have "size_or_type t \<in> set (hard_targets b rq i t)" by (auto simp: hard_targets_def)
  with by_value_alias(1) show ?case using by_value_alias.IH by (rule hard_item_through)
qed

lemma spells_out_by_value: "spells_out b rq i k \<Longrightarrow> by_value b rq i k"
proof (induction rule: spells_out.induct)
  case (spells_qualified i t k)
  then have "kind t \<in> {BTF_KIND_TYPEDEF, BTF_KIND_CONST, BTF_KIND_VOLATILE, BTF_KIND_RESTRICT, BTF_KIND_TYPE_TAG,
      BTF_KIND_DECL_TAG}" by blast
  with spells_qualified(1) show ?case using spells_qualified.IH by (rule by_value_alias)
qed (rule by_value_member by_value_array; assumption)+

text \<open>The test that decides between the two walks gives the hard one for such a target, at any depth.\<close>

lemma spells_out_target: "spells_out b rq i k \<Longrightarrow> fst (hard_target_loop n b i st)"
proof (induction n arbitrary: i st)
  case (Suc n)
  from Suc.prems show ?case
  proof (cases rule: spells_out.cases)
    case (spells_member t j)
    then show ?thesis by (auto simp: emit_type_known(1))
  next
    case (spells_element t)
    then show ?thesis by (simp add: emit_type_known(1))
  next
    case (spells_qualified t)
    then show ?thesis using Suc.IH by (auto simp: emit_type_known(1))
  qed
qed simp

lemma needs_complete_required: "needs_complete b rq x k \<Longrightarrow> Record_Of k \<in> requires b rq x"
proof (cases x)
  case (Typedef_Of i)
  assume "needs_complete b rq x k"
  then obtain t where t: "known_type b i = Some t" "spells_out b rq (size_or_type t) k"
    using Typedef_Of by auto
  have "hard_target b (size_or_type t)"
    using spells_out_target [OF t(2)] by (simp add: hard_target_def typedef_target_needs_hard_deps_def)
  then show ?thesis using t by_value_hard [OF spells_out_by_value [OF t(2)]] by (simp add: Typedef_Of)
next
  case (Record_Of i)
  assume "needs_complete b rq x k"
  then obtain t j where "known_type b i = Some t" "j \<in> set (shown_members rq i t)" "by_value b rq j k"
    using Record_Of by auto
  then show ?thesis using by_value_hard [of b rq j k] by (auto simp: Record_Of)
qed simp

subsection \<open>Typedefs that are named\<close>

text \<open>The printed declaration of a type \<open>i\<close> contains the name of the typedef \<open>k\<close>.\<close>

inductive names_typedef :: "btf \<Rightarrow> mch_requirements option \<Rightarrow> u32 \<Rightarrow> u32 \<Rightarrow> bool" for b rq where
  names_itself: "known_type b i = Some t \<Longrightarrow> i \<noteq> 0 \<Longrightarrow> kind t = BTF_KIND_TYPEDEF \<Longrightarrow> mch_btf_type_name b t \<noteq> []
    \<Longrightarrow> names_typedef b rq i i"
| names_through: "i \<noteq> 0 \<Longrightarrow> j \<in> set (decl_targets b rq i) \<Longrightarrow> names_typedef b rq j k \<Longrightarrow> names_typedef b rq i k"

fun item_names :: "btf \<Rightarrow> mch_requirements option \<Rightarrow> item \<Rightarrow> u32 \<Rightarrow> bool" where
  "item_names b rq (Forward i) k \<longleftrightarrow> False"
| "item_names b rq (Typedef_Of i) k \<longleftrightarrow> (\<exists>t. known_type b i = Some t \<and> names_typedef b rq (size_or_type t) k)"
| "item_names b rq (Record_Of i) k \<longleftrightarrow>
     (\<exists>t. known_type b i = Some t \<and> (\<exists>j \<in> set (shown_members rq i t). names_typedef b rq j k))"

text \<open>Types that a declaration reaches through a pointer or a function.\<close>

inductive behind_pointer :: "btf \<Rightarrow> u32 \<Rightarrow> bool" for b where
  behind_first: "known_type b i = Some t \<Longrightarrow> kind t = BTF_KIND_PTR \<or> kind t = BTF_KIND_FUNC_PROTO
    \<Longrightarrow> j \<in> set (soft_targets t) \<Longrightarrow> behind_pointer b j"
| behind_next: "behind_pointer b i \<Longrightarrow> known_type b i = Some t \<Longrightarrow> j \<in> set (soft_targets t) \<Longrightarrow> behind_pointer b j"

text \<open>No record without a name behind a pointer, and no typedef without a name.\<close>

definition plain_pointers :: "btf \<Rightarrow> bool" where
  "plain_pointers b \<longleftrightarrow> (\<forall>i t. known_type b i = Some t \<longrightarrow> mch_btf_type_name b t = [] \<longrightarrow>
     kind t \<noteq> BTF_KIND_TYPEDEF \<and> \<not> (behind_pointer b i \<and> is_record_kind (kind t)))"

lemma decl_targets_known:
  "j \<in> set (decl_targets b rq i) \<Longrightarrow> \<exists>t. known_type b i = Some t"
proof (rule ccontr)
  assume j: "j \<in> set (decl_targets b rq i)" and none: "\<nexists>t. known_type b i = Some t"
  then have "i < type_cnt b \<longrightarrow> type_by_id b i = None" by (auto simp: known_type_def)
  then have "decl_targets b rq i = []"
    unfolding decl_targets_def by (cases "i < type_cnt b") (simp_all only: if_True if_False option.case simp_thms)
  then show False using j by simp
qed

lemma decl_targets_kind:
  "known_type b i = Some t \<Longrightarrow> decl_targets b rq i = (case kind t of
       BTF_KIND_PTR \<Rightarrow> [size_or_type t]
     | BTF_KIND_ARRAY \<Rightarrow> [a_type (array_of t)]
     | BTF_KIND_CONST \<Rightarrow> [size_or_type t] | BTF_KIND_VOLATILE \<Rightarrow> [size_or_type t]
     | BTF_KIND_RESTRICT \<Rightarrow> [size_or_type t]
     | BTF_KIND_TYPE_TAG \<Rightarrow> [size_or_type t] | BTF_KIND_DECL_TAG \<Rightarrow> [size_or_type t]
     | BTF_KIND_TYPEDEF \<Rightarrow> if mch_btf_type_name b t = [] then [size_or_type t] else []
     | BTF_KIND_STRUCT \<Rightarrow> if mch_btf_type_name b t \<noteq> [] then [] else shown_members rq i t
     | BTF_KIND_UNION \<Rightarrow> if mch_btf_type_name b t \<noteq> [] then [] else shown_members rq i t
     | BTF_KIND_FUNC_PROTO \<Rightarrow> size_or_type t # map (\<lambda>k. p_type (param t k)) [0..<nvlen t]
     | _ \<Rightarrow> [])"
  using known_type_some [of b i t] by (cases "kind t") (simp_all add: decl_targets_def shown_members_def)

lemma names_soft:
  assumes "plain_pointers b"
  shows "names_typedef b rq i k \<Longrightarrow> behind_pointer b i \<Longrightarrow> soft_item b i (Typedef_Of k)"
proof (induction rule: names_typedef.induct)
  case (names_itself i t)
  then show ?case by (intro soft_item_here) (auto simp: soft_here_def)
next
  case (names_through i j k)
  obtain t where t: "known_type b i = Some t" using decl_targets_known names_through.hyps(2) by blast
  have plain: "mch_btf_type_name b t = [] \<Longrightarrow> kind t \<noteq> BTF_KIND_TYPEDEF \<and> \<not> is_record_kind (kind t)"
    using assms t names_through.prems unfolding plain_pointers_def by blast
  have j: "j \<in> set (soft_targets t)"
    using names_through.hyps(2) plain unfolding decl_targets_kind [OF t]
    by (cases "kind t") (auto simp: soft_targets_def split: if_splits)
  have "behind_pointer b j" using names_through.prems t j by (rule behind_next)
  then show ?case using soft_item_through [OF t names_through.hyps(1) j] names_through.IH by blast
qed

lemma names_hard:
  assumes "plain_pointers b"
  shows "names_typedef b rq i k \<Longrightarrow> hard_item b rq i (Typedef_Of k)"
proof (induction rule: names_typedef.induct)
  case (names_itself i t)
  then show ?case by (intro hard_item_here) (auto simp: hard_here_def)
next
  case (names_through i j k)
  obtain t where t: "known_type b i = Some t" using decl_targets_known names_through.hyps(2) by blast
  show ?case
  proof (cases "kind t = BTF_KIND_PTR \<or> kind t = BTF_KIND_FUNC_PROTO")
    case True
    have j: "j \<in> set (soft_targets t)"
      using names_through.hyps(2) True unfolding decl_targets_kind [OF t] by (auto simp: soft_targets_def)
    have "soft_item b j (Typedef_Of k)"
      using names_soft [OF assms names_through.hyps(3) behind_first [OF t True j]] .
    then have "soft_item b i (Typedef_Of k)" using soft_item_through [OF t names_through.hyps(1) j] by blast
    then show ?thesis using True by (intro hard_item_here [OF t]) (simp add: hard_here_def)
  next
    case False
    have "kind t = BTF_KIND_TYPEDEF \<Longrightarrow> mch_btf_type_name b t \<noteq> []"
      using assms t unfolding plain_pointers_def by blast
    then have "j \<in> set (hard_targets b rq i t)"
      using names_through.hyps(2) False unfolding decl_targets_kind [OF t]
      by (cases "kind t") (auto simp: hard_targets_def split: if_splits)
    then show ?thesis using hard_item_through [OF t] names_through.IH by blast
  qed
qed

lemma names_soft_target:
  assumes "plain_pointers b"
  shows "names_typedef b rq i k \<Longrightarrow> \<not> fst (hard_target_loop n b i st) \<Longrightarrow> soft_item b i (Typedef_Of k)"
proof (induction arbitrary: n rule: names_typedef.induct)
  case (names_itself i t)
  then show ?case by (intro soft_item_here) (auto simp: soft_here_def)
next
  case (names_through i j k)
  obtain t where t: "known_type b i = Some t" using decl_targets_known names_through.hyps(2) by blast
  obtain m where n: "n = Suc m" using names_through.prems by (cases n) auto
  have loop: "\<not> fst (hard_target_loop (Suc m) b i st)" using names_through.prems n by simp
  have named: "kind t = BTF_KIND_TYPEDEF \<Longrightarrow> mch_btf_type_name b t \<noteq> []"
    using assms t unfolding plain_pointers_def by blast
  have j: "j \<in> set (soft_targets t)"
    using names_through.hyps(2) named loop unfolding decl_targets_kind [OF t]
    by (cases "kind t") (auto simp: soft_targets_def emit_type_known(1) [OF t] split: if_splits)
  have "soft_item b j (Typedef_Of k)"
  proof (cases "kind t = BTF_KIND_PTR \<or> kind t = BTF_KIND_FUNC_PROTO")
    case True
    show ?thesis using names_soft [OF assms names_through.hyps(3) behind_first [OF t True j]] .
  next
    case False
    then have "\<not> fst (hard_target_loop m b j st)"
      using loop j by (cases "kind t") (auto simp: soft_targets_def emit_type_known(1) [OF t])
    then show ?thesis by (rule names_through.IH)
  qed
  then show ?case using soft_item_through [OF t names_through.hyps(1) j] by blast
qed

lemma item_names_required: "plain_pointers b \<Longrightarrow> item_names b rq x k \<Longrightarrow> Typedef_Of k \<in> requires b rq x"
proof (cases x)
  case (Typedef_Of i)
  assume plain: "plain_pointers b" and "item_names b rq x k"
  then obtain t where t: "known_type b i = Some t" "names_typedef b rq (size_or_type t) k"
    using Typedef_Of by auto
  show ?thesis
  proof (cases "hard_target b (size_or_type t)")
    case True
    then show ?thesis using t names_hard [OF plain] by (simp add: Typedef_Of)
  next
    case False
    then have "\<not> fst (hard_target_loop 32 b (size_or_type t) blank_ctx)"
      by (simp add: hard_target_def typedef_target_needs_hard_deps_def)
    from names_soft_target [OF plain t(2) this] False t(1) show ?thesis by (simp add: Typedef_Of)
  qed
next
  case (Record_Of i)
  assume plain: "plain_pointers b" and "item_names b rq x k"
  then obtain t j where "known_type b i = Some t" "j \<in> set (shown_members rq i t)" "names_typedef b rq j k"
    using Record_Of by auto
  then show ?thesis using names_hard [OF plain, of rq j k] by (auto simp: Record_Of)
qed simp

end
