(* ===== verification/Declarators.thy ===== *)
theory Declarators
  imports Emit_Depth
begin

text \<open>
  What a printed declaration means in C. The grammar of declarators assigns to a text the derivations of the
  declared name: \<^verbatim>\<open>*\<close> binds weaker than \<^verbatim>\<open>[n]\<close>, and parentheses group. The emitter builds a
  declarator from the type inwards out; the text that it prints for a type made of pointers and arrays declares
  the name with the derivations of that type.
\<close>

subsection \<open>Declarators of C\<close>

datatype derivation = Pointer_To | Array_Of u32

text \<open>
  \<open>declarator x s ds\<close>: the text \<open>s\<close> declares \<open>x\<close> as \<open>ds\<close>, outermost derivation first. A direct declarator is one that an
  array suffix can follow.
\<close>

inductive direct_declarator :: "string \<Rightarrow> string \<Rightarrow> derivation list \<Rightarrow> bool"
  and declarator :: "string \<Rightarrow> string \<Rightarrow> derivation list \<Rightarrow> bool" for x where
  direct_name: "direct_declarator x x []"
| direct_parens: "declarator x s ds \<Longrightarrow> direct_declarator x (''('' @ s @ '')'') ds"
| direct_array: "direct_declarator x s ds \<Longrightarrow>
    direct_declarator x (s @ ''['' @ show_u n @ '']'') (ds @ [Array_Of n])"
| declarator_direct: "direct_declarator x s ds \<Longrightarrow> declarator x s ds"
| declarator_pointer: "declarator x s ds \<Longrightarrow> declarator x (''*'' @ s) (ds @ [Pointer_To])"

text \<open>The derivations of a BTF type down to the type \<open>j\<close>; type and declaration tags do not show in C.\<close>

inductive derives :: "btf \<Rightarrow> u32 \<Rightarrow> u32 \<Rightarrow> derivation list \<Rightarrow> bool" for b j where
  derives_base: "derives b j j []"
| derives_pointer: "known_type b i = Some t \<Longrightarrow> i \<noteq> 0 \<Longrightarrow> kind t = BTF_KIND_PTR \<Longrightarrow> derives b j (size_or_type t) ds
    \<Longrightarrow> derives b j i (Pointer_To # ds)"
| derives_array: "known_type b i = Some t \<Longrightarrow> i \<noteq> 0 \<Longrightarrow> kind t = BTF_KIND_ARRAY
    \<Longrightarrow> derives b j (a_type (array_of t)) ds
    \<Longrightarrow> derives b j i (Array_Of (a_nelems (array_of t)) # ds)"
| derives_tag: "known_type b i = Some t \<Longrightarrow> i \<noteq> 0 \<Longrightarrow> kind t = BTF_KIND_TYPE_TAG \<or> kind t = BTF_KIND_DECL_TAG
    \<Longrightarrow> derives b j (size_or_type t) ds \<Longrightarrow> derives b j i ds"

text \<open>The types that have a name of their own in C, and how it is written.\<close>

definition specifier :: "btf \<Rightarrow> u32 \<Rightarrow> string option" where
  "specifier b j =
     (if j = 0 then Some ''void''
      else case known_type b j of
        None \<Rightarrow> None
      | Some t \<Rightarrow>
          (let name = mch_btf_type_name b t
           in case kind t of
                BTF_KIND_INT \<Rightarrow> Some (int_type_name t)
              | BTF_KIND_FLOAT \<Rightarrow> Some (float_type_name t)
              | BTF_KIND_TYPEDEF \<Rightarrow> if name = [] then None else Some name
              | BTF_KIND_STRUCT \<Rightarrow> if name = [] then None else Some (''struct '' @ name)
              | BTF_KIND_UNION \<Rightarrow> if name = [] then None else Some (''union '' @ name)
              | BTF_KIND_FWD \<Rightarrow> Some ((if kflag t then ''union '' else ''struct '') @ name)
              | BTF_KIND_ENUM \<Rightarrow> Some (if name = [] then ''int'' else ''enum '' @ name)
              | BTF_KIND_ENUM64 \<Rightarrow> Some (if name = [] then ''unsigned long long'' else ''enum '' @ name)
              | _ \<Rightarrow> None))"

lemma specifier_printed:
  assumes "specifier b j = Some base"
  shows "emit_decl_ex b rq (Suc n) j d f = put (base @ spaced d)"
proof (cases "j = 0")
  case True
  then show ?thesis using assms by (simp add: emit_decl_ex.simps(2) specifier_def)
next
  case False
  then obtain t where t: "known_type b j = Some t" using assms by (auto simp: specifier_def split: option.splits)
  have "emit_decl_kind (emit_decl_ex b rq n) (Suc n) b rq j d f t = put (base @ spaced d)"
    using assms False t unfolding specifier_def emit_decl_kind_def Let_def
    by (cases "kind t") (auto simp: record_keyword_def split: if_splits)
  then show ?thesis
    using False by (auto simp: emit_decl_ex.simps(2) with_type_def after_def emit_type_known(1) [OF t])
qed

text \<open>The declarator so far, in the form the emitter keeps it: it looks at the first character only.\<close>

definition prefix_ok :: "string \<Rightarrow> string \<Rightarrow> derivation list \<Rightarrow> bool" where
  "prefix_ok x d ds \<longleftrightarrow> d \<noteq> [] \<and> (if starred d then declarator x d ds else direct_declarator x d ds)"

lemma prefix_ok_declarator: "prefix_ok x d ds \<Longrightarrow> declarator x d ds"
  by (auto simp: prefix_ok_def intro: declarator_direct split: if_splits)

lemma prefix_ok_pointer: "prefix_ok x d ds \<Longrightarrow> prefix_ok x (''*'' @ d) (ds @ [Pointer_To])"
  using prefix_ok_declarator declarator_pointer by (fastforce simp: prefix_ok_def starred_def)

lemma prefix_ok_array: "prefix_ok x d ds \<Longrightarrow> prefix_ok x (array_declarator d n) (ds @ [Array_Of n])"
proof (cases "starred d")
  case True
  assume "prefix_ok x d ds"
  then have "direct_declarator x (''('' @ d @ '')'') ds" using True by (simp add: prefix_ok_def direct_parens del: append.simps)
  from direct_array [OF this, of n] show ?thesis using True
    by (simp add: prefix_ok_def array_declarator_def starred_def)
next
  case False
  assume "prefix_ok x d ds"
  then show ?thesis using False direct_array [of x d ds n]
    by (auto simp: prefix_ok_def array_declarator_def starred_def split: list.splits)
qed

lemma decl_declares:
  assumes "derives b j i ds" and "specifier b j = Some base" and "prefix_ok x d es"
    and "emit_decl_ex b rq n i d f st = Some (True, st')"
  shows "\<exists>s. st' = st\<lparr>ec_out := ec_out st @ base @ '' '' @ s\<rparr> \<and> declarator x s (es @ ds)"
  using assms
proof (induction arbitrary: n d es rule: derives.induct)
  case derives_base
  then obtain m where "n = Suc m" by (cases n) (auto simp: emit_decl_ex.simps(1) no_result_def)
  then have "st' = st\<lparr>ec_out := ec_out st @ base @ '' '' @ d\<rparr>"
    using derives_base specifier_printed [OF derives_base(1)] by (auto simp: put_def spaced_def prefix_ok_def)
  then show ?case using prefix_ok_declarator [OF derives_base(2)] by (intro exI [of _ d]) simp
next
  case (derives_pointer i t ds)
  then obtain m where m: "n = Suc m" by (cases n) (auto simp: emit_decl_ex.simps(1) no_result_def)
  have "emit_decl_ex b rq m (size_or_type t) (''*'' @ d) f st = Some (True, st')"
    using derives_pointer.prems(3) derives_pointer.hyps m
    by (auto simp: emit_decl_ex.simps(2) with_type_def after_def emit_type_known(1) [OF derives_pointer.hyps(1)]
        emit_decl_kind_def make_declarator_def fail_with_def split: if_splits)
  from derives_pointer.IH [OF derives_pointer.prems(1) prefix_ok_pointer [OF derives_pointer.prems(2)] this]
  show ?case by simp
next
  case (derives_array i t ds)
  then obtain m where m: "n = Suc m" by (cases n) (auto simp: emit_decl_ex.simps(1) no_result_def)
  have "emit_decl_ex b rq m (a_type (array_of t)) (array_declarator d (a_nelems (array_of t))) f st = Some (True, st')"
    using derives_array.prems(3) derives_array.hyps m
    by (auto simp: emit_decl_ex.simps(2) with_type_def after_def emit_type_known(1) [OF derives_array.hyps(1)]
        emit_decl_kind_def make_declarator_def fail_with_def split: if_splits)
  from derives_array.IH [OF derives_array.prems(1) prefix_ok_array [OF derives_array.prems(2)] this]
  show ?case by simp
next
  case (derives_tag i t ds)
  then obtain m where m: "n = Suc m" by (cases n) (auto simp: emit_decl_ex.simps(1) no_result_def)
  have "emit_decl_ex b rq m (size_or_type t) d f st = Some (True, st')"
    using derives_tag.prems(3) derives_tag.hyps m
    by (auto simp: emit_decl_ex.simps(2) with_type_def after_def emit_type_known(1) [OF derives_tag.hyps(1)]
        emit_decl_kind_def)
  from derives_tag.IH [OF derives_tag.prems(1,2) this] show ?case .
qed

end
