(* ===== verification/Emit_Properties.thy ===== *)
theory Emit_Properties
  imports Emit_Sample Emit_Uses Declarators
begin

text \<open>The properties of the header emitter, each with its application to the sample BTF.\<close>

subsection \<open>The header\<close>

text \<open>
  C6: A successful emission writes the guard and the pragmas, the forward declarations of the required
  named records in ascending order, the required enums, and then items that it prints once each. Every
  required typedef and record that has a name is among them, and every other one is there because a required
  one leads to it.
\<close>

theorem emit_header_contents:
  assumes "closure_start b s"
    and "mch_emit_header_with_options n ferror out b s options err h = Some (True, out', err', h')"
  shows "\<exists>xs. out' = out @ header_text b (option_requirements options) n s xs \<and> \<not> ferror out'
     \<and> distinct (map Forward (filter (named_forward b) (required_list s)) @ xs)
     \<and> root_items b s \<subseteq> set xs
     \<and> (\<forall>x \<in> set xs. \<exists>r \<in> root_items b s. r = x \<or> leads (requires b (option_requirements options)) r x)"
  using header_success [OF assms] by blast

theorem emit_header_contents_witness:
  "\<exists>xs. sample_header = [] @ header_text sample_base (option_requirements None) 5 sample_required xs \<and> \<not> False
     \<and> distinct (map Forward (filter (named_forward sample_base) (required_list sample_required)) @ xs)
     \<and> root_items sample_base sample_required \<subseteq> set xs
     \<and> (\<forall>x \<in> set xs. \<exists>r \<in> root_items sample_base sample_required.
          r = x \<or> leads (requires sample_base (option_requirements None)) r x)"
  using emit_header_contents [OF sample_required_start sample_header_deep [OF order_refl]] by simp

text \<open>
  C7: The items come in an order in which C can read them: unless requirements form a circle, everything that a
  typedef or record requires is printed before it, as a forward declaration at the top or as an earlier item.
\<close>

theorem emit_header_in_dependency_order:
  assumes "closure_start b s"
    and "mch_emit_header_with_options n ferror out b s options err h = Some (True, out', err', h')"
    and "acyclic (req_edges b (option_requirements options))"
  shows "\<exists>xs. out' = out @ header_text b (option_requirements options) n s xs
     \<and> root_items b s \<subseteq> set xs
     \<and> (\<forall>ys x zs. xs = ys @ x # zs \<longrightarrow>
          requires b (option_requirements options) x
            \<subseteq> Forward ` set (filter (named_forward b) (required_list s)) \<union> set ys)"
proof -
  let ?R = "requires b (option_requirements options)"
  let ?fs = "map Forward (filter (named_forward b) (required_list s))"
  obtain xs where xs: "out' = out @ header_text b (option_requirements options) n s xs" "root_items b s \<subseteq> set xs"
    "placed ?R {} (?fs @ xs)" using header_success [OF assms(1,2)] by blast
  have "?R x \<subseteq> Forward ` set (filter (named_forward b) (required_list s)) \<union> set ys" if "xs = ys @ x # zs" for ys x zs
    using placed_acyclic [of ?R "{}" "?fs @ ys" x zs] xs(3) assms(3) that by (auto simp: req_edges_def)
  with xs(1,2) show ?thesis by blast
qed

theorem emit_header_in_dependency_order_witness:
  "\<exists>xs. sample_header = [] @ header_text sample_base (option_requirements None) 5 sample_required xs
     \<and> root_items sample_base sample_required \<subseteq> set xs
     \<and> (\<forall>ys x zs. xs = ys @ x # zs \<longrightarrow>
          requires sample_base (option_requirements None) x
            \<subseteq> Forward ` set (filter (named_forward sample_base) (required_list sample_required)) \<union> set ys)"
proof -
  have "acyclic (req_edges sample_base (option_requirements None))"
    using sample_req_acyclic by (simp add: option_requirements_def)
  from emit_header_in_dependency_order [OF sample_required_start sample_header_deep [OF order_refl] this]
  show ?thesis .
qed



text \<open>
  C15: The emitter returns, whatever the memory and the stream do, when neither the declarations nor the
  dependencies of the base BTF go round in a circle; the recursion is then bounded by a number that depends on the
  number of types only.
\<close>

theorem emit_header_returns:
  assumes "closure_start b s"
    and "acyclic (decl_edges b (option_requirements options))" and "acyclic (soft_edges b)"
    and "acyclic (hard_edges b (option_requirements options))"
    and "level_depth (unat (type_cnt b)) (2 * unat (type_cnt b)) \<le> n"
  shows "\<exists>r. mch_emit_header_with_options n ferror out b s options err h = Some r"
  using header_returns [OF assms, of ferror out err h] by blast

theorem emit_header_returns_witness:
  "\<exists>r. mch_emit_header_with_options 248 (\<lambda>_. True) [] sample_base sample_required None mch_error_clear
     (False ## plenty) = Some r"
proof -
  have "acyclic (decl_edges sample_base (option_requirements None))"
    "acyclic (hard_edges sample_base (option_requirements None))"
    using sample_acyclic by (simp_all add: option_requirements_def)
  moreover have "level_depth (unat (type_cnt sample_base)) (2 * unat (type_cnt sample_base)) \<le> 248"
    by (simp add: level_depth_def)
  ultimately show ?thesis
    using sample_acyclic(2) by (intro emit_header_returns [OF sample_required_start])
qed

text \<open>
  C30: A required id that the base BTF does not have is found before anything is written: the emission fails and
  the output is what it was.
\<close>

theorem emit_header_unknown_id:
  assumes "closure_start b s" and "i \<in> required_ids s" and "known_type b i = None"
  shows "\<exists>err' h'. mch_emit_header_with_options n ferror out b s options err h = Some (False, out, err', h')"
proof -
  let ?ctx = "fresh_ctx out b err" and ?h = "stl (stl (stl h))"
  have "\<exists>err' h'. emit_with_states n ferror b s rq ?ctx ?h = Some (False, out, err', h')" for rq
  proof (cases "emit_groups_init (ts_selected s) (ec_err ?ctx) ?h")
    case (Pair r h1)
    show ?thesis
    proof (cases r)
      case (Inl e)
      with Pair show ?thesis by (simp add: emit_with_states_def fresh_ctx_def Let_def)
    next
      case (Inr g0)
      have g0: "collected b g0 []" "unat (ts_selected s) \<le> unat (eg_capacity g0)"
        using groups_init_start [OF assms(1), of ?h "ec_err ?ctx"] Pair Inr by simp_all
      from collect_start [OF assms(1) g0, of ?ctx] assms(2,3) obtain st1 g where
        "collect_emit_groups b s ?ctx g0 = Some (False, st1, g)" "ec_out st1 = ec_out ?ctx" by fastforce
      then show ?thesis using Pair Inr by (simp add: emit_with_states_def fresh_ctx_def Let_def)
    qed
  qed
  then show ?thesis by (auto simp: header_run)
qed

definition sample_gaps :: btf where
  "sample_gaps = sample_base\<lparr>type_by_id := (\<lambda>_. None)\<rparr>"

theorem emit_header_unknown_id_witness:
  "\<exists>err' h'. mch_emit_header_with_options 5 (\<lambda>_. False) ''kept'' sample_gaps sample_required None mch_error_clear plenty
     = Some (False, ''kept'', err', h')"
proof (rule emit_header_unknown_id)
  show "closure_start sample_gaps sample_required"
    using sample_required_start by (simp add: closure_start_def sample_gaps_def)
  show "2 \<in> required_ids sample_required" by (simp add: sample_required_ids)
  show "known_type sample_gaps 2 = None" by (simp add: known_type_def sample_gaps_def)
qed

text \<open>
  C29: The four arrays share one allocation and never reach into each other: each ends before the next one begins, and
  they hold the required ids of their kind in ascending order.
\<close>

theorem emit_groups_separate:
  assumes "closure_start b s" and "\<forall>i \<in> required_ids s. known_type b i \<noteq> None"
    and "emit_groups_init (ts_selected s) err h = (Inr g0, h')"
  shows "\<exists>g. collect_emit_groups b s st g0 = Some (True, st, g)
     \<and> group_ids g (eg_fwds g) (eg_fwd_count g) = filter (named_forward b) (required_list s)
     \<and> group_ids g (eg_enums g) (eg_enum_count g) = filter (is_enum b) (required_list s)
     \<and> group_ids g (eg_records g) (eg_record_count g) = filter (named_record b) (required_list s)
     \<and> group_ids g (eg_typedefs g) (eg_typedef_count g) = filter (is_typedef b) (required_list s)
     \<and> eg_fwds g + unat (eg_fwd_count g) \<le> eg_enums g \<and> eg_enums g + unat (eg_enum_count g) \<le> eg_records g
     \<and> eg_records g + unat (eg_record_count g) \<le> eg_typedefs g
     \<and> eg_typedefs g + unat (eg_typedef_count g) \<le> length (eg_storage g)"
proof -
  have g0: "collected b g0 []" "unat (ts_selected s) \<le> unat (eg_capacity g0)"
    using groups_init_start [OF assms(1), of h err] assms(3) by simp_all
  from collect_start [OF assms(1) g0, of st] assms(2) obtain g where
    run: "collect_emit_groups b s st g0 = Some (True, st, g)" and g: "collected b g (required_list s)" by auto
  have "eg_fwds g + unat (eg_fwd_count g) \<le> eg_enums g" "eg_enums g + unat (eg_enum_count g) \<le> eg_records g"
    "eg_records g + unat (eg_record_count g) \<le> eg_typedefs g"
    "eg_typedefs g + unat (eg_typedef_count g) \<le> length (eg_storage g)"
    using g by (auto simp: collected_def holds_def stored_def array_starts)
  with run ids_of_groups [OF g] show ?thesis by blast
qed

theorem emit_groups_separate_witness:
  "\<exists>g0 g. emit_groups_init (ts_selected sample_required) mch_error_clear plenty = (Inr g0, plenty)
     \<and> collect_emit_groups sample_base sample_required blank_ctx g0 = Some (True, blank_ctx, g)
     \<and> group_ids g (eg_enums g) (eg_enum_count g) = [6]
     \<and> group_ids g (eg_records g) (eg_record_count g) = [2]"
proof -
  obtain g0 where init: "emit_groups_init (ts_selected sample_required) mch_error_clear plenty = (Inr g0, plenty)"
    using groups_init_start [OF sample_required_start, of plenty mch_error_clear]
    by (cases "emit_groups_init (ts_selected sample_required) mch_error_clear plenty") (auto split: sum.splits)
  have "\<forall>i \<in> required_ids sample_required. known_type sample_base i \<noteq> None" by (simp add: sample_required_ids)
  from emit_groups_separate [OF sample_required_start this init, of blank_ctx] init
  show ?thesis by (auto simp: sample_required_list)
qed

subsection \<open>Declarations\<close>

text \<open>
  C16: A declaration that is printed for a type made of pointers, arrays and tags over a type with a name is the C
  declaration of that type: the specifier of the base type, and a declarator that, read by the grammar of C,
  declares the name with the derivations of the type, parentheses included.
\<close>

theorem declaration_reads_back:
  assumes "derives b j i ds" and "specifier b j = Some base" and "x \<noteq> []" and "hd x \<noteq> CHR ''*''"
    and "emit_decl b rq n i x st = Some (True, st')"
  shows "\<exists>s. ec_out st' = ec_out st @ base @ '' '' @ s \<and> declarator x s ds"
proof -
  have "prefix_ok x x []" using assms(3,4) direct_name [of x]
    by (cases x) (simp_all add: prefix_ok_def starred_def)
  from decl_declares [OF assms(1,2) this assms(5) [unfolded emit_decl_def]] show ?thesis by auto
qed

text \<open>A pointer to an array of three pointers to \<^verbatim>\<open>void\<close>.\<close>

definition sample_pointers :: btf where
  "sample_pointers = btf_of
     [plain_type BTF_KIND_UNKN 0 0, plain_type BTF_KIND_PTR 0 2,
      (plain_type BTF_KIND_ARRAY 0 0)\<lparr>array_of := \<lparr>a_type = 3, a_index_type = 0, a_nelems = 3\<rparr>\<rparr>,
      plain_type BTF_KIND_PTR 0 0] sample_strings"

lemma sample_pointers_known [simp]:
  "known_type sample_pointers 1 = Some (plain_type BTF_KIND_PTR 0 2)"
  "known_type sample_pointers 2
     = Some ((plain_type BTF_KIND_ARRAY 0 0)\<lparr>array_of := \<lparr>a_type = 3, a_index_type = 0, a_nelems = 3\<rparr>\<rparr>)"
  "known_type sample_pointers 3 = Some (plain_type BTF_KIND_PTR 0 0)"
  by (simp_all add: known_type_def sample_pointers_def btf_of_def)

lemma sample_pointers_decl:
  "emit_decl sample_pointers None (Suc (Suc (Suc (Suc n)))) 1 ''p'' st
     = Some (True, st\<lparr>ec_out := ec_out st @ ''void *(*p)[3]''\<rparr>)"
proof -
  have three: "show_u (3 :: u32) = ''3''" by code_simp
  have "with_type sample_pointers i f st = f t st" if "known_type sample_pointers i = Some t" for i f t
    using that by (simp add: with_type_def after_def emit_type_known(1))
  then show ?thesis
    by (simp add: emit_decl_def emit_decl_ex.simps(2) emit_decl_kind_def make_declarator_def array_declarator_def
        starred_def three spaced_def put_def plain_type_def)
qed

theorem declaration_reads_back_witness:
  "\<exists>s. ''void *(*p)[3]'' = [] @ ''void'' @ '' '' @ s \<and> declarator ''p'' s [Pointer_To, Array_Of 3, Pointer_To]"
proof -
  have "derives sample_pointers 0 1 [Pointer_To, Array_Of 3, Pointer_To]"
  proof -
    have "derives sample_pointers 0 0 []" by (rule derives_base)
    then have "derives sample_pointers 0 3 [Pointer_To]" by (intro derives_pointer [OF sample_pointers_known(3)]) simp_all
    then have "derives sample_pointers 0 2 [Array_Of 3, Pointer_To]"
      using derives_array [OF sample_pointers_known(2), of 0 "[Pointer_To]"] by simp
    then show ?thesis by (intro derives_pointer [OF sample_pointers_known(1)]) simp_all
  qed
  moreover have "specifier sample_pointers 0 = Some ''void''" by (simp add: specifier_def)
  moreover have "''p'' \<noteq> []" "hd ''p'' \<noteq> CHR ''*''" by simp_all
  ultimately have "\<exists>s. ec_out (blank_ctx\<lparr>ec_out := ec_out blank_ctx @ ''void *(*p)[3]''\<rparr>)
      = ec_out blank_ctx @ ''void'' @ '' '' @ s \<and> declarator ''p'' s [Pointer_To, Array_Of 3, Pointer_To]"
    using sample_pointers_decl [of 0 blank_ctx] by (rule declaration_reads_back)
  moreover have "ec_out (blank_ctx\<lparr>ec_out := ec_out blank_ctx @ ''void *(*p)[3]''\<rparr>) = ''void *(*p)[3]''"
    by (simp add: blank_ctx_def)
  moreover have "ec_out blank_ctx = []" by (simp add: blank_ctx_def)
  ultimately show ?thesis by (simp only:)
qed

subsection \<open>Circles\<close>


text \<open>A typedef of an array of itself, and a \<^verbatim>\<open>const\<close> of itself.\<close>

definition sample_circles :: btf where
  "sample_circles = btf_of
     [plain_type BTF_KIND_UNKN 0 0, plain_type BTF_KIND_TYPEDEF 6 2,
      (plain_type BTF_KIND_ARRAY 0 0)\<lparr>array_of := \<lparr>a_type = 1, a_index_type = 0, a_nelems = 3\<rparr>\<rparr>,
      plain_type BTF_KIND_CONST 0 3] sample_strings"

lemma sample_circles_known [simp]:
  "known_type sample_circles 1 = Some (plain_type BTF_KIND_TYPEDEF 6 2)"
  "known_type sample_circles 2
     = Some ((plain_type BTF_KIND_ARRAY 0 0)\<lparr>array_of := \<lparr>a_type = 1, a_index_type = 0, a_nelems = 3\<rparr>\<rparr>)"
  "known_type sample_circles 3 = Some (plain_type BTF_KIND_CONST 0 3)"
  by (simp_all add: known_type_def sample_circles_def btf_of_def)


text \<open>
  C36: The loop over the qualifiers of a declaration has no bound, unlike its two companions: on a circle of qualifiers
  the declaration is never printed and no error is reported.
\<close>

theorem qualifier_circle_never_returns:
  assumes "qualifier_circle b S" and "i \<in> S"
  shows "emit_decl_ex b rq n i d flexible_ok st = None"
proof (cases n)
  case 0
  then show ?thesis by (simp add: emit_decl_ex.simps(1) no_result_def)
next
  case (Suc m)
  obtain t where t: "known_type b i = Some t" and
    k: "kind t \<in> {BTF_KIND_CONST, BTF_KIND_VOLATILE, BTF_KIND_RESTRICT}" and "i \<noteq> 0"
    using assms unfolding qualifier_circle_def by (metis)
  have "emit_qualified_decl (emit_decl_ex b rq m) (Suc m) b i d flexible_ok st = None"
    using qualifier_chain_circle [OF assms, of "Suc m" 0 st]
    by (simp add: emit_qualified_decl_def del: qualifier_chain.simps)
  then show ?thesis using k \<open>i \<noteq> 0\<close>
    by (auto simp: Suc emit_decl_ex.simps(2) with_type_def after_def emit_type_known(1) [OF t] emit_decl_kind_def)
qed

theorem qualifier_circle_never_returns_witness:
  "emit_decl_ex sample_circles None 1000 3 ''x'' True blank_ctx = None"
proof (rule qualifier_circle_never_returns)
  show "qualifier_circle sample_circles {3}" by (simp add: qualifier_circle_def)
  show "(3 :: u32) \<in> {3}" by simp
qed

subsection \<open>What the walk does not see\<close>

text \<open>Text that a function of the emitter writes somewhere whenever it succeeds.\<close>

definition mentions :: "emitter \<Rightarrow> string \<Rightarrow> bool" where
  "mentions f w \<longleftrightarrow> (\<forall>st st'. f st = Some (True, st') \<longrightarrow> (\<exists>p q. ec_out st' = ec_out st @ p @ w @ q))"

lemma text_only_grows: "text_only f \<Longrightarrow> f st = Some (ok, st') \<Longrightarrow> \<exists>s. ec_out st' = ec_out st @ s"
  unfolding text_only_def by fastforce

lemma mentions_run_all:
  assumes "list_all text_only fs" "f \<in> set fs" "mentions f w"
  shows "mentions (run_all fs) w"
  using assms(1,2)
proof (induction fs)
  case (Cons g gs)
  have all: "text_only g" "text_only (run_all gs)" using Cons.prems(1) by (simp_all add: text_run_all)
  show ?case unfolding mentions_def
  proof (intro allI impI)
    fix st st'
    assume "run_all (g # gs) st = Some (True, st')"
    then obtain st1 where step: "g st = Some (True, st1)" "run_all gs st1 = Some (True, st')"
      by (auto split: option.split_asm prod.split_asm if_split_asm)
    obtain s1 s2 where out: "ec_out st1 = ec_out st @ s1" "ec_out st' = ec_out st1 @ s2"
      using text_only_grows [OF all(1) step(1)] text_only_grows [OF all(2) step(2)] by blast
    consider "f = g" | "mentions (run_all gs) w" using Cons by auto
    then show "\<exists>p q. ec_out st' = ec_out st @ p @ w @ q"
    proof cases
      case 1
      then obtain p q where "ec_out st1 = ec_out st @ p @ w @ q" using assms(3) step(1) unfolding mentions_def by blast
      then show ?thesis using out(2) by (intro exI [of _ p] exI [of _ "q @ s2"]) simp
    next
      case 2
      then obtain p q where "ec_out st' = ec_out st1 @ p @ w @ q" using step(2) unfolding mentions_def by blast
      then show ?thesis using out(1) by (intro exI [of _ "s1 @ p"] exI [of _ q]) simp
    qed
  qed
qed simp

lemma mentions_typedef:
  assumes "known_type b j = Some v" "kind v = BTF_KIND_TYPEDEF" "mch_btf_type_name b v \<noteq> []" "j \<noteq> 0"
  shows "mentions (emit_decl_ex b rq n j d f) (mch_btf_type_name b v @ spaced d)"
proof (cases n)
  case (Suc m)
  then have "emit_decl_ex b rq n j d f = put (mch_btf_type_name b v @ spaced d)"
    using assms by (intro ext) (simp add: emit_decl_ex.simps(2) with_type_def after_def emit_type_known(1) emit_decl_kind_def)
  then show ?thesis by (auto simp: mentions_def put_def intro: exI [of _ "[]"])
qed (simp add: mentions_def emit_decl_ex.simps(1) no_result_def)

text \<open>The declaration of a pointer to an unnamed record contains the declarations of the members.\<close>

lemma mentions_pointer_to_unnamed:
  assumes i: "known_type b i = Some t" "kind t = BTF_KIND_PTR" "i \<noteq> 0"
    and u: "known_type b (size_or_type t) = Some u" "size_or_type t \<noteq> 0" "is_record_kind (kind u)" "mch_btf_type_name b u = []"
    and k: "k < nvlen u" "\<not> member_hidden rq (size_or_type t) k"
    and w: "\<And>n f. mentions (emit_decl_ex b rq n (m_type (member u k))
        (case name_by_offset b (m_name_off (member u k)) of None \<Rightarrow> [] | Some name \<Rightarrow> name) f) w"
  shows "mentions (emit_decl_ex b rq n i d f) w"
proof -
  have body: "mentions (emit_record_body (emit_decl_ex b rq m) b rq (size_or_type t) u) w" for m
    unfolding emit_record_body_def
  proof (rule mentions_run_all)
    let ?f = "run_all [put ''  '',
        emit_decl_ex b rq m (m_type (member u k)) (case name_by_offset b (m_name_off (member u k)) of
           None \<Rightarrow> [] | Some name \<Rightarrow> name) (k + 1 = nvlen u),
        if bitfield_size u k \<noteq> 0 then put ('' : '' @ show_u (bitfield_size u k)) else success,
        put ('';'' @ newline)]"
    show "mentions ?f w" by (rule mentions_run_all [OF _ _ w [of m "k + 1 = nvlen u"]]) (auto intro!: text_intros)
    show "?f \<in> set ([put ('' {'' @ newline)]
       @ map (\<lambda>k. if member_hidden rq (size_or_type t) k then success
                  else run_all [put ''  '',
                     emit_decl_ex b rq m (m_type (member u k)) (case name_by_offset b (m_name_off (member u k)) of
                         None \<Rightarrow> [] | Some name \<Rightarrow> name) (k + 1 = nvlen u),
                     if bitfield_size u k \<noteq> 0 then put ('' : '' @ show_u (bitfield_size u k)) else success,
                     put ('';'' @ newline)]) [0..<nvlen u]
       @ [put ''}''])"
      using k by (auto intro!: image_eqI [of _ _ k])
  qed (auto intro!: text_intros text_map)
  have inline: "mentions (emit_inline_record (emit_decl_ex b rq m) b rq u (size_or_type t) d) w" for m d
    unfolding emit_inline_record_def by (rule mentions_run_all [OF _ _ body]) (auto intro!: text_intros)
  have spelled: "mentions (emit_decl_ex b rq m (size_or_type t) d f) w" for m d f
  proof (cases m)
    case (Suc m')
    then have "emit_decl_ex b rq m (size_or_type t) d f
        = emit_inline_record (emit_decl_ex b rq m') b rq u (size_or_type t) d"
      using u by (intro ext) (auto simp: emit_decl_ex.simps(2) with_type_def after_def emit_type_known(1) emit_decl_kind_def)
    then show ?thesis using inline by simp
  qed (simp add: mentions_def emit_decl_ex.simps(1) no_result_def)
  show ?thesis
  proof (cases n)
    case (Suc m)
    then have "emit_decl_ex b rq n i d f = (case make_declarator 512 (''*'' @ d) of
        None \<Rightarrow> fail_with ''type declarator is too long''
      | Some next_decl \<Rightarrow> emit_decl_ex b rq m (size_or_type t) next_decl f)"
      using i by (intro ext) (simp add: emit_decl_ex.simps(2) with_type_def after_def emit_type_known(1) emit_decl_kind_def)
    then show ?thesis using spelled by (auto simp: mentions_def fail_with_def split: option.split)
  qed (simp add: mentions_def emit_decl_ex.simps(1) no_result_def)
qed

text \<open>
  C32: A record without a name is spelled out in the declaration of a pointer to it, with the typedefs that its members
  name, but the walk asks for nothing behind such a pointer: where it comes to the pointer it prints nothing and notes nothing, while
  every successful declaration over the pointer writes the name of the typedef with its member.
\<close>

theorem unnamed_record_behind_pointer_missed:
  assumes "known_type b i = Some t" and "kind t = BTF_KIND_PTR" and "i \<noteq> 0" and "size_or_type t \<noteq> 0"
    and "known_type b (size_or_type t) = Some u" and "is_record_kind (kind u)" and "mch_btf_type_name b u = []"
    and "k < nvlen u" and "\<not> member_hidden rq (size_or_type t) k"
    and "name_by_offset b (m_name_off (member u k)) = Some name"
    and "m_type (member u k) \<noteq> 0" and "known_type b (m_type (member u k)) = Some v"
    and "kind v = BTF_KIND_TYPEDEF" and "mch_btf_type_name b v \<noteq> []"
  shows "emit_hard_deps b rq (m + 3) i st = Some (True, st) \<and> emit_soft_deps b rq (m + 2) i st = Some (True, st)
    \<and> (\<forall>st'. emit_decl_ex b rq n i d flexible_ok st = Some (True, st')
         \<longrightarrow> (\<exists>p q. ec_out st' = ec_out st @ p @ (mch_btf_type_name b v @ spaced name) @ q))"
proof -
  have silent: "emit_soft_deps b rq (Suc (Suc m)) i st = Some (True, st)" for m
    using assms(1-7) by (auto simp: emit_soft_deps.simps(2) emit_forward_decl_def with_type_def after_def reading_def
        emit_type_known(1) success_def Let_def)
  then have "emit_hard_deps b rq (Suc (Suc (Suc m))) i st = Some (True, st)" for m
    using assms(1,2) by (simp add: emit_hard_deps.simps(2) with_type_def after_def emit_type_known(1))
  moreover have "mentions (emit_decl_ex b rq n i d flexible_ok) (mch_btf_type_name b v @ spaced name)"
    using mentions_typedef [OF assms(12-14,11), of rq]
    by (intro mentions_pointer_to_unnamed [OF assms(1-3,5,4,6-9)]) (simp add: assms(10))
  ultimately show ?thesis using silent by (simp add: numeral_2_eq_2 numeral_3_eq_3 mentions_def)
qed

text \<open>\<^verbatim>\<open>typedef u32 task_t; struct { task_t state; } *\<close>\<close>

definition sample_unnamed :: btf where
  "sample_unnamed = btf_of
     [plain_type BTF_KIND_UNKN 0 0, plain_type BTF_KIND_TYPEDEF 6 4,
      record_type BTF_KIND_STRUCT 0 4 [\<lparr>m_name_off = 4, m_type = 1, m_offset = 0\<rparr>],
      plain_type BTF_KIND_PTR 0 2, plain_type BTF_KIND_INT 1 4] sample_strings"

theorem unnamed_record_behind_pointer_missed_witness:
  "\<exists>st'. emit_hard_deps sample_unnamed None 5 3 (fresh_ctx [] sample_unnamed mch_error_clear)
       = Some (True, fresh_ctx [] sample_unnamed mch_error_clear)
     \<and> emit_decl_ex sample_unnamed None 5 3 ''p'' True (fresh_ctx [] sample_unnamed mch_error_clear) = Some (True, st')
     \<and> (\<exists>p q. ec_out st' = p @ ''task_t state'' @ q)"
proof -
  let ?st = "fresh_ctx [] sample_unnamed mch_error_clear"
  have known: "known_type sample_unnamed 1 = Some (plain_type BTF_KIND_TYPEDEF 6 4)"
    "known_type sample_unnamed 2
       = Some (record_type BTF_KIND_STRUCT 0 4 [\<lparr>m_name_off = 4, m_type = 1, m_offset = 0\<rparr>])"
    "known_type sample_unnamed 3 = Some (plain_type BTF_KIND_PTR 0 2)"
    by (simp_all add: known_type_def sample_unnamed_def btf_of_def)
  have names: "name_by_offset sample_unnamed off = string_at sample_strings off" for off
    by (simp add: sample_unnamed_def btf_of_def)
  have step: "emit_decl_ex sample_unnamed None (Suc n) j d f st
      = emit_decl_kind (emit_decl_ex sample_unnamed None n) (Suc n) sample_unnamed None j d f t st"
    if "known_type sample_unnamed j = Some t" "j \<noteq> 0" for n j d f st t
    using that by (simp add: emit_decl_ex.simps(2) with_type_def after_def emit_type_known(1))
  have five: "(5 :: nat) = Suc (Suc (Suc (Suc (Suc 0))))" by simp
  obtain st' where run: "emit_decl_ex sample_unnamed None 5 3 ''p'' True ?st = Some (True, st')"
    unfolding five
    by (auto simp: step [OF known(3)] step [OF known(2)] step [OF known(1)] emit_decl_kind_def make_declarator_def
        emit_inline_record_def emit_record_body_def member_hidden_def bitfield_size_def put_def success_def names
        mch_btf_type_name_def)
  have "ec_out ?st = []" by (simp add: fresh_ctx_def Let_def)
  moreover have "mch_btf_type_name sample_unnamed (plain_type BTF_KIND_TYPEDEF 6 4) = ''task_t''"
    by (simp add: mch_btf_type_name_def names)
  moreover have "known_type sample_unnamed 2 \<noteq> None" "(2 :: u32) \<noteq> 0" using known by simp_all
  ultimately show ?thesis
    using unnamed_record_behind_pointer_missed [where m = 2 and n = 5 and rq = None and st = ?st and d = "''p''"
        and flexible_ok = True and k = 0 and name = "''state''" and u = "record_type BTF_KIND_STRUCT 0 4
          [\<lparr>m_name_off = 4, m_type = 1, m_offset = 0\<rparr>]", OF known(3)] known run
    by (auto simp: names mch_btf_type_name_def member_hidden_def spaced_def)
qed

end
