(* ===== verification/Recording.thy ===== *)
theory Recording
  imports Requirements
begin

text \<open>
  Sequences of recordings: the calls by which the seed extraction records what it finds, as a list of requests, and the traces
  they leave. The specification does not mention the requirements: the traces are those of the first mentions.
\<close>

datatype request =
    Ask_Root size_t "mch_requirement_origin option"
  | Ask_Member size_t size_t "mch_requirement_origin option"

fun record_request ::
    "btf \<Rightarrow> mch_error \<Rightarrow> request \<Rightarrow> mch_requirements option \<Rightarrow> heap \<Rightarrow> (mch_requirements option \<times> heap) result" where
  "record_request b err (Ask_Root i og) rq h = mch_requirements_add_type_root rq i og err h"
| "record_request b err (Ask_Member i m og) rq h = mch_requirements_add_record_member b rq i m og err h"

fun record_all ::
    "btf \<Rightarrow> mch_error \<Rightarrow> request list \<Rightarrow> mch_requirements option \<Rightarrow> heap \<Rightarrow> (mch_requirements option \<times> heap) result" where
  "record_all b err [] rq h = Inr (rq, h)"
| "record_all b err (q # qs) rq h =
     bind_result (record_request b err q rq h) (\<lambda>(rq', h'). record_all b err qs rq' h')"

subsection \<open>The traces of a sequence\<close>

text \<open>What a request asks for, and the trace it deserves: a copy of the texts, where an empty one counts as none.\<close>

fun asked :: "request \<Rightarrow> mch_requirement_trace_kind \<times> nat \<times> nat" where
  "asked (Ask_Root i og) = (MCH_REQUIREMENT_TRACE_TYPE_ROOT, unat i, 0)"
| "asked (Ask_Member i m og) = (MCH_REQUIREMENT_TRACE_RECORD_MEMBER, unat i, unat m)"

fun request_origin :: "request \<Rightarrow> mch_requirement_origin option" where
  "request_origin (Ask_Root i og) = og"
| "request_origin (Ask_Member i m og) = og"

definition copied :: "string option \<Rightarrow> string option" where
  "copied v = (if v = Some [] then None else v)"

definition trace_of :: "mch_requirement_trace_kind \<times> nat \<times> nat \<Rightarrow> mch_requirement_origin option \<Rightarrow> mch_requirement_trace" where
  "trace_of key og = (case key of (k, i, m) \<Rightarrow>
     \<lparr>trace_kind = k,
      trace_source = (case og of None \<Rightarrow> MCH_REQUIREMENT_SOURCE_UNKNOWN | Some x \<Rightarrow> o_source x),
      trace_type_id = of_nat i, trace_member_index = of_nat m,
      trace_object_path = Option.bind og (\<lambda>x. copied (o_object_path x)),
      trace_detail = Option.bind og (\<lambda>x. copied (o_detail x)),
      trace_access = Option.bind og (\<lambda>x. copied (o_access x)),
      trace_location = Option.bind og (\<lambda>x. copied (o_location x))\<rparr>)"

definition deserved :: "request \<Rightarrow> mch_requirement_trace" where
  "deserved q = trace_of (asked q) (request_origin q)"

text \<open>The requests that ask for something no earlier one has asked for, in their order.\<close>

fun first_mentions :: "request list \<Rightarrow> request list" where
  "first_mentions [] = []"
| "first_mentions (q # qs) = q # filter (\<lambda>q'. asked q' \<noteq> asked q) (first_mentions qs)"

lemma asked_first_mentions: "asked ` set (first_mentions qs) = asked ` set qs"
proof (induction qs)
  case (Cons q qs)
  have "asked ` set (first_mentions (q # qs)) = insert (asked q) (asked ` set (first_mentions qs))" by auto
  then show ?case using Cons by simp
qed simp

lemma distinct_first_mentions: "distinct (map asked (first_mentions qs))"
  by (induction qs) (auto simp: distinct_map inj_on_def)

lemma same_unat: "unat (a :: size_t) = unat b \<longleftrightarrow> b = a"
  by (metis word_unat_eq_iff)

lemma asked_root_iff:
  "(MCH_REQUIREMENT_TRACE_TYPE_ROOT, unat i, 0) \<in> asked ` set qs \<longleftrightarrow> (\<exists>og. Ask_Root i og \<in> set qs)"
proof -
  have "(MCH_REQUIREMENT_TRACE_TYPE_ROOT, unat i, 0) = asked q \<longleftrightarrow> (\<exists>og. q = Ask_Root i og)" for q
    by (cases q) (simp_all add: same_unat)
  then have "(\<exists>q \<in> set qs. (MCH_REQUIREMENT_TRACE_TYPE_ROOT, unat i, 0) = asked q) = (\<exists>q \<in> set qs. \<exists>og. q = Ask_Root i og)" by simp
  then show ?thesis by (auto simp: image_iff)
qed

lemma asked_member_iff:
  "(MCH_REQUIREMENT_TRACE_RECORD_MEMBER, unat i, unat m) \<in> asked ` set qs \<longleftrightarrow> (\<exists>og. Ask_Member i m og \<in> set qs)"
proof -
  have "(MCH_REQUIREMENT_TRACE_RECORD_MEMBER, unat i, unat m) = asked q \<longleftrightarrow> (\<exists>og. q = Ask_Member i m og)" for q
    by (cases q) (simp_all add: same_unat)
  then have "(\<exists>q \<in> set qs. (MCH_REQUIREMENT_TRACE_RECORD_MEMBER, unat i, unat m) = asked q) = (\<exists>q \<in> set qs. \<exists>og. q = Ask_Member i m og)" by simp
  then show ?thesis by (auto simp: image_iff)
qed

subsection \<open>One recording\<close>

lemma append_trace_deserved:
  assumes "append_trace r k i m og err h = Inr (r', h')"
  shows "req_traces r' = req_traces r @ [trace_of (k, unat i, unat m) og]"
proof -
  obtain tr h1 r1 where tr: "origin_trace k i m og err h = Inr (tr, h1)"
    and ens: "ensure_trace_capacity r err h1 = Inr (r1, h')" and r': "req_traces r' = req_traces r1 @ [tr]"
    using assms by (auto simp: append_trace_def bind_result_Inr split: if_split_asm)
  have "req_traces r1 = req_traces r"
    using ens by (auto simp: ensure_trace_capacity_def Let_def heap_alloc_def split: if_split_asm)
  moreover have "tr = trace_of (k, unat i, unat m) og"
    using tr by (auto simp: origin_trace_def trace_of_def copied_def bind_result_Inr Let_def
        dest!: dup_field_Inr split: option.split_asm)
  ultimately show ?thesis using r' by simp
qed

lemma with_member_words_traces: "with_member_words r i n err h = Inr (r1, h1) \<Longrightarrow> req_traces r1 = req_traces r"
  by (auto simp: with_member_words_def heap_calloc_def Let_def split: option.split_asm if_split_asm)

definition recorded_keys :: "mch_requirements \<Rightarrow> (mch_requirement_trace_kind \<times> nat \<times> nat) set" where
  "recorded_keys r = req_keys (req_roots r) (req_members r)"

lemma length_recorded:
  assumes "req_invar b r"
  shows "length (req_traces r) = card (recorded_keys r)" "finite (recorded_keys r)"
  using length_traces [OF assms] finite_requirements [OF assms]
  by (simp_all add: recorded_keys_def card_req_keys) (simp add: req_keys_def)

text \<open>There is one trace for each requirement, so the one a recording may append is there exactly for a new one.\<close>

lemma record_request_traces:
  assumes "req_invar b r" "req_invar b r'" "recorded_keys r' = insert (asked q) (recorded_keys r)"
    and "req_traces r' = req_traces r \<or> req_traces r' = req_traces r @ [deserved q]"
  shows "req_traces r' = req_traces r @ (if asked q \<in> recorded_keys r then [] else [deserved q])"
  using assms(4) length_recorded [OF assms(1)] length_recorded [OF assms(2)] assms(3)
  by (auto simp: insert_absorb)

lemma record_request_step:
  assumes inv: "req_invar b r" and run: "record_request b err q (Some r) h = Inr (rq, h')"
  obtains r' where "rq = Some r'" "req_invar b r'" "type_count r' = type_count r"
    "recorded_keys r' = insert (asked q) (recorded_keys r)"
    "req_traces r' = req_traces r @ (if asked q \<in> recorded_keys r then [] else [deserved q])"
proof (cases q)
  case (Ask_Root i og)
  with run have add: "mch_requirements_add_type_root (Some r) i og err h = Inr (rq, h')" by simp
  obtain r' where r': "rq = Some r'" "req_invar b r'" "req_roots r' = insert (unat i) (req_roots r)"
    "req_members r' = req_members r" "type_count r' = type_count r" by (rule add_type_root_spec [OF inv add])
  then have "recorded_keys r' = insert (asked q) (recorded_keys r)"
    by (simp add: Ask_Root recorded_keys_def req_keys_insert)
  moreover have "req_traces r' = req_traces r \<or> req_traces r' = req_traces r @ [deserved q]"
    using add r'(1) Ask_Root
    by (auto simp: mch_requirements_add_type_root_def bind_result_Inr deserved_def dest!: append_trace_deserved
        split: if_split_asm)
  ultimately show thesis using record_request_traces [OF inv r'(2)] that [OF r'(1,2,5)] by blast
next
  case (Ask_Member i m og)
  with run have add: "mch_requirements_add_record_member b (Some r) i m og err h = Inr (rq, h')" by simp
  obtain r' where r': "rq = Some r'" "req_invar b r'" "req_roots r' = req_roots r"
    "req_members r' = insert (unat i, unat m) (req_members r)" "type_count r' = type_count r" by (rule add_record_member_spec [OF inv add])
  then have "recorded_keys r' = insert (asked q) (recorded_keys r)"
    by (simp add: Ask_Member recorded_keys_def req_keys_insert)
  moreover have "req_traces r' = req_traces r \<or> req_traces r' = req_traces r @ [deserved q]"
    using add r'(1) Ask_Member
    by (auto simp: mch_requirements_add_record_member_def bind_result_Inr Let_def deserved_def
        dest!: append_trace_deserved with_member_words_traces split: option.split_asm if_split_asm)
  ultimately show thesis using record_request_traces [OF inv r'(2)] that [OF r'(1,2,5)] by blast
qed

lemma record_all_traces:
  assumes "req_invar b r" "record_all b err qs (Some r) h = Inr (rq, h')"
  shows "\<exists>r'. rq = Some r' \<and> req_invar b r' \<and> recorded_keys r' = recorded_keys r \<union> asked ` set qs
    \<and> req_traces r' = req_traces r @ map deserved (filter (\<lambda>q. asked q \<notin> recorded_keys r) (first_mentions qs))"
  using assms
proof (induction qs arbitrary: r h)
  case (Cons q qs)
  from Cons.prems(2) obtain rq1 h1 where one: "record_request b err q (Some r) h = Inr (rq1, h1)"
    and rest: "record_all b err qs rq1 h1 = Inr (rq, h')" by (auto simp: bind_result_Inr)
  obtain r1 where r1: "rq1 = Some r1" "req_invar b r1" "recorded_keys r1 = insert (asked q) (recorded_keys r)"
    "req_traces r1 = req_traces r @ (if asked q \<in> recorded_keys r then [] else [deserved q])"
    by (rule record_request_step [OF Cons.prems(1) one])
  have "filter (\<lambda>q'. asked q' \<notin> recorded_keys r) (first_mentions (q # qs))
      = (if asked q \<in> recorded_keys r then [] else [q])
        @ filter (\<lambda>q'. asked q' \<notin> recorded_keys r1) (first_mentions qs)"
    by (simp add: r1(3) conj_commute)
  with Cons.IH [OF r1(2) rest [unfolded r1(1)]] r1(3,4) show ?case by auto
qed (simp add: eq_commute)

text \<open>With memory at hand, a sequence of requests for types and members that are there succeeds.\<close>

fun admissible :: "btf \<Rightarrow> size_t \<Rightarrow> request \<Rightarrow> bool" where
  "admissible b n (Ask_Root i og) \<longleftrightarrow> i < n"
| "admissible b n (Ask_Member i m og) \<longleftrightarrow> i < n
     \<and> (case type_by_id b (ucast i) of None \<Rightarrow> False | Some t \<Rightarrow> is_record_kind (kind t) \<and> unat m < nvlen t)"

lemma record_all_plenty:
  assumes "req_invar b r" "\<forall>q \<in> set qs. admissible b (type_count r) q"
  shows "\<exists>r'. record_all b err qs (Some r) plenty = Inr (Some r', plenty)"
  using assms
proof (induction qs arbitrary: r)
  case (Cons q qs)
  have "\<exists>r1. record_request b err q (Some r) plenty = Inr (Some r1, plenty)"
    using Cons.prems add_type_root_plenty add_record_member_plenty
    by (cases q) (auto split: option.split_asm)
  then obtain r1 where one: "record_request b err q (Some r) plenty = Inr (Some r1, plenty)" by blast
  have "req_invar b r1" "type_count r1 = type_count r" using record_request_step [OF Cons.prems(1) one] by auto
  with Cons.IH [of r1] Cons.prems(2) one show ?case by simp
qed simp

end
