(* ===== verification/Base_Properties.thy ===== *)
theory Base_Properties
  imports Sample Recording
begin

text \<open>
  The properties of the set of type ids, of the diagnostics, of the requirements and of the index,
  each with its application to a concrete input. The lemmas they rest on are in the theories of
  the components.
\<close>

subsection \<open>The set of type ids\<close>

text \<open>
  C25: on a valid set, \<^verbatim>\<open>mch_type_set_add\<close> inserts the id if it is below the capacity, says
  whether it was new, keeps the set valid and leaves the capacity alone;
  \<^verbatim>\<open>mch_type_set_contains\<close> is membership, and the counter is the number of members.
\<close>

theorem type_set_add_inserts:
  assumes "ts_invar s"
  shows "ts_invar (snd (mch_type_set_add s i))
    \<and> ts_count (snd (mch_type_set_add s i)) = ts_count s
    \<and> ts_elems (snd (mch_type_set_add s i))
        = ts_elems s \<union> (if unat i < unat (ts_count s) then {unat i} else {})
    \<and> (fst (mch_type_set_add s i) \<longleftrightarrow> unat i < unat (ts_count s) \<and> \<not> mch_type_set_contains s i)
    \<and> (mch_type_set_contains (snd (mch_type_set_add s i)) j
        \<longleftrightarrow> mch_type_set_contains s j \<or> j = i \<and> unat i < unat (ts_count s))
    \<and> unat (ts_selected s) = card (ts_elems s)"
  using ts.add_invar [OF assms] ts.add_elems [OF assms] ts.add_fresh [OF assms] ts.isin_iff [OF assms]
    ts.isin_after_add [OF assms] assms
  by (auto simp: ts_invar_def)

theorem type_set_add_inserts_witness:
  "mch_type_set_contains (snd (mch_type_set_add sample_seeds 5)) 5
    \<and> ts_elems (snd (mch_type_set_add sample_seeds 9)) = {2}"
  using type_set_add_inserts [OF sample_seeds_ok(1), of 5 5] type_set_add_inserts [OF sample_seeds_ok(1), of 9 9]
    sample_seeds_ok by simp

text \<open>
  C26: \<^verbatim>\<open>mch_type_set_next\<close> finds the least member at or above the cursor and moves the cursor
  behind it; it finds none exactly when there is none.
\<close>

theorem type_set_next_least:
  assumes "ts_invar s"
  shows "case mch_type_set_next s c of
      (Some i, c') \<Rightarrow> mch_type_set_contains s i \<and> c \<le> i \<and> unat c' = unat i + 1
        \<and> (\<forall>j. c \<le> j \<and> j < i \<longrightarrow> \<not> mch_type_set_contains s j)
    | (None, _) \<Rightarrow> \<forall>j. mch_type_set_contains s j \<longrightarrow> j < c"
  using mch_type_set_next_spec [OF assms, of c]
  by (auto simp: ts.isin_iff [OF assms] word_le_nat_alt word_less_nat_alt split: prod.splits option.splits)

theorem type_set_next_least_witness:
  "fst (mch_type_set_next sample_seeds 1) = Some 2 \<and> fst (mch_type_set_next sample_seeds 3) = None"
proof -
  have mem: "mch_type_set_contains sample_seeds j \<longleftrightarrow> j = 2" for j
    using sample_seeds_ok by (auto simp: ts.isin_iff word_unat_eq_iff)
  show ?thesis
    using type_set_next_least [OF sample_seeds_ok(1), of 1] type_set_next_least [OF sample_seeds_ok(1), of 3]
    by (cases "mch_type_set_next sample_seeds 1"; cases "mch_type_set_next sample_seeds 3")
      (auto simp: mem split: option.splits)
qed

text \<open>
  Up to the largest count for which the rounding does not wrap, \<^verbatim>\<open>mch_type_set_init\<close>
  gives an empty valid set of that capacity, or -1 and a cleared set when the allocation fails.
\<close>

lemma type_set_init_empty:
  assumes "unat n \<le> 2 ^ 64 - 64"
  shows "case mch_type_set_init n h of
      (rc, s, h') \<Rightarrow> h' = stl h
        \<and> (if shd h \<and> unat (word_count_for_bits n) * 8 < 2 ^ 64
           then rc = 0 \<and> ts_invar s \<and> ts_elems s = {} \<and> ts_count s = n
           else rc = -1 \<and> ts_words s = None \<and> ts_count s = 0)"
proof -
  obtain rc s h' where init: "mch_type_set_init n h = (rc, s, h')" by (metis prod_cases3)
  show ?thesis
    using mch_type_set_init_ok [OF assms, of h s h'] init
    by (auto simp: mch_type_set_init_def heap_calloc_def Let_def split: if_splits)
qed

lemma type_set_init_empty_sample: "fst (mch_type_set_init 130 plenty) = 0"
proof -
  have small: "unat (word_count_for_bits 130) * 8 < 2 ^ 64"
    by (subst word_count_for_bits_exact) simp_all
  have "unat (130 :: size_t) \<le> 2 ^ 64 - 64" by simp
  from type_set_init_empty [OF this, of plenty] small show ?thesis
    by (auto split: prod.splits)
qed

subsection \<open>The index of the base BTF\<close>

text \<open>
  C13: building the index returns for every BTF. It fails exactly when the BTF has more than
  2^30 types after void or when an allocation fails, and the lookups of a built index find exactly
  the types with the name and the kind: one match, none, or several.
\<close>

theorem index_build_and_lookup:
  shows "(unat (type_cnt b) > 2 ^ 30 + 1 \<or> \<not> shd h \<or> \<not> shd (stl h)
      \<longrightarrow> (\<exists>e. mch_btf_index_init b err h = Some (Inl e)))
    \<and> (unat (type_cnt b) \<le> 2 ^ 30 + 1 \<and> shd h \<and> shd (stl h)
      \<longrightarrow> (\<exists>idx. mch_btf_index_init b err h = Some (Inr (idx, stl (stl h)))
           \<and> (\<forall>name k. mch_btf_index_lookup idx name k =
                Some (if candidates b name k = {} then No_Match
                      else if is_singleton (candidates b name k) then Match (the_elem (candidates b name k))
                      else Ambiguous_Match))))"
proof (intro conjI impI)
  assume "unat (type_cnt b) > 2 ^ 30 + 1 \<or> \<not> shd h \<or> \<not> shd (stl h)"
  then show "\<exists>e. mch_btf_index_init b err h = Some (Inl e)"
    using mch_btf_index_init_cases(1) [of b err h] by (auto split: if_splits)
next
  assume "unat (type_cnt b) \<le> 2 ^ 30 + 1 \<and> shd h \<and> shd (stl h)"
  then obtain idx where init: "mch_btf_index_init b err h = Some (Inr (idx, stl (stl h)))"
    and idx: "index_for b idx"
    using mch_btf_index_init_cases(2) [of b h err] by blast
  have valid: "\<exists>b. index_for b idx" and b: "the (index_btf idx) = b"
    using idx by (auto simp: index_for_def)
  have "mch_btf_index_lookup idx name k =
      Some (if candidates b name k = {} then No_Match
            else if is_singleton (candidates b name k) then Match (the_elem (candidates b name k))
            else Ambiguous_Match)" for name k
    using valid
    by (cases rule: by_name.search_exhaust [where q = "(name, k)"]) (auto simp: b is_singleton_def)
  with init show "\<exists>idx. mch_btf_index_init b err h = Some (Inr (idx, stl (stl h)))
      \<and> (\<forall>name k. mch_btf_index_lookup idx name k =
           Some (if candidates b name k = {} then No_Match
                 else if is_singleton (candidates b name k) then Match (the_elem (candidates b name k))
                 else Ambiguous_Match))" by blast
qed

theorem index_build_and_lookup_witness:
  "\<exists>idx. mch_btf_index_init sample_base mch_error_clear plenty = Some (Inr (idx, plenty))
    \<and> mch_btf_index_lookup idx ''task'' BTF_KIND_STRUCT = Some (Match 2)
    \<and> mch_btf_index_lookup idx ''mine'' BTF_KIND_STRUCT = Some No_Match"
  using index_build_and_lookup [of sample_base plenty mch_error_clear] sample_task sample_mine by fastforce


text \<open>The enumerators of an enum, as names and numbers; the number of a 64-bit one comes in two halves.\<close>

definition enumerators :: "btf \<Rightarrow> btf_type \<Rightarrow> (string option \<times> nat) list" where
  "enumerators b t = map (\<lambda>k.
     if kind t = BTF_KIND_ENUM
     then (name_by_offset b (e_name_off (enum_value t k)), unat (e_val (enum_value t k)))
     else (name_by_offset b (e64_name_off (enum64_value t k)),
           unat (e64_val_hi32 (enum64_value t k)) * 2 ^ 32 + unat (e64_val_lo32 (enum64_value t k)))) [0..<nvlen t]"

definition unnamed_enum :: "btf \<Rightarrow> btf_type \<Rightarrow> bool" where
  "unnamed_enum b t \<longleftrightarrow> (kind t = BTF_KIND_ENUM \<or> kind t = BTF_KIND_ENUM64) \<and> mch_btf_type_name b t = []"

definition equal_enum :: "btf \<Rightarrow> btf_type \<Rightarrow> btf \<Rightarrow> btf_type \<Rightarrow> bool" where
  "equal_enum b t ob ot \<longleftrightarrow> kind t = kind ot \<and> size_or_type t = size_or_type ot \<and> kflag t = kflag ot
     \<and> enumerators b t = enumerators ob ot \<and> (\<forall>x \<in> set (enumerators ob ot). fst x \<noteq> None)"

lemma halves_equal:
  fixes a b c d :: u32
  shows "unat a * 2 ^ 32 + unat b = unat c * 2 ^ 32 + unat d \<longleftrightarrow> a = c \<and> b = d"
proof
  assume eq: "unat a * 2 ^ 32 + unat b = unat c * 2 ^ 32 + unat d"
  have less: "unat b < 2 ^ 32" "unat d < 2 ^ 32" using unat_u32_less by auto
  have "unat b = unat d" using arg_cong [OF eq, of "\<lambda>n. n mod 2 ^ 32"] less by simp
  moreover from this eq have "unat a = unat c" by simp
  ultimately have "unat a = unat c" "unat b = unat d" by simp_all
  then show "a = c \<and> b = d" by (metis word_unat_eq_iff)
qed simp

lemma anonymous_enum_matches_iff:
  assumes "kind ot = BTF_KIND_ENUM \<or> kind ot = BTF_KIND_ENUM64"
  shows "anonymous_enum_matches b t ob ot \<longleftrightarrow> mch_btf_type_name b t = [] \<and> equal_enum b t ob ot"
proof -
  have vlen: "vlen t = vlen ot \<longleftrightarrow> nvlen t = nvlen ot" by (metis word_unat_eq_iff)
  have each: "list_all (enum_value_matches b t ob ot) [0..<nvlen ot]
      \<longleftrightarrow> enumerators b t = enumerators ob ot \<and> (\<forall>x \<in> set (enumerators ob ot). fst x \<noteq> None)"
    if "kind t = kind ot" "nvlen t = nvlen ot"
    using that assms halves_equal
    by (auto simp: list_all_iff enumerators_def enum_value_matches_def Let_def word_unat_eq_iff split: if_split_asm)
  have "nvlen t = nvlen ot" if "enumerators b t = enumerators ob ot"
    using arg_cong [OF that, of length] by (simp add: enumerators_def)
  then show ?thesis using each by (auto simp: anonymous_enum_matches_def equal_enum_def vlen)
qed

text \<open>An answer that the two definite cases pin down.\<close>

lemma unique_answer:
  assumes "m = No_Match \<longleftrightarrow> \<not> p \<or> C = {}" and "\<And>i. m = Match i \<longleftrightarrow> p \<and> C = {i}"
  shows "m = (if \<not> p \<or> C = {} then No_Match else if \<exists>i. C = {i} then Match (the_elem C) else Ambiguous_Match)"
  using assms by (cases m) auto

text \<open>
  C24: The search for an unnamed enum is decided by the set of the unnamed enums of the base BTF that are equal to it, in
  kind, size, flag and in all enumerators, by name and number: no match when there is none, the type when there is exactly one, and
  ambiguity when there are several. Any other type has no match.
\<close>

theorem anonymous_enum_lookup_unique:
  assumes "built_index b idx"
  shows "mch_btf_index_lookup_anonymous_enum idx ob ot =
     (let C = {j. 0 < j \<and> j < type_cnt b
                \<and> (\<exists>t. type_by_id b j = Some t \<and> unnamed_enum b t \<and> equal_enum b t ob ot)}
      in if \<not> unnamed_enum ob ot \<or> C = {} then No_Match
         else if \<exists>i. C = {i} then Match (the_elem C) else Ambiguous_Match)"
proof -
  let ?C = "{j. 0 < j \<and> j < type_cnt b
      \<and> (\<exists>t. type_by_id b j = Some t \<and> unnamed_enum b t \<and> equal_enum b t ob ot)}"
  let ?m = "mch_btf_index_lookup_anonymous_enum idx ob ot"
  have "enum_candidates b ob ot = (if unnamed_enum ob ot then ?C else {})"
    by (auto simp: enum_candidates_def set_type_ids unnamed_enum_def anonymous_enum_matches_iff) (auto simp: equal_enum_def)
  moreover note enum_lookup_candidates [OF built_index_for [OF assms], of ob ot]
  ultimately have "?m = No_Match \<longleftrightarrow> \<not> unnamed_enum ob ot \<or> ?C = {}"
    and "?m = Match i \<longleftrightarrow> unnamed_enum ob ot \<and> ?C = {i}" for i by auto
  from unique_answer [OF this] show ?thesis unfolding Let_def .
qed

theorem anonymous_enum_lookup_unique_witness:
  "mch_btf_index_lookup_anonymous_enum sample_index sample_object (the (type_by_id sample_object 5)) = Match 6"
proof -
  let ?ot = "the (type_by_id sample_object 5)"
  have "unnamed_enum sample_object ?ot" by (simp add: unnamed_enum_def mch_btf_type_name_def)
  moreover have "{j. 0 < j \<and> j < type_cnt sample_base
      \<and> (\<exists>t. type_by_id sample_base j = Some t \<and> unnamed_enum sample_base t \<and> equal_enum sample_base t sample_object ?ot)}
    = set (filter (\<lambda>j. \<exists>t. type_by_id sample_base j = Some t \<and> unnamed_enum sample_base t
        \<and> equal_enum sample_base t sample_object ?ot) (type_ids sample_base))" by (auto simp: set_type_ids)
  moreover have "\<dots> = {6}"
    by (simp add: sample_type_ids unnamed_enum_def equal_enum_def enumerators_def mch_btf_type_name_def)
  ultimately show ?thesis
    using anonymous_enum_lookup_unique [OF sample_index_built, of sample_object ?ot] by simp
qed

subsection \<open>The requirements\<close>

text \<open>
  C23: a type root that is recorded is below the type count and a root afterwards; nothing else
  changes, and the invariant holds again: the counters are the sizes of the sets, and the traces are the
  requirements, each exactly once.
\<close>

theorem add_type_root_effect:
  assumes "req_invar b r" and "mch_requirements_add_type_root (Some r) i origin err h = Inr (rq, h')"
  shows "\<exists>r'. rq = Some r' \<and> req_invar b r' \<and> i < type_count r \<and> type_count r' = type_count r
    \<and> (\<forall>j. mch_requirements_contains_type_root rq j \<longleftrightarrow> mch_requirements_contains_type_root (Some r) j \<or> j = i)
    \<and> req_members r' = req_members r
    \<and> unat (stat_type_roots (mch_requirements_stats rq)) = card (insert (unat i) (req_roots r))
    \<and> unat (stat_traces (mch_requirements_stats rq)) = card (insert (unat i) (req_roots r)) + card (req_members r)"
proof -
  obtain r' where r': "rq = Some r'" "req_invar b r'" "i < type_count r"
    "req_roots r' = insert (unat i) (req_roots r)" "req_members r' = req_members r" "type_count r' = type_count r"
    using assms by (rule add_type_root_spec)
  have "unat (trace_count r') = length (req_traces r')" "unat (type_roots r') = card (req_roots r')"
    using r'(2) by (simp_all add: req_invar_def trace_invar_def)
  moreover have "mch_requirements_contains_type_root rq j
      \<longleftrightarrow> mch_requirements_contains_type_root (Some r) j \<or> j = i" for j
    using contains_type_root_iff [OF assms(1), of j] contains_type_root_iff [OF r'(2), of j] r'(1,4)
    by (auto simp: word_unat_eq_iff)
  ultimately show ?thesis
    using length_traces [OF r'(2)] r' by (simp add: mch_requirements_stats_def)
qed

theorem add_type_root_effect_witness:
  "\<exists>rq. mch_requirements_add_type_root (Some sample_requirements) 2 None mch_error_clear plenty = Inr (rq, plenty)
    \<and> mch_requirements_contains_type_root rq 2 \<and> stat_traces (mch_requirements_stats rq) = 1"
proof -
  have inv: "req_invar sample_base sample_requirements" by (rule sample_requirements_ok)
  have "2 < type_count sample_requirements" by (simp add: sample_requirements_ok)
  then obtain rq where add: "mch_requirements_add_type_root (Some sample_requirements) 2 None mch_error_clear plenty
      = Inr (rq, plenty)"
    using add_type_root_plenty [OF inv] by blast
  from add_type_root_effect [OF inv add] add show ?thesis
    by (auto simp: sample_requirements_ok word_unat_eq_iff)
qed

text \<open>
  C22: a record member that is recorded names an existing member of a record of the base BTF and is
  a required member afterwards; the roots and the other members stay, and the invariant holds again.
\<close>

theorem add_record_member_effect:
  assumes "req_invar b r" and "mch_requirements_add_record_member b (Some r) i m origin err h = Inr (rq, h')"
  shows "\<exists>r' t. rq = Some r' \<and> req_invar b r' \<and> type_count r' = type_count r \<and> req_roots r' = req_roots r
    \<and> i < type_count r \<and> type_by_id b (ucast i) = Some t \<and> is_record_kind (kind t) \<and> unat m < nvlen t
    \<and> (\<forall>j n. mch_requirements_contains_record_member rq j n
         \<longleftrightarrow> mch_requirements_contains_record_member (Some r) j n \<or> j = i \<and> n = m)
    \<and> mch_requirements_has_record_members rq i"
proof -
  obtain r' where r': "rq = Some r'" "req_invar b r'" "req_roots r' = req_roots r"
    "req_members r' = insert (unat i, unat m) (req_members r)" "type_count r' = type_count r"
    using assms by (rule add_record_member_spec)
  obtain t where "i < type_count r" "type_by_id b (ucast i) = Some t" "is_record_kind (kind t)"
    "unat m < nvlen t"
    using assms(2) by (rule add_record_member_Inr)
  moreover have "mch_requirements_has_record_members rq i"
  proof -
    have "unat m \<in> members_of r' (unat i)" using r'(4) by (auto simp: req_members_def)
    then show ?thesis using has_record_members_iff [OF r'(2), of i] r'(1) by auto
  qed
  ultimately show ?thesis
    using r' contains_record_member_iff [OF assms(1)] contains_record_member_iff [OF r'(2)]
    by (intro exI [of _ r'] exI [of _ t]) (auto simp: word_unat_eq_iff)
qed

theorem add_record_member_effect_witness:
  "\<exists>rq h. mch_requirements_add_record_member sample_base (Some sample_requirements) 2 0 None mch_error_clear plenty
      = Inr (rq, h)
    \<and> mch_requirements_contains_record_member rq 2 0 \<and> \<not> mch_requirements_contains_record_member rq 2 1"
proof -
  have inv: "req_invar sample_base sample_requirements" by (rule sample_requirements_ok)
  have none: "\<not> mch_requirements_contains_record_member (Some sample_requirements) 2 1"
    using contains_record_member_iff [OF inv] by (simp add: sample_requirements_ok)
  obtain rq h where add: "mch_requirements_add_record_member sample_base (Some sample_requirements) 2 0 None
      mch_error_clear plenty = Inr (rq, h)"
    by (auto simp: mch_requirements_add_record_member_def sample_requirements_def mch_requirements_init_def
        heap_calloc_def word_count_for_bits_def with_member_words_def append_trace_def origin_trace_def
        ensure_trace_capacity_def bitset_contains_def Let_def empty_requirements_def)
  from add_record_member_effect [OF inv add] add none show ?thesis by auto
qed

text \<open>
  C21: The explanation tells the history. After any sequence of successful recordings from the start there is one trace for each
  type root or record member that was asked for, in the order in which they were first asked for, with the source and the
  texts of the request that came first; and exactly what was asked for is required.
\<close>

theorem traces_are_first_mentions:
  assumes "mch_requirements_init n h0 = (0, r0, h1)" and "unat n \<le> 2 ^ 32"
    and "record_all b err qs (Some r0) h1 = Inr (rq, h2)"
  shows "\<exists>r. rq = Some r \<and> req_traces r = map deserved (first_mentions qs)
    \<and> unat (stat_traces (mch_requirements_stats rq)) = length (first_mentions qs)
    \<and> (\<forall>i. mch_requirements_contains_type_root rq i \<longleftrightarrow> (\<exists>og. Ask_Root i og \<in> set qs))
    \<and> (\<forall>i m. mch_requirements_contains_record_member rq i m \<longleftrightarrow> (\<exists>og. Ask_Member i m og \<in> set qs))"
proof -
  note init = mch_requirements_init_ok [OF assms(2,1)]
  have fresh: "recorded_keys r0 = {}" by (simp add: recorded_keys_def req_keys_def init(2,3))
  have "req_traces r0 = []"
    using init(1) fresh by (simp add: req_invar_def trace_invar_def flip: recorded_keys_def)
  with record_all_traces [OF init(1) assms(3)] fresh obtain r where r: "rq = Some r" "req_invar b r"
    "recorded_keys r = asked ` set qs" "req_traces r = map deserved (first_mentions qs)" by auto
  have "unat (trace_count r) = length (first_mentions qs)"
    using r(2,4) by (simp add: req_invar_def trace_invar_def)
  moreover have "unat i \<in> req_roots r \<longleftrightarrow> (\<exists>og. Ask_Root i og \<in> set qs)" for i :: size_t
    using r(3) asked_root_iff [of i qs] by (simp add: recorded_keys_def flip: in_req_keys(1) [of "unat i" "req_roots r" "req_members r"])
  moreover have "(unat i, unat m) \<in> req_members r \<longleftrightarrow> (\<exists>og. Ask_Member i m og \<in> set qs)" for i m :: size_t
    using r(3) asked_member_iff [of i m qs] by (simp add: recorded_keys_def flip: in_req_keys(2) [of "unat i" "unat m" "req_roots r"])
  ultimately show ?thesis
    using r by (simp add: mch_requirements_stats_def contains_type_root_iff contains_record_member_iff)
qed

text \<open>Two requests for one root, from two places, and a member in between.\<close>

definition sample_requests :: "request list" where
  "sample_requests =
     [Ask_Root 2 (Some \<lparr>o_source = MCH_REQUIREMENT_SOURCE_OBJECT_BTF, o_object_path = Some ''a.o'', o_detail = Some [],
        o_access = None, o_location = None\<rparr>),
      Ask_Member 2 0 None,
      Ask_Root 2 (Some \<lparr>o_source = MCH_REQUIREMENT_SOURCE_CORE_RELO, o_object_path = Some ''b.o'', o_detail = None,
        o_access = None, o_location = None\<rparr>),
      Ask_Root 1 None]"

theorem traces_are_first_mentions_witness:
  "\<exists>r. record_all sample_base mch_error_clear sample_requests (Some sample_requirements) plenty = Inr (Some r, plenty)
    \<and> map (\<lambda>tr. (trace_key tr, trace_source tr, trace_object_path tr, trace_detail tr)) (req_traces r) =
        [((MCH_REQUIREMENT_TRACE_TYPE_ROOT, 2, 0), MCH_REQUIREMENT_SOURCE_OBJECT_BTF, Some ''a.o'', None),
         ((MCH_REQUIREMENT_TRACE_RECORD_MEMBER, 2, 0), MCH_REQUIREMENT_SOURCE_UNKNOWN, None, None),
         ((MCH_REQUIREMENT_TRACE_TYPE_ROOT, 1, 0), MCH_REQUIREMENT_SOURCE_UNKNOWN, None, None)]"
proof -
  have init: "mch_requirements_init 7 plenty = (0, sample_requirements, plenty)"
    by (simp add: sample_requirements_def mch_requirements_init_def heap_calloc_def word_count_for_bits_def Let_def)
  have "\<forall>q \<in> set sample_requests. admissible sample_base (type_count sample_requirements) q"
    by (simp add: sample_requests_def sample_requirements_ok)
  then obtain r where run: "record_all sample_base mch_error_clear sample_requests (Some sample_requirements) plenty
      = Inr (Some r, plenty)"
    using record_all_plenty [OF sample_requirements_ok(1)] by blast
  from traces_are_first_mentions [OF init _ run] have "req_traces r = map deserved (first_mentions sample_requests)" by auto
  with run show ?thesis by (simp add: sample_requests_def deserved_def trace_of_def trace_key_def copied_def)
qed

subsection \<open>Diagnostics\<close>

text \<open>
  Whatever texts the setters are given, each of the five buffers stays within its size, and printing writes nothing exactly
  when no message has been set.
\<close>

lemma error_buffers_bounded:
  assumes "err \<in> {mch_error_set s e, mch_error_set_context s e, mch_error_set_file (Some s) e,
      mch_error_set_detail s e, mch_error_set_hint (Some s) e, mch_error_set_file None e, mch_error_set_hint None e,
      mch_error_clear}" and "error_invar e"
  shows "length (message err) \<le> 255 \<and> length (context_of err) \<le> 511 \<and> length (file_of err) \<le> 511
    \<and> length (detail_of err) \<le> 511 \<and> length (hint err) \<le> 255
    \<and> error_invar err \<and> (mch_error_print err = [] \<longleftrightarrow> message err = [])"
proof -
  have "error_invar err" using assms by (auto intro: error_setters_invar)
  then show ?thesis by (simp add: error_invar_def mch_error_print_Nil_iff)
qed

end
