(* ===== verification/Spec2Isabelle.thy ===== *)
theory Spec2Isabelle
  imports Pipeline_Properties Cli_Properties Emit_Properties Seed_Properties Closure_Properties Base_Properties
begin

text \<open>
  A verification development for min-corehdr, a program that writes a C header with only those kernel
  types that given BPF objects need.

  \<^bold>\<open>The program.\<close> It parses its command line (\<^verbatim>\<open>cli.c\<close>), loads the BTF of the kernel
  (\<open>base\<close>) and of each object (\<^verbatim>\<open>btf_loader.c\<close>), indexes the named types of the base
  (\<^verbatim>\<open>btf_index.c\<close>), takes \<open>seeds\<close> from the types of an object and from the CO-RE relocations of its
  \<^verbatim>\<open>.BTF.ext\<close> section (\<^verbatim>\<open>seeds.c\<close>), records why each type or record member is required
  (\<^verbatim>\<open>requirements.c\<close>), closes the set of seeds (\<^verbatim>\<open>type_set.c\<close>) under
  dependencies (\<^verbatim>\<open>closure.c\<close>) and prints it (\<^verbatim>\<open>emitter.c\<close>) to standard output or to a file that it
  replaces (\<^verbatim>\<open>main.c\<close>). Errors are collected in a record of bounded texts (\<^verbatim>\<open>error.c\<close>).

  \<^bold>\<open>Conventions.\<close> A C integer is a word of its width; a struct is a record, a pointer that may be
  NULL an option, an array a list. A function that returns 0 or -1 and fills an error record returns
  \<open>Inl\<close> of the error or \<open>Inr\<close> of what it has written through its pointers
  (\<open>'a result\<close>). Where a loop runs over data that nobody has validated, the result is
  \<open>None\<close> if the loop does not return or a copy leaves its buffer (\<open>'a outcome\<close>); the
  theorems show that it is \<open>Some\<close>. An allocation asks the heap, a stream of answers, so that every
  theorem holds for any pattern of failing allocations. libbpf is a parameter: the record \<open>btf\<close>
  holds what its accessors answer, without assumptions on the answers. The functions of the emitter
  (\<open>emitter\<close>) take and return its context, the text written so far among it.

  \<^bold>\<open>Theories.\<close>
  \<^item> \<open>Prelude\<close>: integer types, bits, the heap, decimal printing. \<open>Error\<close>: \<^verbatim>\<open>error.c\<close>.
  \<^item> \<open>Id_Set\<close>: the interface of a set of type ids, a locale and its extension by an iteration;
    \<open>Type_Set\<close>: \<^verbatim>\<open>type_set.c\<close>, which implements both.
  \<^item> \<open>Btf\<close>: the types of libbpf as far as the program reads them, and \<^verbatim>\<open>btf_loader.c\<close>.
  \<^item> \<open>Unique_Search\<close>: the interface of a search for the unique match;
    \<open>Btf_Index\<close>: \<^verbatim>\<open>btf_index.c\<close>, whose two lookups implement it. The hash table refines
    the map \<open>index_map\<close>, its chains are lists of indices (\<open>chain\<close>).
  \<^item> \<open>Requirements\<close>: \<^verbatim>\<open>requirements.c\<close> with the invariant \<open>req_invar\<close>;
    \<open>Recording\<close>: sequences of recordings and the traces that they leave.
  \<^item> \<open>Closure\<close>: \<^verbatim>\<open>closure.c\<close>. The specification is the reflexive transitive
    closure of \<open>dep_edge\<close>.
  \<^item> \<open>Resolve\<close>, \<open>Access\<close>, \<open>Ext_Info\<close>, \<open>Core_Relo\<close>: the four parts of
    \<^verbatim>\<open>seeds.c\<close>: the resolution of a type of an object and the object's own seeds; the access
    string and the members it reads; the sections of \<^verbatim>\<open>.BTF.ext\<close>; the walk over the relocations.
  \<^item> \<open>Emit_Decl\<close>, \<open>Emit_Deps\<close>, \<open>Emit_Header\<close>: the code of \<^verbatim>\<open>emitter.c\<close>: declarations; the walk
    over hard and soft dependencies, which prints typedefs and records on the way; the enums, the groups of required ids
    and the whole header.
  \<^item> \<open>Emit_Order\<close>, \<open>Emit_Walk\<close>, \<open>Emit_Groups\<close>, \<open>Emit_Result\<close>: its specification. A header is a
    list of items (forward declarations, typedefs, records); \<open>requires\<close> names the items that an item needs first,
    \<open>placed\<close> says that an order respects this. Every function prints a placed list of items (\<open>prints\<close>).
    \<open>requires\<close> takes from the code the test that decides between the two walks for a typedef (\<open>hard_target\<close>);
    \<open>Emit_Uses\<close> compares it with what the text of an item really uses (\<open>by_value\<close>, \<open>spells_out\<close>,
    \<open>names_typedef\<close>), which is defined apart from the walk, and \<open>Declarators\<close> reads
    declarations back with the grammar of C declarators.
  \<^item> \<open>Emit_Depth\<close>: when the emitter returns.
  \<^item> \<open>Cli\<close>: \<^verbatim>\<open>cli.c\<close>; \<open>Cli_Spec\<close>: the grammar \<open>command_line\<close>, which reads a line as a list
    of settings, and their \<open>meaning\<close>.
  \<^item> \<open>Output_File\<close>: the first two functions of \<^verbatim>\<open>main.c\<close>, over a file system as a map from directory entries to
    contents, where several paths may name one entry (\<open>os_entry\<close>);
    \<open>Pipeline\<close>: \<^verbatim>\<open>main\<close>, in stages that return a log and a result (\<open>'a logged\<close>);
    \<open>Pipeline_Spec\<close>: what a run computes, in terms of the components' specifications (\<open>analysed\<close>,
    \<open>header_of\<close>, \<open>delivered\<close>); \<open>Pipeline_Returns\<close>: when it returns.
  \<^item> \<open>Sample\<close>, \<open>Emit_Sample\<close>, \<open>Pipeline_Sample\<close>: a small base BTF and object, their header, and a run of
    the program on them: the concrete inputs of the applications.
  \<^item> \<open>Base_Properties\<close>, \<open>Closure_Properties\<close>, \<open>Seed_Properties\<close>, \<open>Emit_Properties\<close>,
    \<open>Cli_Properties\<close>, \<open>Pipeline_Properties\<close>: the properties, each with its application to a concrete input.

  \<^bold>\<open>Bounds.\<close> The depth limits are those of the code: 32 types in a chain, 64 in an access, 17
  nested records, 128 attempts at a temporary name. The sizes of the program's own data (a count of types below 2^32, a 16-bit
  number of members) bound all sums of the models; the theorem on \<^verbatim>\<open>.BTF.ext\<close> assumes fewer than 2^32
  bytes, as libbpf reports the size in 32 bits (\<open>ext_sizes_fit\<close> for the whole program), the theorems on the command
  line fewer than 2^31 arguments, as \<^verbatim>\<open>argc\<close> is an \<^verbatim>\<open>int\<close>.
  The recursion of the emitter has no bound in the code; the model's functions take a depth \<open>n\<close> and are \<open>None\<close> when
  it is used up. A larger depth never changes a result, and \<open>level_depth\<close> of the number of types is enough for every
  BTF whose declarations and dependencies are without circles; for a circle of qualifiers, and for one of typedefs through an
  array or an unnamed record, no depth is enough, and the code does not return.

  \<^bold>\<open>The outside.\<close> The record \<open>world\<close> holds what libbpf answers for a file, and \<open>os\<close> which calls of the
  C library fail and how: \<^verbatim>\<open>open\<close>, \<^verbatim>\<open>fdopen\<close>, \<^verbatim>\<open>fclose\<close>, \<^verbatim>\<open>rename\<close>,
  \<^verbatim>\<open>remove\<close> and the error indicator of a stream. Otherwise these calls do what POSIX says: an exclusive open
  creates a file that was not there, a rename replaces the target, and does nothing when both paths name one entry. Which entry a
  path names is a parameter too: the program compares paths as strings only, so what it promises of its inputs depends on it.
  The host is little-endian: \<open>host_is_little_endian\<close> is the constant \<open>True\<close>, where the code probes the host at run
  time to compare its byte order with that of \<^verbatim>\<open>.BTF.ext\<close>, and the bytes of a number are read in that order.

  \<^bold>\<open>Not modelled.\<close> Freeing of memory (it has no observable effect), the flush of standard output when the process ends
  and what another process does to the files meanwhile; the overflow of the counter of \<^verbatim>\<open>-v\<close>, an \<^verbatim>\<open>int\<close> in the
  code and an integer here; tests, examples and build files, which are not part of the program.
\<close>

end
